(* ===== verification/Go_Prelude.thy ===== *)
theory Go_Prelude
  imports Main "HOL-Library.Char_ord" "HOL-Library.List_Lexorder"
begin

text \<open>
  What every theory of the development shares: byte strings, run-time panics as values, Go maps,
  and the lemma collections.

  \<^item> A Go \<open>string\<close> and a Go \<open>[]byte\<close> are both sequences of bytes. HOL's \<open>char\<close> has
    exactly 256 values, so both are \<open>char list\<close>; \<open>of_char\<close> reads a byte as a number.
  \<^item> A run-time panic that nothing recovers ends the process. It is the left summand of
    \<open>'a go\<close>; \<open>gbind\<close> sequences computations that may panic.
  \<^item> A Go map with ordered keys is an association list strictly sorted by key
    (\<open>gm_ok\<close>): two maps with the same content are equal, and the sorted iteration of
    \<open>encoding/json\<close> is the iteration of the list.
\<close>

named_theorems go_simps \<open>inversion of panicking computations\<close>
named_theorems gm_simps \<open>lookup and well-formedness of Go maps\<close>

section \<open>Bytes and panics\<close>

type_synonym bytes = "char list"

text \<open>The run-time panics the code of the repository can raise.\<close>

datatype panic =
    NilMapWrite      \<comment> \<open>assignment to entry in nil map\<close>
  | NilDeref         \<comment> \<open>invalid memory address or nil pointer dereference\<close>
  | SliceBounds      \<comment> \<open>slice bounds out of range\<close>
  | DivideByZero     \<comment> \<open>integer divide by zero\<close>
  | NotOnCurve       \<comment> \<open>crypto/elliptic: attempted operation on invalid point\<close>
  | MessageTooLarge  \<comment> \<open>crypto/cipher: message too large for GCM\<close>
  | ClosedChannel    \<comment> \<open>close of, or send on, a closed channel\<close>

type_synonym 'a go = "panic + 'a"

fun gbind :: "'a go \<Rightarrow> ('a \<Rightarrow> 'b go) \<Rightarrow> 'b go" where
  "gbind (Inl p) f = Inl p"
| "gbind (Inr x) f = f x"

lemma gbind_cong [fundef_cong]:
  assumes "m = m'" and "\<And>x. m' = Inr x \<Longrightarrow> f x = f' x"
  shows "gbind m f = gbind m' f'"
  using assms by (cases m') auto

lemma gbind_Inr_iff [go_simps]: "gbind m f = Inr y \<longleftrightarrow> (\<exists>x. m = Inr x \<and> f x = Inr y)"
  by (cases m) auto

lemma gbind_Inl_iff [go_simps]:
  "gbind m f = Inl p \<longleftrightarrow> m = Inl p \<or> (\<exists>x. m = Inr x \<and> f x = Inl p)"
  by (cases m) auto

lemma gbind_assoc: "gbind (gbind m f) g = gbind m (\<lambda>x. gbind (f x) g)"
  by (cases m) auto

lemma gbind_return [simp]: "gbind m Inr = m"
  by (cases m) auto

lemma char_of_eqI: "n mod 256 = (of_char c :: nat) \<Longrightarrow> char_of n = c"
  by (metis char_of_mod_256 char_of_char)

section \<open>Go maps with string keys\<close>

fun gm_put :: "'k::linorder \<Rightarrow> 'v \<Rightarrow> ('k \<times> 'v) list \<Rightarrow> ('k \<times> 'v) list" where
  "gm_put k v [] = [(k, v)]"
| "gm_put k v (e # m) =
     (if fst e < k then e # gm_put k v m
      else if fst e = k then (k, v) # m
      else (k, v) # e # m)"

definition gm_del :: "'k \<Rightarrow> ('k \<times> 'v) list \<Rightarrow> ('k \<times> 'v) list" where
  "gm_del k m = filter (\<lambda>e. fst e \<noteq> k) m"

definition gm_ok :: "('k::linorder \<times> 'v) list \<Rightarrow> bool" where
  "gm_ok m \<longleftrightarrow> sorted_wrt (<) (map fst m)"

text \<open>Indexing a map of strings gives the zero value \<open>""\<close> for an absent key.\<close>

definition gm_str :: "(string \<times> string) list \<Rightarrow> string \<Rightarrow> string" where
  "gm_str m k = (case map_of m k of None \<Rightarrow> '''' | Some v \<Rightarrow> v)"

lemma gm_ok_Nil [gm_simps, simp]: "gm_ok []"
  by (simp add: gm_ok_def)

lemma gm_ok_Cons [gm_simps]: "gm_ok (e # m) \<longleftrightarrow> (\<forall>x \<in> set m. fst e < fst x) \<and> gm_ok m"
  by (auto simp: gm_ok_def)

lemma fst_set_gm_put: "fst ` set (gm_put k v m) = insert k (fst ` set m)"
  by (induction m) auto

lemma gm_ok_put [gm_simps, intro]: "gm_ok m \<Longrightarrow> gm_ok (gm_put k v m)"
proof (induction m)
  case Nil
  then show ?case by (simp add: gm_simps)
next
  case (Cons e m)
  have "fst e < k \<Longrightarrow> \<forall>x \<in> fst ` set (gm_put k v m). fst e < x"
    using Cons.prems by (auto simp: gm_ok_Cons fst_set_gm_put)
  with Cons show ?case by (auto simp: gm_ok_Cons)
qed

lemma gm_ok_del [gm_simps, intro]: "gm_ok m \<Longrightarrow> gm_ok (gm_del k m)"
  by (simp add: gm_ok_def gm_del_def sorted_wrt_map sorted_wrt_filter)

lemma map_of_gm_put [gm_simps]:
  "gm_ok m \<Longrightarrow> map_of (gm_put k v m) = (map_of m)(k \<mapsto> v)"
proof (induction m)
  case Nil
  then show ?case by simp
next
  case (Cons e m)
  then show ?case by (cases e) (auto simp: gm_ok_Cons fun_upd_twist)
qed

lemma map_of_gm_del [gm_simps]: "map_of (gm_del k m) = (map_of m)(k := None)"
  by (induction m) (auto simp: gm_del_def)

lemma gm_str_put [gm_simps]:
  "gm_ok m \<Longrightarrow> gm_str (gm_put k v m) k' = (if k' = k then v else gm_str m k')"
  by (simp add: gm_str_def map_of_gm_put)

lemma gm_str_Nil [gm_simps, simp]: "gm_str [] k = ''''"
  by (simp add: gm_str_def)

text \<open>A well-formed map is determined by its lookups.\<close>

lemma gm_ok_distinct: "gm_ok m \<Longrightarrow> distinct (map fst m)"
  by (simp add: gm_ok_def strict_sorted_iff)

lemma gm_eqI:
  assumes "gm_ok m" and "gm_ok m'" and "map_of m = map_of m'"
  shows "m = m'"
proof -
  have keys: "set (map fst m) = set (map fst m')"
    using assms(3) by (metis dom_map_of_conv_image_fst list.set_map)
  have "map fst m = map fst m'"
    using assms(1,2) keys by (simp add: gm_ok_def strict_sorted_equal)
  moreover have "map snd m = map snd m'"
  proof -
    have "map snd m = map (\<lambda>k. the (map_of m k)) (map fst m)"
      using gm_ok_distinct [OF assms(1)] by auto
    moreover have "map snd m' = map (\<lambda>k. the (map_of m' k)) (map fst m')"
      using gm_ok_distinct [OF assms(2)] by auto
    ultimately show ?thesis
      using \<open>map fst m = map fst m'\<close> assms(3) by simp
  qed
  ultimately show ?thesis
    by (metis zip_map_fst_snd)
qed

text \<open>Inserting the entries of a sorted map one after the other rebuilds it.\<close>

lemma gm_put_last: "\<forall>x \<in> set m. fst x < k \<Longrightarrow> gm_put k v m = m @ [(k, v)]"
  by (induction m) auto

lemma fold_gm_put_sorted:
  "gm_ok (m @ xs) \<Longrightarrow> fold (\<lambda>(k, v) a. gm_put k v a) xs m = m @ xs"
proof (induction xs arbitrary: m)
  case Nil
  then show ?case by simp
next
  case (Cons e xs)
  have "\<forall>x \<in> set m. fst x < fst e"
    using Cons.prems by (auto simp: gm_ok_def sorted_wrt_append)
  then have "gm_put (fst e) (snd e) m = m @ [e]"
    by (simp add: gm_put_last)
  moreover have "gm_ok ((m @ [e]) @ xs)"
    using Cons.prems by simp
  ultimately show ?case
    using Cons.IH [of "m @ [e]"] by (simp add: case_prod_beta)
qed

section \<open>Invariants of transition systems\<close>

text \<open>
  The interleavings of a component's goroutines are a step relation. An invariant that holds
  initially and is kept by every step holds in every reachable state.
\<close>

locale transition_invariant =
  fixes start :: "'s \<Rightarrow> bool"
    and step :: "'s \<Rightarrow> 's \<Rightarrow> bool"
    and inv :: "'s \<Rightarrow> bool"
  assumes start_inv: "start s \<Longrightarrow> inv s"
    and step_inv: "inv s \<Longrightarrow> step s t \<Longrightarrow> inv t"
begin

lemma steps_inv: "step\<^sup>*\<^sup>* s t \<Longrightarrow> inv s \<Longrightarrow> inv t"
  by (induction rule: rtranclp_induct) (auto intro: step_inv)

lemma reachable_inv: "start s \<Longrightarrow> step\<^sup>*\<^sup>* s t \<Longrightarrow> inv t"
  by (blast intro: start_inv steps_inv)

end

end
