(* ===== verification/Go_Base64.thy ===== *)
theory Go_Base64
  imports Go_Prelude
begin

text \<open>
  \<open>encoding/base64\<close> as the packet format uses it: \<open>StdEncoding.EncodeToString\<close> and
  \<open>StdEncoding.DecodeString\<close> (RFC 4648 alphabet, padded, not strict about the unused low bits of
  the last digit, carriage returns and line feeds skipped). The interface the packet layer relies
  on is the locale \<open>text_codec\<close>; its interpretation on these definitions is the round trip.
\<close>

section \<open>The interface of a text encoding\<close>

locale text_codec =
  fixes enc :: "bytes \<Rightarrow> bytes"
    and dec :: "bytes \<Rightarrow> bytes option"
    and plain :: "char \<Rightarrow> bool"
  assumes dec_enc: "dec (enc b) = Some b"
    and enc_plain: "list_all plain (enc b)"
begin

lemma enc_inj: "enc a = enc b \<longleftrightarrow> a = b"
  by (metis dec_enc option.inject)

lemma dec_enc_cases: "dec (enc b) \<noteq> None \<and> the (dec (enc b)) = b"
  by (simp add: dec_enc)

end

section \<open>Digits\<close>

definition b64_alphabet :: bytes where
  "b64_alphabet = ''ABCDEFGHIJKLMNOPQRSTUVWXYZabcdefghijklmnopqrstuvwxyz0123456789+/''"

definition b64_chr :: "nat \<Rightarrow> char" where
  "b64_chr n = b64_alphabet ! (n mod 64)"

definition b64_val :: "char \<Rightarrow> nat option" where
  "b64_val c =
     (let n = of_char c :: nat in
      if 65 \<le> n \<and> n \<le> 90 then Some (n - 65)
      else if 97 \<le> n \<and> n \<le> 122 then Some (n - 71)
      else if 48 \<le> n \<and> n \<le> 57 then Some (n + 4)
      else if n = 43 then Some 62
      else if n = 47 then Some 63
      else None)"

definition b64_plain :: "char \<Rightarrow> bool" where
  "b64_plain c \<longleftrightarrow> b64_val c \<noteq> None \<or> c = CHR ''=''"

lemma b64_val_all: "list_all (\<lambda>n. b64_val (b64_chr n) = Some n) [0..<64]"
  by (simp add: upt_conv_Cons b64_chr_def b64_alphabet_def b64_val_def)

lemma b64_val_chr [simp]: "b64_val (b64_chr n) = Some (n mod 64)"
proof -
  have "b64_val (b64_chr (n mod 64)) = Some (n mod 64)"
    using b64_val_all by (simp add: list_all_iff)
  then show ?thesis by (simp add: b64_chr_def)
qed

lemma b64_val_pad [simp]: "b64_val CHR ''='' = None"
  by (simp add: b64_val_def)

lemma b64_chr_not_pad [simp]: "b64_chr n \<noteq> CHR ''=''"
  by (metis b64_val_chr b64_val_pad option.distinct(1))

section \<open>Encoding and decoding\<close>

definition b64_quad :: "nat \<Rightarrow> bytes" where
  "b64_quad v =
     [b64_chr (v div 262144), b64_chr (v div 4096), b64_chr (v div 64), b64_chr v]"

fun b64_encode :: "bytes \<Rightarrow> bytes" where
  "b64_encode [] = []"
| "b64_encode [a] = take 2 (b64_quad (of_char a * 65536)) @ ''==''"
| "b64_encode [a, b] = take 3 (b64_quad (of_char a * 65536 + of_char b * 256)) @ ''=''"
| "b64_encode (a # b # c # r) =
     b64_quad (of_char a * 65536 + of_char b * 256 + of_char c) @ b64_encode r"

definition b64_triple :: "nat \<Rightarrow> bytes" where
  "b64_triple v = [char_of (v div 65536), char_of (v div 256), char_of v]"

fun b64_quanta :: "bytes \<Rightarrow> bytes option" where
  "b64_quanta [] = Some []"
| "b64_quanta (a # b # c # d # r) =
     (case (b64_val a, b64_val b) of
        (Some x, Some y) \<Rightarrow>
          (if c = CHR ''='' then
             (if d = CHR ''='' \<and> r = [] then Some (take 1 (b64_triple (x * 262144 + y * 4096)))
              else None)
           else case b64_val c of
             None \<Rightarrow> None
           | Some z \<Rightarrow>
               (if d = CHR ''='' then
                  (if r = [] then Some (take 2 (b64_triple (x * 262144 + y * 4096 + z * 64)))
                   else None)
                else case (b64_val d, b64_quanta r) of
                  (Some w, Some t) \<Rightarrow>
                    Some (b64_triple (x * 262144 + y * 4096 + z * 64 + w) @ t)
                | _ \<Rightarrow> None))
      | _ \<Rightarrow> None)"
| "b64_quanta _ = None"

definition b64_newline :: "char \<Rightarrow> bool" where
  "b64_newline c \<longleftrightarrow> of_char c = (10::nat) \<or> of_char c = (13::nat)"

definition b64_decode :: "bytes \<Rightarrow> bytes option" where
  "b64_decode s = b64_quanta (filter (\<lambda>c. \<not> b64_newline c) s)"

section \<open>The round trip\<close>

lemma b64_plain_no_newline: "b64_plain c \<Longrightarrow> \<not> b64_newline c"
  by (auto simp: b64_plain_def b64_newline_def b64_val_def Let_def)

lemma b64_plain_chr [simp]: "b64_plain (b64_chr n)"
  by (simp add: b64_plain_def)

lemma b64_encode_plain: "list_all b64_plain (b64_encode b)"
  by (induction b rule: b64_encode.induct) (auto simp: b64_quad_def b64_plain_def)

lemma of_char_less: "(of_char c :: nat) < 256"
  by simp

lemma b64_digits:
  fixes v :: nat
  assumes "v < 16777216"
  shows "v div 262144 mod 64 * 262144 + v div 4096 mod 64 * 4096 + v div 64 mod 64 * 64 + v mod 64 = v"
proof -
  define q1 q2 q3 where "q1 = v div 64" and "q2 = q1 div 64" and "q3 = q2 div 64"
  have "v div 4096 = q2" "v div 262144 = q3"
    by (simp_all add: q1_def q2_def q3_def flip: div_mult2_eq)
  moreover have "q3 mod 64 = q3"
    using assms by (simp add: q1_def q2_def q3_def less_mult_imp_div_less flip: div_mult2_eq)
  moreover have "q1 * 64 + v mod 64 = v" "q2 * 64 + q1 mod 64 = q1" "q3 * 64 + q2 mod 64 = q2"
    by (simp_all only: q1_def q2_def q3_def div_mult_mod_eq)
  moreover have "v div 64 = q1"
    by (simp add: q1_def)
  ultimately show ?thesis
    by (simp only:)
qed

lemma byte_split:
  fixes x y z :: nat
  assumes "y < 256" and "z < 256"
  shows "(x * 65536 + y * 256 + z) div 65536 = x"
    and "(x * 65536 + y * 256 + z) div 256 = x * 256 + y"
    and "(x * 65536 + y * 256 + z) mod 256 = z"
proof -
  have v: "x * 65536 + y * 256 + z = z + (y + x * 256) * 256"
    by simp
  show h: "(x * 65536 + y * 256 + z) div 256 = x * 256 + y"
    unfolding v using assms(2) by simp
  show "(x * 65536 + y * 256 + z) mod 256 = z"
    unfolding v mod_mult_self1 using assms(2) by simp
  have "(x * 65536 + y * 256 + z) div 65536 = (x * 65536 + y * 256 + z) div 256 div 256"
    by (simp flip: div_mult2_eq)
  also have "\<dots> = (y + x * 256) div 256"
    unfolding h by (simp only: add.commute)
  also have "\<dots> = x"
    using assms(1) by simp
  finally show "(x * 65536 + y * 256 + z) div 65536 = x" .
qed

lemma b64_triple_bytes:
  "b64_triple (of_char a * 65536 + of_char b * 256 + of_char c) = [a, b, c]"
  unfolding b64_triple_def byte_split(1,2) [OF of_char_less of_char_less]
  using of_char_less [of b] byte_split(3) [OF of_char_less of_char_less, of "of_char a" b c]
  by (auto intro!: char_of_eqI)

text \<open>One quantum, whole and in the two padded forms whose low digits are zero.\<close>

lemmas b64_quantum =
  b64_quad_def append.simps take_Suc_Cons take_0 numeral_2_eq_2 numeral_3_eq_3 b64_quanta.simps
  b64_val_chr option.case prod.case b64_chr_not_pad if_False if_True simp_thms

lemma b64_quanta_quad:
  assumes "v < 16777216"
  shows "b64_quanta (b64_quad v @ r) = map_option ((@) (b64_triple v)) (b64_quanta r)"
  by (cases "b64_quanta r") (simp_all only: b64_quantum b64_digits [OF assms] option.map)

lemma b64_quanta_pad1:
  assumes "v < 16777216" and "v mod 64 = 0"
  shows "b64_quanta (take 3 (b64_quad v) @ ''='') = Some (take 2 (b64_triple v))"
proof -
  have "v div 262144 mod 64 * 262144 + v div 4096 mod 64 * 4096 + v div 64 mod 64 * 64 = v"
    using b64_digits [OF assms(1)] unfolding assms(2) by (simp only: add_0_right)
  then show ?thesis by (simp only: b64_quantum)
qed

lemma b64_quanta_pad2:
  assumes "v < 16777216" and "v mod 64 = 0" and "v div 64 mod 64 = 0"
  shows "b64_quanta (take 2 (b64_quad v) @ ''=='') = Some (take 1 (b64_triple v))"
proof -
  have "v div 262144 mod 64 * 262144 + v div 4096 mod 64 * 4096 = v"
    using b64_digits [OF assms(1)] unfolding assms(2,3) by (simp only: add_0_right mult_0)
  then show ?thesis by (simp only: b64_quantum)
qed

lemma b64_quanta_encode: "b64_quanta (b64_encode b) = Some b"
proof (induction b rule: b64_encode.induct)
  case 1
  then show ?case by simp
next
  case (2 a)
  have "b64_triple (of_char a * 65536) = [a, char_of (0::nat), char_of (0::nat)]"
    using b64_triple_bytes [of a "char_of (0::nat)" "char_of (0::nat)"] by simp
  moreover have "(of_char a * 65536 :: nat) < 16777216" "(of_char a * 65536 :: nat) mod 64 = 0"
    "(of_char a * 65536 :: nat) div 64 mod 64 = 0"
    using of_char_less [of a] by (simp_all add: mod_eq_0_iff_dvd dvd_mult)
  ultimately show ?case
    unfolding b64_encode.simps by (subst b64_quanta_pad2) simp_all
next
  case (3 a b)
  let ?v = "of_char a * 65536 + of_char b * 256 :: nat"
  have "b64_triple ?v = [a, b, char_of (0::nat)]"
    using b64_triple_bytes [of a b "char_of (0::nat)"] by simp
  moreover have "?v < 16777216"
    using of_char_less [of a] of_char_less [of b] by linarith
  moreover have "?v mod 64 = 0"
    by (simp add: mod_eq_0_iff_dvd dvd_add dvd_mult)
  ultimately show ?case
    unfolding b64_encode.simps by (subst b64_quanta_pad1) simp_all
next
  case (4 a b c r)
  have "(of_char a * 65536 + of_char b * 256 + of_char c :: nat) < 16777216"
    using of_char_less [of a] of_char_less [of b] of_char_less [of c] by linarith
  then show ?case
    unfolding b64_encode.simps
    by (subst b64_quanta_quad) (simp_all add: "4.IH" b64_triple_bytes)
qed

interpretation b64: text_codec b64_encode b64_decode b64_plain
proof
  fix b
  show plain: "list_all b64_plain (b64_encode b)"
    by (rule b64_encode_plain)
  have "filter (\<lambda>c. \<not> b64_newline c) (b64_encode b) = b64_encode b"
    using plain by (simp add: filter_id_conv list_all_iff b64_plain_no_newline)
  then show "b64_decode (b64_encode b) = Some b"
    by (simp add: b64_decode_def b64_quanta_encode)
qed


lemma b64_encode_length: "length (b64_encode b) \<le> 2 * length b + 4"
  by (induction b rule: b64_encode.induct) (auto simp: b64_quad_def)

end
