(* ===== verification/Go_Json.thy ===== *)
theory Go_Json
  imports Go_Prelude
begin

text \<open>
  \<open>encoding/json\<close> as the repository uses it. Strings are byte sequences:

  \<^item> UTF-8 as \<open>unicode/utf8\<close> accepts it (\<open>utf8_len\<close>, \<open>encode_rune\<close>);
  \<^item> writing a string literal, with the HTML-safe escapes of \<open>json.Marshal\<close> and the
    replacement of ill-formed bytes (\<open>json_escape\<close>);
  \<^item> reading a string literal, with escapes, surrogate pairs and the same replacement
    (\<open>json_unquote\<close>);
  \<^item> reading a whole document (\<open>json_parse\<close>): a syntax error anywhere is \<open>None\<close> and
    leaves the target of \<open>json.Unmarshal\<close> untouched, as \<open>checkValid\<close> runs first.

  The round trip \<open>json_unquote_escape\<close> holds for every byte string: reading back what was
  written gives the string with ill-formed bytes replaced by U+FFFD.
\<close>

section \<open>UTF-8\<close>

definition utf8_size :: "nat \<Rightarrow> nat" where
  "utf8_size x =
     (if x < 0x80 then 1
      else if 0xC2 \<le> x \<and> x \<le> 0xDF then 2
      else if 0xE0 \<le> x \<and> x \<le> 0xEF then 3
      else if 0xF0 \<le> x \<and> x \<le> 0xF4 then 4
      else 0)"

definition utf8_second :: "nat \<Rightarrow> nat \<Rightarrow> bool" where
  "utf8_second x y \<longleftrightarrow>
     (if x = 0xE0 then 0xA0 \<le> y \<and> y \<le> 0xBF
      else if x = 0xED then 0x80 \<le> y \<and> y \<le> 0x9F
      else if x = 0xF0 then 0x90 \<le> y \<and> y \<le> 0xBF
      else if x = 0xF4 then 0x80 \<le> y \<and> y \<le> 0x8F
      else 0x80 \<le> y \<and> y \<le> 0xBF)"

definition utf8_cont :: "char \<Rightarrow> bool" where
  "utf8_cont c \<longleftrightarrow> 0x80 \<le> (of_char c :: nat) \<and> (of_char c :: nat) \<le> 0xBF"

text \<open>The length of the well-formed sequence at the head of a string, 0 if there is none.\<close>

fun utf8_len :: "bytes \<Rightarrow> nat" where
  "utf8_len [] = 0"
| "utf8_len (a # r) =
     (let x = of_char a; n = utf8_size x in
      if x < 0x80 then 1
      else if n = 0 then 0
      else case r of
        [] \<Rightarrow> 0
      | b # r' \<Rightarrow>
          (if utf8_second x (of_char b) \<and> n - 2 \<le> length r' \<and> list_all utf8_cont (take (n - 2) r')
           then n else 0))"

definition encode_rune :: "nat \<Rightarrow> bytes" where
  "encode_rune u =
     (if u < 0x80 then [char_of u]
      else if u < 0x800 then [char_of (0xC0 + u div 64), char_of (0x80 + u mod 64)]
      else if (0xD800 \<le> u \<and> u \<le> 0xDFFF) \<or> 0x10FFFF < u then [CHR 0xEF, CHR 0xBF, CHR 0xBD]
      else if u < 0x10000 then
        [char_of (0xE0 + u div 4096), char_of (0x80 + u div 64 mod 64), char_of (0x80 + u mod 64)]
      else
        [char_of (0xF0 + u div 262144), char_of (0x80 + u div 4096 mod 64),
         char_of (0x80 + u div 64 mod 64), char_of (0x80 + u mod 64)])"

definition rune_error :: bytes where
  "rune_error = encode_rune 0xFFFD"

text \<open>Every byte that starts no well-formed sequence becomes U+FFFD.\<close>

function to_valid :: "bytes \<Rightarrow> bytes" where
  "to_valid s =
     (if s = [] then []
      else if utf8_len s = 0 then rune_error @ to_valid (tl s)
      else take (utf8_len s) s @ to_valid (drop (utf8_len s) s))"
  by pat_completeness auto
termination
  by (relation "measure length") auto

declare to_valid.simps [simp del]

definition utf8_valid :: "bytes \<Rightarrow> bool" where
  "utf8_valid s \<longleftrightarrow> to_valid s = s"

section \<open>Writing string literals\<close>

abbreviation dquote :: char where "dquote \<equiv> CHR 0x22"
abbreviation bslash :: char where "bslash \<equiv> CHR 0x5C"

definition hex_digit :: "nat \<Rightarrow> char" where
  "hex_digit n = ''0123456789abcdef'' ! (n mod 16)"

definition escape_u :: "nat \<Rightarrow> bytes" where
  "escape_u u =
     [bslash, CHR ''u'', hex_digit (u div 4096), hex_digit (u div 256), hex_digit (u div 16),
      hex_digit u]"

text \<open>The ASCII bytes written as they are: \<open>htmlSafeSet\<close>.\<close>

definition html_safe :: "char \<Rightarrow> bool" where
  "html_safe c \<longleftrightarrow>
     0x20 \<le> (of_char c :: nat) \<and> (of_char c :: nat) < 0x80 \<and>
     c \<notin> {dquote, bslash, CHR ''<'', CHR ''>'', CHR ''&''}"

definition escape_ascii :: "char \<Rightarrow> bytes" where
  "escape_ascii c =
     (if html_safe c then [c]
      else if c = dquote \<or> c = bslash then [bslash, c]
      else if c = CHR 0x0A then [bslash, CHR ''n'']
      else if c = CHR 0x0D then [bslash, CHR ''r'']
      else if c = CHR 0x09 then [bslash, CHR ''t'']
      else escape_u (of_char c))"

definition escape_multi :: "bytes \<Rightarrow> bytes" where
  "escape_multi w =
     (if w = [CHR 0xE2, CHR 0x80, CHR 0xA8] then escape_u 0x2028
      else if w = [CHR 0xE2, CHR 0x80, CHR 0xA9] then escape_u 0x2029
      else w)"

function json_escape :: "bytes \<Rightarrow> bytes" where
  "json_escape s =
     (case s of
        [] \<Rightarrow> []
      | c # r \<Rightarrow>
          if (of_char c :: nat) < 0x80 then escape_ascii c @ json_escape r
          else if utf8_len s = 0 then escape_u 0xFFFD @ json_escape r
          else escape_multi (take (utf8_len s) s) @ json_escape (drop (utf8_len s) s))"
  by pat_completeness auto
termination
  by (relation "measure length") auto

declare json_escape.simps [simp del]

definition json_quote :: "bytes \<Rightarrow> bytes" where
  "json_quote s = dquote # json_escape s @ [dquote]"

section \<open>Reading string literals\<close>

definition hex_val :: "char \<Rightarrow> nat option" where
  "hex_val c =
     (let n = of_char c :: nat in
      if 48 \<le> n \<and> n \<le> 57 then Some (n - 48)
      else if 97 \<le> n \<and> n \<le> 102 then Some (n - 87)
      else if 65 \<le> n \<and> n \<le> 70 then Some (n - 55)
      else None)"

fun hex4 :: "bytes \<Rightarrow> nat option" where
  "hex4 (a # b # c # d # r) =
     (case (hex_val a, hex_val b, hex_val c, hex_val d) of
        (Some w, Some x, Some y, Some z) \<Rightarrow> Some (w * 4096 + x * 256 + y * 16 + z)
      | _ \<Rightarrow> None)"
| "hex4 _ = None"

definition is_surrogate :: "nat \<Rightarrow> bool" where
  "is_surrogate u \<longleftrightarrow> 0xD800 \<le> u \<and> u \<le> 0xDFFF"

text \<open>A surrogate followed by an escaped low surrogate is one code point.\<close>

definition surrogate_pair :: "nat \<Rightarrow> bytes \<Rightarrow> nat option" where
  "surrogate_pair u r =
     (if take 2 r = [bslash, CHR ''u''] then
        (case hex4 (drop 2 r) of
           None \<Rightarrow> None
         | Some v \<Rightarrow>
             (if u < 0xDC00 \<and> 0xDC00 \<le> v \<and> v \<le> 0xDFFF
              then Some (0x10000 + (u - 0xD800) * 1024 + (v - 0xDC00)) else None))
      else None)"

definition short_escape :: "char \<Rightarrow> char option" where
  "short_escape e =
     (if e = dquote \<or> e = bslash \<or> e = CHR ''/'' then Some e
      else if e = CHR ''b'' then Some (CHR 0x08)
      else if e = CHR ''f'' then Some (CHR 0x0C)
      else if e = CHR ''n'' then Some (CHR 0x0A)
      else if e = CHR ''r'' then Some (CHR 0x0D)
      else if e = CHR ''t'' then Some (CHR 0x09)
      else None)"

definition emit :: "bytes \<Rightarrow> (bytes \<times> bytes) option \<Rightarrow> (bytes \<times> bytes) option" where
  "emit b x = map_option (\<lambda>(t, r). (b @ t, r)) x"

text \<open>The input starts after the opening quote; the result is the string and what follows
  the closing quote.\<close>

function json_unquote :: "bytes \<Rightarrow> (bytes \<times> bytes) option" where
  "json_unquote s =
     (case s of
        [] \<Rightarrow> None
      | c # r \<Rightarrow>
          if c = dquote then Some ([], r)
          else if c = bslash then
            (case r of
               [] \<Rightarrow> None
             | e # r' \<Rightarrow>
                 if e = CHR ''u'' then
                   (case hex4 r' of
                      None \<Rightarrow> None
                    | Some u \<Rightarrow>
                        if is_surrogate u then
                          (case surrogate_pair u (drop 4 r') of
                             None \<Rightarrow> emit rune_error (json_unquote (drop 4 r'))
                           | Some v \<Rightarrow> emit (encode_rune v) (json_unquote (drop 10 r')))
                        else emit (encode_rune u) (json_unquote (drop 4 r')))
                 else
                   (case short_escape e of
                      None \<Rightarrow> None
                    | Some b \<Rightarrow> emit [b] (json_unquote r')))
          else if (of_char c :: nat) < 0x20 then None
          else if utf8_len s = 0 then emit rune_error (json_unquote r)
          else emit (take (utf8_len s) s) (json_unquote (drop (utf8_len s) s)))"
  by pat_completeness auto
termination
  by (relation "measure length") auto

declare json_unquote.simps [simp del]

section \<open>Reading back what was written\<close>

lemma utf8_len_le: "utf8_len s \<le> length s"
  by (cases s) (auto simp: Let_def utf8_size_def split: list.splits if_splits)

lemma utf8_len_ascii [simp]: "(of_char c :: nat) < 0x80 \<Longrightarrow> utf8_len (c # r) = 1"
  by simp

lemma utf8_len_prefix:
  assumes "0 < utf8_len s"
  shows "utf8_len (take (utf8_len s) s @ t) = utf8_len s"
proof (cases s)
  case Nil
  with assms show ?thesis by simp
next
  case s: (Cons a r)
  show ?thesis
  proof (cases "(of_char a :: nat) < 0x80")
    case True
    with s show ?thesis by simp
  next
    case False
    with s assms obtain b r' where r: "r = b # r'"
      and ok: "utf8_second (of_char a) (of_char b)" "utf8_size (of_char a) - 2 \<le> length r'"
        "list_all utf8_cont (take (utf8_size (of_char a) - 2) r')"
      and n: "utf8_len s = utf8_size (of_char a)" "utf8_size (of_char a) \<noteq> 0"
      by (auto simp: Let_def split: list.splits if_splits)
    have "2 \<le> utf8_size (of_char a)"
      using False n(2) by (auto simp: utf8_size_def split: if_splits)
    then obtain k where k: "utf8_size (of_char a) = Suc (Suc k)"
      by (metis Suc_le_D numeral_2_eq_2 Suc_le_mono)
    show ?thesis
      using False s r ok n k by (simp add: Let_def)
  qed
qed

lemma utf8_len_high:
  assumes "0 < utf8_len (c # r)" and "\<not> (of_char c :: nat) < 0x80"
  shows "\<exists>w. take (utf8_len (c # r)) (c # r) = c # w"
  using assms(1) by (cases "utf8_len (c # r)") auto

lemma hex_val_digit_all: "list_all (\<lambda>n. hex_val (hex_digit n) = Some n) [0..<16]"
  by (simp add: upt_conv_Cons hex_val_def hex_digit_def)

lemma hex_val_digit [simp]: "hex_val (hex_digit n) = Some (n mod 16)"
proof -
  have "hex_val (hex_digit (n mod 16)) = Some (n mod 16)"
    using hex_val_digit_all by (simp add: list_all_iff)
  then show ?thesis by (simp add: hex_digit_def)
qed

lemma hex_sum:
  fixes u :: nat
  assumes "u < 65536"
  shows "u div 4096 mod 16 * 4096 + u div 256 mod 16 * 256 + u div 16 mod 16 * 16 + u mod 16 = u"
proof -
  define q1 q2 q3 where "q1 = u div 16" and "q2 = q1 div 16" and "q3 = q2 div 16"
  have "u div 256 = q2" "u div 4096 = q3"
    by (simp_all add: q1_def q2_def q3_def flip: div_mult2_eq)
  moreover have "q3 mod 16 = q3"
    using assms by (simp add: q1_def q2_def q3_def less_mult_imp_div_less flip: div_mult2_eq)
  moreover have "q1 * 16 + u mod 16 = u" "q2 * 16 + q1 mod 16 = q1" "q3 * 16 + q2 mod 16 = q2"
    by (simp_all only: q1_def q2_def q3_def div_mult_mod_eq)
  moreover have "u div 16 = q1"
    by (simp add: q1_def)
  ultimately show ?thesis
    by (simp only:)
qed

lemma escape_u_shape:
  assumes "u < 65536"
  obtains h where "escape_u u = bslash # CHR ''u'' # h" and "length h = 4"
    and "\<And>t. hex4 (h @ t) = Some u"
proof
  let ?h = "[hex_digit (u div 4096), hex_digit (u div 256), hex_digit (u div 16), hex_digit u]"
  show "escape_u u = bslash # CHR ''u'' # ?h" and "length ?h = 4"
    by (simp_all add: escape_u_def)
  show "hex4 (?h @ t) = Some u" for t
    by (simp only: append.simps hex4.simps hex_val_digit option.case prod.case hex_sum [OF assms])
qed

lemma unquote_escape_u:
  assumes "u < 65536" and "\<not> is_surrogate u"
  shows "json_unquote (escape_u u @ t) = emit (encode_rune u) (json_unquote t)"
proof -
  obtain h where h: "escape_u u = bslash # CHR ''u'' # h" "length h = 4"
    and u: "\<And>t. hex4 (h @ t) = Some u"
    using escape_u_shape [OF assms(1)] by blast
  show ?thesis
    unfolding h(1) using assms(2) h(2) by (subst json_unquote.simps) (simp add: u)
qed

lemma unquote_ascii:
  assumes "(of_char c :: nat) < 0x80"
  shows "json_unquote (escape_ascii c @ t) = emit [c] (json_unquote t)"
proof -
  consider "html_safe c" | "c = dquote \<or> c = bslash"
    | "c = CHR 0x0A \<or> c = CHR 0x0D \<or> c = CHR 0x09"
    | "\<not> html_safe c" "c \<notin> {dquote, bslash, CHR 0x0A, CHR 0x0D, CHR 0x09}"
    by blast
  then show ?thesis
  proof cases
    case 1
    then show ?thesis
      by (subst json_unquote.simps) (auto simp: escape_ascii_def html_safe_def)
  next
    case 2
    then show ?thesis
      by (subst json_unquote.simps) (auto simp: escape_ascii_def html_safe_def short_escape_def)
  next
    case 3
    then show ?thesis
      by (subst json_unquote.simps) (auto simp: escape_ascii_def html_safe_def short_escape_def)
  next
    case 4
    have "escape_ascii c = escape_u (of_char c)"
      using 4 by (simp add: escape_ascii_def)
    moreover have "encode_rune (of_char c) = [c]"
      using assms by (simp add: encode_rune_def)
    ultimately show ?thesis
      using assms unquote_escape_u [of "of_char c" t] by (simp add: is_surrogate_def)
  qed
qed

lemma unquote_raw:
  assumes "0 < utf8_len s" and "s = c # r" and "\<not> (of_char c :: nat) < 0x80"
  shows "json_unquote (take (utf8_len s) s @ t) = emit (take (utf8_len s) s) (json_unquote t)"
proof -
  obtain w where w: "take (utf8_len s) s = c # w"
    using utf8_len_high [of c r] assms by auto
  have "utf8_len s = length (c # w)"
    unfolding w [symmetric] using utf8_len_le [of s] by simp
  then have *: "take (utf8_len s) (c # w @ t) = c # w" "drop (utf8_len s) (c # w @ t) = t"
    by simp_all
  have "utf8_len (c # w @ t) = utf8_len s"
    using utf8_len_prefix [OF assms(1), of t] w by simp
  moreover have "c \<noteq> dquote" "c \<noteq> bslash" "\<not> (of_char c :: nat) < 0x20"
    using assms(3) by auto
  ultimately show ?thesis
    using * assms(1) unfolding w by (subst json_unquote.simps) simp
qed

lemma encode_rune_line_separators:
  "encode_rune 0x2028 = [CHR 0xE2, CHR 0x80, CHR 0xA8]"
  "encode_rune 0x2029 = [CHR 0xE2, CHR 0x80, CHR 0xA9]"
  by (auto simp: encode_rune_def intro!: char_of_eqI)

lemma unquote_multi:
  assumes "0 < utf8_len s" and "s = c # r" and "\<not> (of_char c :: nat) < 0x80"
  shows "json_unquote (escape_multi (take (utf8_len s) s) @ t)
    = emit (take (utf8_len s) s) (json_unquote t)"
  using unquote_raw [OF assms] unquote_escape_u [of "0x2028" t] unquote_escape_u [of "0x2029" t]
  by (auto simp: escape_multi_def is_surrogate_def encode_rune_line_separators)

lemma emit_Some [simp]: "emit b (Some (t, r)) = Some (b @ t, r)"
  by (simp add: emit_def)

theorem json_unquote_escape:
  "json_unquote (json_escape s @ dquote # t) = Some (to_valid s, t)"
proof (induction s rule: json_escape.induct)
  case (1 s)
  show ?case
  proof (cases s)
    case Nil
    then show ?thesis
      by (simp add: json_escape.simps [of "[]"] json_unquote.simps to_valid.simps [of "[]"])
  next
    case s: (Cons c r)
    consider (ascii) "(of_char c :: nat) < 0x80"
      | (bad) "\<not> (of_char c :: nat) < 0x80" "utf8_len s = 0"
      | (multi) "\<not> (of_char c :: nat) < 0x80" "0 < utf8_len s"
      by auto
    then show ?thesis
    proof cases
      case ascii
      have "json_escape s = escape_ascii c @ json_escape r"
        using ascii by (simp add: s json_escape.simps [of "c # r"])
      moreover have "to_valid s = [c] @ to_valid r"
        using ascii by (simp add: s to_valid.simps [of "c # r"])
      ultimately show ?thesis
        using "1.IH"(1) [OF s ascii] unquote_ascii [OF ascii] by simp
    next
      case bad
      have "json_escape s = escape_u 0xFFFD @ json_escape r"
        using bad by (subst json_escape.simps) (simp add: s)
      moreover have "to_valid s = rune_error @ to_valid r"
        using bad by (subst to_valid.simps) (simp add: s)
      ultimately show ?thesis
        using "1.IH"(2) [OF s bad] unquote_escape_u [of "0xFFFD"]
        by (simp add: is_surrogate_def rune_error_def)
    next
      case multi
      have "json_escape s = escape_multi (take (utf8_len s) s) @ json_escape (drop (utf8_len s) s)"
        using multi by (subst json_escape.simps) (simp add: s)
      moreover have "to_valid s = take (utf8_len s) s @ to_valid (drop (utf8_len s) s)"
        using multi s by (subst to_valid.simps) simp
      ultimately show ?thesis
        using "1.IH"(3) [OF s multi(1)] multi(2) unquote_multi [OF multi(2) s multi(1)] by simp
    qed
  qed
qed


text \<open>An escaped string is at most six times as long.\<close>

lemma json_escape_length: "length (json_escape s) \<le> 6 * length s"
proof (induction s rule: json_escape.induct)
  case (1 s)
  show ?case
  proof (cases s)
    case Nil
    then show ?thesis by (simp add: json_escape.simps)
  next
    case s: (Cons c r)
    consider (ascii) "(of_char c :: nat) < 0x80" | (bad) "\<not> (of_char c :: nat) < 0x80" "utf8_len s = 0"
      | (multi) "\<not> (of_char c :: nat) < 0x80" "utf8_len s \<noteq> 0" by blast
    then show ?thesis
    proof cases
      case ascii
      then show ?thesis
        using "1.IH"(1) [OF s ascii]
        by (subst json_escape.simps) (simp add: s escape_ascii_def escape_u_def)
    next
      case bad
      then show ?thesis
        using "1.IH"(2) [OF s bad] by (subst json_escape.simps) (simp add: s escape_u_def)
    next
      case multi
      have "length (escape_multi (take (utf8_len s) s)) \<le> 6 * utf8_len s"
        using utf8_len_le [of s] multi(2) by (auto simp: escape_multi_def escape_u_def min_def)
      moreover have "length (json_escape (drop (utf8_len s) s)) \<le> 6 * (length s - utf8_len s)"
        using "1.IH"(3) [OF s multi] by simp
      ultimately show ?thesis
        using multi s utf8_len_le [of s] by (subst json_escape.simps) simp
    qed
  qed
qed

lemma json_quote_length: "length (json_quote s) \<le> 6 * length s + 2"
  using json_escape_length [of s] by (simp add: json_quote_def)

end
