(* ===== verification/Go_Json_Value.thy ===== *)
theory Go_Json_Value
  imports Go_Json
begin

text \<open>
  JSON documents: the grammar that \<open>encoding/json\<close> accepts, as a recursive-descent reader from
  bytes to \<open>json\<close>. Object members keep their order and their duplicates, because the
  decoder stores them one after the other. Nesting is limited to \<open>maxNestingDepth\<close> levels.
  The termination proof of the reader rests on every reader consuming input.
\<close>

datatype json =
    JNull
  | JBool bool
  | JNum bytes
  | JStr bytes
  | JArr "json list"
  | JObj "(bytes \<times> json) list"

definition maxNestingDepth :: nat where
  "maxNestingDepth = 10000"

definition is_ws :: "char \<Rightarrow> bool" where
  "is_ws c \<longleftrightarrow> c \<in> {CHR '' '', CHR 0x09, CHR 0x0D, CHR 0x0A}"

definition skip_ws :: "bytes \<Rightarrow> bytes" where
  "skip_ws s = dropWhile is_ws s"

definition is_digit :: "char \<Rightarrow> bool" where
  "is_digit c \<longleftrightarrow> 48 \<le> (of_char c :: nat) \<and> (of_char c :: nat) \<le> 57"

section \<open>Literals\<close>

text \<open>A number: sign, integer part without leading zeros, fraction, exponent. Each reader gives
  the text it consumed and the rest.\<close>

definition read_digits :: "bytes \<Rightarrow> (bytes \<times> bytes) option" where
  "read_digits s =
     (let ds = takeWhile is_digit s in if ds = [] then None else Some (ds, dropWhile is_digit s))"

definition read_int :: "bytes \<Rightarrow> (bytes \<times> bytes) option" where
  "read_int s =
     (case s of
        [] \<Rightarrow> None
      | c # r \<Rightarrow> if c = CHR ''0'' then Some ([c], r) else read_digits s)"

definition read_frac :: "bytes \<Rightarrow> (bytes \<times> bytes) option" where
  "read_frac s =
     (case s of
        [] \<Rightarrow> Some ([], [])
      | c # r \<Rightarrow>
          if c = CHR ''.'' then map_option (\<lambda>(d, t). (c # d, t)) (read_digits r)
          else Some ([], s))"

definition read_exp :: "bytes \<Rightarrow> (bytes \<times> bytes) option" where
  "read_exp s =
     (case s of
        [] \<Rightarrow> Some ([], [])
      | c # r \<Rightarrow>
          if c = CHR ''e'' \<or> c = CHR ''E'' then
            (case r of
               [] \<Rightarrow> None
             | g # r' \<Rightarrow>
                 if g = CHR ''+'' \<or> g = CHR ''-''
                 then map_option (\<lambda>(d, t). (c # g # d, t)) (read_digits r')
                 else map_option (\<lambda>(d, t). (c # d, t)) (read_digits r))
          else Some ([], s))"

definition read_number :: "bytes \<Rightarrow> (bytes \<times> bytes) option" where
  "read_number s =
     (let (g, s1) = (case s of [] \<Rightarrow> ([], s) | c # r \<Rightarrow> if c = CHR ''-'' then ([c], r) else ([], s))
      in case read_int s1 of
           None \<Rightarrow> None
         | Some (i, s2) \<Rightarrow>
             (case read_frac s2 of
                None \<Rightarrow> None
              | Some (f, s3) \<Rightarrow>
                  (case read_exp s3 of
                     None \<Rightarrow> None
                   | Some (e, s4) \<Rightarrow> Some (g @ i @ f @ e, s4))))"

definition read_word :: "bytes \<Rightarrow> json \<Rightarrow> bytes \<Rightarrow> (json \<times> bytes) option" where
  "read_word w v s = (if take (length w) s = w then Some (v, drop (length w) s) else None)"

definition read_literal :: "bytes \<Rightarrow> (json \<times> bytes) option" where
  "read_literal s =
     (case s of
        [] \<Rightarrow> None
      | c # r \<Rightarrow>
          if c = dquote then map_option (\<lambda>(t, u). (JStr t, u)) (json_unquote r)
          else if c = CHR ''t'' then read_word ''true'' (JBool True) s
          else if c = CHR ''f'' then read_word ''false'' (JBool False) s
          else if c = CHR ''n'' then read_word ''null'' JNull s
          else map_option (\<lambda>(t, u). (JNum t, u)) (read_number s))"

section \<open>Every reader consumes input\<close>

lemma skip_ws_length: "length (skip_ws s) \<le> length s"
  by (simp add: skip_ws_def length_dropWhile_le)

lemma emit_SomeD: "emit b x = Some (t, r) \<Longrightarrow> \<exists>t'. x = Some (t', r)"
  by (auto simp: emit_def)

lemma json_unquote_consumes: "json_unquote s = Some (t, r) \<Longrightarrow> length r < length s"
proof (induction s arbitrary: t r rule: json_unquote.induct)
  case (1 s)
  show ?case
  proof (cases s)
    case Nil
    with "1.prems" show ?thesis by (subst (asm) json_unquote.simps) simp
  next
    case (Cons c s')
    note IH = "1.IH" [OF Cons]
    show ?thesis
      using "1.prems" IH
      by (subst (asm) json_unquote.simps)
        (fastforce simp: Cons split: if_splits list.splits option.splits dest!: emit_SomeD)
  qed
qed

lemma read_digits_consumes: "read_digits s = Some (d, r) \<Longrightarrow> length r < length s"
  by (cases s) (auto simp: read_digits_def Let_def length_dropWhile_le less_Suc_eq_le split: if_splits)

lemma read_int_consumes: "read_int s = Some (d, r) \<Longrightarrow> length r < length s"
  by (auto simp: read_int_def dest: read_digits_consumes split: list.splits if_splits)

lemma read_frac_consumes: "read_frac s = Some (d, r) \<Longrightarrow> length r \<le> length s"
  by (auto simp: read_frac_def dest: read_digits_consumes split: list.splits if_splits)

lemma read_exp_consumes: "read_exp s = Some (d, r) \<Longrightarrow> length r \<le> length s"
  by (auto simp: read_exp_def dest: read_digits_consumes split: list.splits if_splits)

lemma read_number_consumes: "read_number s = Some (d, r) \<Longrightarrow> length r < length s"
  by (auto simp: read_number_def dest!: read_int_consumes read_frac_consumes read_exp_consumes
      split: list.splits if_splits option.splits)

lemma read_word_consumes: "w \<noteq> [] \<Longrightarrow> s \<noteq> [] \<Longrightarrow> read_word w v s = Some (u, r) \<Longrightarrow> length r < length s"
  by (auto simp: read_word_def split: if_splits)

lemma read_literal_consumes: "read_literal s = Some (v, r) \<Longrightarrow> length r < length s"
  by (auto simp: read_literal_def dest!: json_unquote_consumes read_number_consumes
      dest: read_word_consumes [rotated 2] split: list.splits if_splits)

lemma skip_ws_ConsD: "skip_ws s = c # r \<Longrightarrow> length r < length s"
  using skip_ws_length [of s] by simp

section \<open>Values\<close>

function (sequential)
  read_value :: "nat \<Rightarrow> bytes \<Rightarrow> (json \<times> bytes) option"
  and read_elems :: "nat \<Rightarrow> bytes \<Rightarrow> (json list \<times> bytes) option"
  and read_members :: "nat \<Rightarrow> bytes \<Rightarrow> ((bytes \<times> json) list \<times> bytes) option"
where
  "read_value d s =
     (case skip_ws s of
        [] \<Rightarrow> None
      | c # r \<Rightarrow>
          if c = CHR ''{'' then
            (if d = 0 then None
             else case skip_ws r of
               [] \<Rightarrow> None
             | e # r' \<Rightarrow>
                 if e = CHR ''}'' then Some (JObj [], r')
                 else map_option (\<lambda>(ms, t). (JObj ms, t)) (read_members (d - 1) r))
          else if c = CHR ''['' then
            (if d = 0 then None
             else case skip_ws r of
               [] \<Rightarrow> None
             | e # r' \<Rightarrow>
                 if e = CHR '']'' then Some (JArr [], r')
                 else map_option (\<lambda>(vs, t). (JArr vs, t)) (read_elems (d - 1) r))
          else read_literal (c # r))"
| "read_elems d s =
     (case read_value d s of
        None \<Rightarrow> None
      | Some (v, r) \<Rightarrow>
          (case skip_ws r of
             [] \<Rightarrow> None
           | c # r' \<Rightarrow>
               if c = CHR '','' then map_option (\<lambda>(vs, t). (v # vs, t)) (read_elems d r')
               else if c = CHR '']'' then Some ([v], r')
               else None))"
| "read_members d s =
     (case skip_ws s of
        [] \<Rightarrow> None
      | q # s1 \<Rightarrow>
          if q \<noteq> dquote then None
          else case json_unquote s1 of
            None \<Rightarrow> None
          | Some (k, s2) \<Rightarrow>
              (case skip_ws s2 of
                 [] \<Rightarrow> None
               | e # s3 \<Rightarrow>
                   if e \<noteq> CHR '':'' then None
                   else case read_value d s3 of
                     None \<Rightarrow> None
                   | Some (v, s4) \<Rightarrow>
                       (case skip_ws s4 of
                          [] \<Rightarrow> None
                        | c # s5 \<Rightarrow>
                            if c = CHR '','' then
                              map_option (\<lambda>(ms, t). ((k, v) # ms, t)) (read_members d s5)
                            else if c = CHR ''}'' then Some ([(k, v)], s5)
                            else None)))"
  by pat_completeness auto

termination
proof -
  have consume:
    "read_value_read_elems_read_members_dom (Inl (d, s)) \<Longrightarrow>
       read_value d s = Some (v, r) \<Longrightarrow> length r < length s"
    "read_value_read_elems_read_members_dom (Inr (Inl (d', s'))) \<Longrightarrow>
       read_elems d' s' = Some (vs, r') \<Longrightarrow> length r' < length s'"
    "read_value_read_elems_read_members_dom (Inr (Inr (d'', s''))) \<Longrightarrow>
       read_members d'' s'' = Some (ms, r'') \<Longrightarrow> length r'' < length s''"
    for d s v r d' s' vs r' d'' s'' ms r''
  proof (induction d s and d' s' and d'' s'' arbitrary: v r and vs r' and ms r''
      rule: read_value_read_elems_read_members.pinduct)
    case (1 d s)
    from 1(1) "1.prems" obtain c t where ws: "skip_ws s = c # t"
      by (cases "skip_ws s") (simp_all add: read_value.psimps)
    note eq = read_value.psimps [OF 1(1)] ws
    have len: "length t < length s"
      by (rule skip_ws_ConsD [OF ws])
    show ?case
    proof (cases "c = CHR ''{'' \<or> c = CHR ''[''")
      case False
      with "1.prems" have "read_literal (c # t) = Some (v, r)"
        by (simp add: eq)
      then show ?thesis
        using read_literal_consumes [of "c # t"] len by simp
    next
      case True
      with "1.prems" obtain e u where d: "d \<noteq> 0" and e: "skip_ws t = e # u"
        by (cases "skip_ws t") (auto simp: eq split: if_splits)
      have "length u < length t"
        by (rule skip_ws_ConsD [OF e])
      then show ?thesis
        using True "1.prems" len "1.IH"(1) [OF ws _ d e] "1.IH"(2) [OF ws _ _ d e]
        by (fastforce simp: eq e d split: if_splits)
    qed
  next
    case (2 d s)
    from 2(1) "2.prems" obtain v t where v: "read_value d s = Some (v, t)"
      by (cases "read_value d s") (auto simp: read_elems.psimps)
    with 2(1) "2.prems" obtain c u where c: "skip_ws t = c # u"
      by (cases "skip_ws t") (simp_all add: read_elems.psimps)
    have "length t < length s" "length u < length t"
      using "2.IH"(1) [OF v] skip_ws_ConsD [OF c] by auto
    then show ?case
      using 2(1) "2.prems" "2.IH"(2) [OF v _ c]
      by (fastforce simp: read_elems.psimps v c split: if_splits)
  next
    case (3 d s)
    from 3(1) "3.prems" obtain s1 where q: "skip_ws s = dquote # s1"
      by (cases "skip_ws s") (auto simp: read_members.psimps split: if_splits)
    with 3(1) "3.prems" obtain k s2 where k: "json_unquote s1 = Some (k, s2)"
      by (cases "json_unquote s1") (auto simp: read_members.psimps)
    with 3(1) "3.prems" q obtain s3 where e: "skip_ws s2 = CHR '':'' # s3"
      by (cases "skip_ws s2") (auto simp: read_members.psimps split: if_splits)
    with 3(1) "3.prems" q k obtain v s4 where v: "read_value d s3 = Some (v, s4)"
      by (cases "read_value d s3") (auto simp: read_members.psimps)
    with 3(1) "3.prems" q k e obtain c s5 where c: "skip_ws s4 = c # s5"
      by (cases "skip_ws s4") (auto simp: read_members.psimps)
    have "length s5 < length s"
      using "3.IH"(1) [OF q _ k _ e _ v] skip_ws_ConsD [OF q] skip_ws_ConsD [OF e]
        skip_ws_ConsD [OF c] json_unquote_consumes [OF k] by simp
    then show ?case
      using 3(1) "3.prems" "3.IH"(2) [OF q _ k _ e _ v _ c]
      by (fastforce simp: read_members.psimps q k e v c split: if_splits)
  qed
  show ?thesis
  proof (relation "measure (\<lambda>x. case x of
      Inl (d, s) \<Rightarrow> 2 * length s
    | Inr (Inl (d, s)) \<Rightarrow> 2 * length s + 1
    | Inr (Inr (d, s)) \<Rightarrow> 2 * length s)", goal_cases)
    case 1
    show ?case by simp
  next
    case (2 d s c r e r')
    then show ?case using skip_ws_ConsD by fastforce
  next
    case (3 d s c r e r')
    then show ?case using skip_ws_ConsD by fastforce
  next
    case (4 d s)
    then show ?case by simp
  next
    case (5 d s x v r c r')
    then have "length r < length s"
      using consume(1) by blast
    with 5 show ?case using skip_ws_ConsD [of r c r'] by simp
  next
    case (6 d s q s1 x k s2 e s3)
    then show ?case
      using skip_ws_ConsD [of s] skip_ws_ConsD [of s2] json_unquote_consumes [of s1] by fastforce
  next
    case (7 d s q s1 x k s2 e s3 y v s4 c s5)
    then have "length s4 < length s3"
      using consume(1) by blast
    with 7 show ?case
      using skip_ws_ConsD [of s] skip_ws_ConsD [of s2] skip_ws_ConsD [of s4]
        json_unquote_consumes [of s1] by fastforce
  qed
qed

declare read_value.simps [simp del] read_elems.simps [simp del] read_members.simps [simp del]

definition json_parse :: "bytes \<Rightarrow> json option" where
  "json_parse s =
     (case read_value maxNestingDepth s of
        None \<Rightarrow> None
      | Some (v, r) \<Rightarrow> if skip_ws r = [] then Some v else None)"

section \<open>Objects of strings\<close>

text \<open>\<open>json.Marshal\<close> of a \<open>map[string]string\<close>: the members in the order of their keys,
  without white space.\<close>

fun json_members :: "(bytes \<times> bytes) list \<Rightarrow> bytes" where
  "json_members [] = []"
| "json_members [(k, v)] = json_quote k @ CHR '':'' # json_quote v"
| "json_members ((k, v) # e # es) =
     json_quote k @ CHR '':'' # json_quote v @ CHR '','' # json_members (e # es)"

definition json_string_map :: "(bytes \<times> bytes) list \<Rightarrow> bytes" where
  "json_string_map m = CHR ''{'' # json_members m @ ''}''"

text \<open>What a reader of such an object sees.\<close>

definition json_entries :: "(bytes \<times> bytes) list \<Rightarrow> (bytes \<times> json) list" where
  "json_entries m = map (\<lambda>(k, v). (to_valid k, JStr (to_valid v))) m"

lemma skip_ws_head [simp]: "\<not> is_ws c \<Longrightarrow> skip_ws (c # r) = c # r"
  by (simp add: skip_ws_def)

lemma skip_ws_Nil [simp]: "skip_ws [] = []"
  by (simp add: skip_ws_def)

lemma not_is_ws [simp]:
  "\<not> is_ws dquote" "\<not> is_ws CHR ''{''" "\<not> is_ws CHR ''}''" "\<not> is_ws CHR '':''" "\<not> is_ws CHR '',''"
  "\<not> is_ws CHR ''n''" "\<not> is_ws CHR 0x00"
  by (simp_all add: is_ws_def)

lemma read_value_quote: "read_value d (json_quote s @ t) = Some (JStr (to_valid s), t)"
  by (subst read_value.simps) (simp add: json_quote_def read_literal_def json_unquote_escape)

lemma read_value_null: "read_value d (''null'' @ t) = Some (JNull, t)"
  by (subst read_value.simps) (simp add: read_literal_def read_word_def)

lemma read_members_one:
  "read_members d (json_quote k @ CHR '':'' # w) =
     (case read_value d w of
        None \<Rightarrow> None
      | Some (v, s4) \<Rightarrow>
          (case skip_ws s4 of
             [] \<Rightarrow> None
           | c # s5 \<Rightarrow>
               if c = CHR '','' then
                 map_option (\<lambda>(ms, t). ((to_valid k, v) # ms, t)) (read_members d s5)
               else if c = CHR ''}'' then Some ([(to_valid k, v)], s5)
               else None))"
  by (subst read_members.simps) (simp add: json_quote_def json_unquote_escape)

lemma read_value_object:
  "read_value (Suc d) (CHR ''{'' # json_quote k @ w) =
     map_option (\<lambda>(ms, t). (JObj ms, t)) (read_members d (json_quote k @ w))"
  by (subst read_value.simps) (simp add: json_quote_def)

lemma max_depth_Suc: "\<exists>d. maxNestingDepth = Suc (Suc d)"
  by (simp add: maxNestingDepth_def numeral_eq_Suc)

lemma read_members_entries:
  "es \<noteq> [] \<Longrightarrow> read_members d (json_members es @ CHR ''}'' # t) = Some (json_entries es, t)"
proof (induction es rule: json_members.induct)
  case 1
  then show ?case by simp
next
  case (2 k v)
  then show ?case
    by (simp add: read_members_one read_value_quote json_entries_def)
next
  case (3 k v e es)
  then show ?case
    by (simp add: read_members_one read_value_quote json_entries_def)
qed

lemma json_members_head: "es \<noteq> [] \<Longrightarrow> \<exists>r. json_members es = dquote # r"
  by (induction es rule: json_members.induct) (simp_all add: json_quote_def)

lemma read_value_string_map:
  "read_value (Suc d) (json_string_map m @ t) = Some (JObj (json_entries m), t)"
proof (cases "m = []")
  case True
  then show ?thesis
    by (subst read_value.simps) (simp add: json_string_map_def json_entries_def)
next
  case False
  then obtain r where "json_members m = dquote # r"
    using json_members_head by blast
  then show ?thesis
    using read_members_entries [OF False, of d t]
    by (subst read_value.simps) (simp add: json_string_map_def)
qed

text \<open>A document is not a prefix of what is read: any byte that is not white space after it is a
  syntax error.\<close>

lemma json_parse_trailing:
  assumes "read_value maxNestingDepth s = Some (v, c # r)" and "\<not> is_ws c"
  shows "json_parse s = None"
  using assms by (simp add: json_parse_def)


section \<open>Structs with one string field\<close>

text \<open>\<open>json.Unmarshal\<close> into a struct whose only field is a string: a member of one of the names sets
  it, null leaves it, and any other type is an error that is reported after the rest was read.\<close>

fun store_string :: "string list \<Rightarrow> (string \<times> json) list \<Rightarrow> string \<times> bool \<Rightarrow> string \<times> bool" where
  "store_string names [] st = st"
| "store_string names ((key, v) # ms) (t, ok) =
     (if key \<in> set names then
        (case v of
           JStr t' \<Rightarrow> store_string names ms (t', ok)
         | JNull \<Rightarrow> store_string names ms (t, ok)
         | _ \<Rightarrow> store_string names ms (t, False))
      else store_string names ms (t, ok))"

definition unmarshal_string :: "string list \<Rightarrow> bytes \<Rightarrow> string option" where
  "unmarshal_string names b =
     (case json_parse b of
        Some JNull \<Rightarrow> Some ''''
      | Some (JObj ms) \<Rightarrow> (let (t, ok) = store_string names ms ('''', True) in if ok then Some t else None)
      | _ \<Rightarrow> None)"

lemma json_parse_string_member:
  assumes "to_valid k = k" and "to_valid v = v"
  shows "json_parse (CHR ''{'' # json_quote k @ CHR '':'' # json_quote v @ ''}'') = Some (JObj [(k, JStr v)])"
  using read_value_string_map [of "maxNestingDepth - 1" "[(k, v)]" "[]"] assms
  by (simp add: json_parse_def json_string_map_def json_entries_def maxNestingDepth_def)

text \<open>The size of an object of strings.\<close>

definition map_weight :: "(bytes \<times> bytes) list \<Rightarrow> nat" where
  "map_weight m = sum_list (map (\<lambda>(k, v). length k + length v + 1) m)"

lemma json_members_length: "length (json_members m) \<le> 6 * map_weight m"
proof (induction m rule: json_members.induct)
  case (2 k v)
  then show ?case
    using json_quote_length [of k] json_quote_length [of v] by (simp add: map_weight_def)
next
  case (3 k v e es)
  then show ?case
    using json_quote_length [of k] json_quote_length [of v] by (simp add: map_weight_def)
qed (simp add: map_weight_def)

end
