(* ===== verification/Packet.thy ===== *)
theory Packet
  imports Go_Base64 Go_Json_Value
begin

text \<open>
  The packet layer (\<open>src/packet\<close>): \<open>KVMeta\<close>, \<open>JSONPkt\<close> and its wire format, and the pooled
  \<open>JSONPktCreator\<close>.

  A packet reaches its metadata through two references: \<open>jsonPkt.Meta\<close>, which \<open>Marshal\<close> and
  \<open>Unmarshal\<close> use, and \<open>meta.meta\<close>, which \<open>Add\<close>, \<open>Get\<close> and \<open>Clear\<close> use. Whether the two are
  the same map decides what reaches the wire, so the maps of a packet are cells of a store
  (\<open>maps\<close>) and the references are cell numbers, \<open>None\<close> being a nil map. No map is shared between
  two packets, so the store is a field of the packet. The mutexes make each method atomic; every
  method is one function.
\<close>

type_synonym strmap = "(string \<times> string) list"

section \<open>Metadata keys\<close>

definition KeySvrStatus :: string where "KeySvrStatus = ''_stat''"
definition KeySvrMsg :: string where "KeySvrMsg = ''_msg''"
definition KeyRef :: string where "KeyRef = ''_ref''"
definition KeyTarget :: string where "KeyTarget = ''_tgt''"

lemmas key_defs = KeySvrStatus_def KeySvrMsg_def KeyRef_def KeyTarget_def

section \<open>KVMeta\<close>

text \<open>A store of maps and a reference into it.\<close>

type_synonym mapstore = "strmap list"
type_synonym mapref = "nat option"

definition KVMeta_Add :: "string \<Rightarrow> string \<Rightarrow> mapref \<Rightarrow> mapstore \<Rightarrow> mapstore go" where
  "KVMeta_Add key val m h =
     (case m of
        None \<Rightarrow> Inl NilMapWrite
      | Some i \<Rightarrow> Inr (h[i := gm_put key val (h ! i)]))"

definition KVMeta_Get :: "string \<Rightarrow> mapref \<Rightarrow> mapstore \<Rightarrow> string" where
  "KVMeta_Get key m h = (case m of None \<Rightarrow> '''' | Some i \<Rightarrow> gm_str (h ! i) key)"

definition KVMeta_Clear :: "mapref \<Rightarrow> mapstore \<Rightarrow> mapstore" where
  "KVMeta_Clear m h =
     (case m of
        None \<Rightarrow> h
      | Some i \<Rightarrow> h[i := fold gm_del (map fst (h ! i)) (h ! i)])"

section \<open>JSONPkt\<close>

record JSONPkt =
  maps :: mapstore
  jMeta :: mapref    \<comment> \<open>\<open>jsonPkt.Meta\<close>\<close>
  jData :: bytes     \<comment> \<open>\<open>jsonPkt.Data\<close>, base64 text\<close>
  buff :: bytes
  meta :: mapref     \<comment> \<open>\<open>meta.meta\<close>\<close>
  dest :: string

definition SetDest :: "string \<Rightarrow> JSONPkt \<Rightarrow> JSONPkt" where
  "SetDest d p = p\<lparr>dest := d\<rparr>"

definition Dest :: "JSONPkt \<Rightarrow> string" where
  "Dest p = dest p"

definition Data :: "JSONPkt \<Rightarrow> bytes" where
  "Data p = buff p"

text \<open>\<open>p.Meta().Add\<close>, \<open>p.Meta().Get\<close> and the reset of the metadata.\<close>

definition MetaAdd :: "string \<Rightarrow> string \<Rightarrow> JSONPkt \<Rightarrow> JSONPkt go" where
  "MetaAdd key val p = gbind (KVMeta_Add key val (meta p) (maps p)) (\<lambda>h. Inr (p\<lparr>maps := h\<rparr>))"

definition MetaGet :: "string \<Rightarrow> JSONPkt \<Rightarrow> string" where
  "MetaGet key p = KVMeta_Get key (meta p) (maps p)"

definition MetaClear :: "JSONPkt \<Rightarrow> JSONPkt" where
  "MetaClear p = p\<lparr>maps := KVMeta_Clear (meta p) (maps p)\<rparr>"

text \<open>The writer of a packet is the packet itself.\<close>

definition Clear :: "JSONPkt \<Rightarrow> JSONPkt" where
  "Clear p = p\<lparr>buff := []\<rparr>"

definition Write :: "bytes \<Rightarrow> JSONPkt \<Rightarrow> JSONPkt" where
  "Write b p = p\<lparr>buff := buff p @ b\<rparr>"

definition Close :: "JSONPkt \<Rightarrow> JSONPkt" where
  "Close p = p\<lparr>jData := b64_encode (buff p)\<rparr>"

text \<open>\<open>json.Marshal\<close> of a struct of a string map and a string returns no error.\<close>

definition Marshal :: "JSONPkt \<Rightarrow> bytes option" where
  "Marshal p = Some
     (CHR ''{'' # json_quote ''m'' @ CHR '':'' #
        (case jMeta p of None \<Rightarrow> ''null'' | Some i \<Rightarrow> json_string_map (maps p ! i)) @
      CHR '','' # json_quote ''d'' @ CHR '':'' # json_quote (jData p) @ ''}'')"

subsection \<open>Unmarshal\<close>

datatype unmarshal_error = JsonSyntax | JsonType | CorruptBase64

text \<open>
  \<open>json.Unmarshal\<close> into the struct. A value of the wrong type is skipped and remembered as the
  error that is returned at the end; \<open>null\<close> makes a map nil and leaves a string alone; an object
  stored into a map is merged with what the map holds, and a nil map is allocated first. A field is
  found by its exact name or else by a case-insensitive match.
\<close>

definition is_field :: "string \<Rightarrow> string \<Rightarrow> string \<Rightarrow> bool" where
  "is_field name upper key \<longleftrightarrow> key = name \<or> key = upper"

fun elem_string :: "json \<Rightarrow> string" where
  "elem_string (JStr t) = t"
| "elem_string _ = ''''"

fun elem_ok :: "json \<Rightarrow> bool" where
  "elem_ok (JStr t) = True"
| "elem_ok JNull = True"
| "elem_ok _ = False"

definition alloc_meta :: "JSONPkt \<Rightarrow> JSONPkt \<times> nat" where
  "alloc_meta p =
     (case jMeta p of
        None \<Rightarrow> (p\<lparr>maps := maps p @ [[]], jMeta := Some (length (maps p))\<rparr>, length (maps p))
      | Some i \<Rightarrow> (p, i))"

definition merge_members :: "(string \<times> json) list \<Rightarrow> strmap \<Rightarrow> strmap" where
  "merge_members ms m = fold (\<lambda>(k, v) a. gm_put k (elem_string v) a) ms m"

fun store_meta :: "json \<Rightarrow> JSONPkt \<Rightarrow> JSONPkt \<times> bool" where
  "store_meta JNull p = (p\<lparr>jMeta := None\<rparr>, True)"
| "store_meta (JObj ms) p =
     (let (p', i) = alloc_meta p
      in (p'\<lparr>maps := (maps p')[i := merge_members ms (maps p' ! i)]\<rparr>,
          list_all (elem_ok \<circ> snd) ms))"
| "store_meta _ p = (p, False)"

fun store_data :: "json \<Rightarrow> JSONPkt \<Rightarrow> JSONPkt \<times> bool" where
  "store_data (JStr t) p = (p\<lparr>jData := t\<rparr>, True)"
| "store_data JNull p = (p, True)"
| "store_data _ p = (p, False)"

definition store_field :: "string \<times> json \<Rightarrow> JSONPkt \<times> bool \<Rightarrow> JSONPkt \<times> bool" where
  "store_field kv st =
     (case (kv, st) of
        ((key, v), (p, ok)) \<Rightarrow>
          let (p', ok') =
            (if is_field ''m'' ''M'' key then store_meta v p
             else if is_field ''d'' ''D'' key then store_data v p
             else (p, True))
          in (p', ok \<and> ok'))"

fun json_store :: "json \<Rightarrow> JSONPkt \<Rightarrow> JSONPkt \<times> bool" where
  "json_store JNull p = (p, True)"
| "json_store (JObj ms) p = fold store_field ms (p, True)"
| "json_store _ p = (p, False)"

definition Unmarshal :: "bytes \<Rightarrow> JSONPkt \<Rightarrow> JSONPkt \<times> unmarshal_error option" where
  "Unmarshal bin p =
     (case json_parse bin of
        None \<Rightarrow> (p, Some JsonSyntax)
      | Some v \<Rightarrow>
          (let (p1, ok) = json_store v p in
           if \<not> ok then (p1, Some JsonType)
           else
             let p2 = p1\<lparr>meta := jMeta p1\<rparr> in
             case b64_decode (jData p2) of
               None \<Rightarrow> (p2, Some CorruptBase64)
             | Some d \<Rightarrow> (p2\<lparr>buff := d\<rparr>, None)))"

section \<open>JSONPktCreator\<close>

text \<open>
  \<open>sync.Pool\<close> promises no order: \<open>Get\<close> takes any pooled packet or makes a new one. The choice is
  an oracle: \<open>picks\<close> lists the index to take at each \<open>Get\<close>; an index that is out of range, or the
  end of the list, makes a new packet. A theorem for every \<open>picks\<close> is a theorem for every
  behaviour of the pool, including packets the runtime drops from it.
\<close>

record JSONPktCreator =
  pool :: "JSONPkt list"
  picks :: "nat list"

definition newJSONPkt :: JSONPkt where
  "newJSONPkt =
     (let p = \<lparr>maps = [[], []], jMeta = Some 0, jData = '''', buff = [], meta = Some 1, dest = ''''\<rparr>
      in p\<lparr>meta := jMeta p\<rparr>)"

definition pool_Put :: "JSONPkt \<Rightarrow> JSONPktCreator \<Rightarrow> JSONPktCreator" where
  "pool_Put p pc = pc\<lparr>pool := pool pc @ [p]\<rparr>"

fun remove_at :: "nat \<Rightarrow> 'a list \<Rightarrow> 'a list" where
  "remove_at i [] = []"
| "remove_at 0 (x # xs) = xs"
| "remove_at (Suc i) (x # xs) = x # remove_at i xs"

definition pool_Get :: "JSONPktCreator \<Rightarrow> JSONPkt \<times> JSONPktCreator" where
  "pool_Get pc =
     (case picks pc of
        [] \<Rightarrow> (newJSONPkt, pc)
      | i # is \<Rightarrow>
          if i < length (pool pc)
          then (pool pc ! i, pc\<lparr>pool := remove_at i (pool pc), picks := is\<rparr>)
          else (newJSONPkt, pc\<lparr>picks := is\<rparr>))"

definition Warmup :: "int \<Rightarrow> JSONPktCreator \<Rightarrow> JSONPktCreator" where
  "Warmup numPackets pc = (pool_Put newJSONPkt ^^ nat numPackets) pc"

definition NewJSONPktCreator :: "int \<Rightarrow> nat list \<Rightarrow> JSONPktCreator" where
  "NewJSONPktCreator numPkts oracle = Warmup numPkts \<lparr>pool = [], picks = oracle\<rparr>"

definition PutBack :: "JSONPkt \<Rightarrow> JSONPktCreator \<Rightarrow> JSONPktCreator" where
  "PutBack p pc = pool_Put p pc"

definition NewPkt :: "string \<Rightarrow> string \<Rightarrow> JSONPktCreator \<Rightarrow> (JSONPkt \<times> JSONPktCreator) go" where
  "NewPkt ref d pc =
     (let (p, pc') = pool_Get pc;
          p1 = (MetaClear p)\<lparr>buff := [], dest := d\<rparr>
      in gbind (MetaAdd KeyRef ref p1) (\<lambda>p2. Inr (p2, pc')))"

definition NewErrPkt ::
  "string \<Rightarrow> string \<Rightarrow> string \<Rightarrow> JSONPktCreator \<Rightarrow> (JSONPkt \<times> JSONPktCreator) go" where
  "NewErrPkt ref d msg pc =
     gbind (NewPkt ref d pc) (\<lambda>(p, pc').
     gbind (MetaAdd KeySvrStatus ''-1'' p) (\<lambda>p1.
     gbind (MetaAdd KeySvrMsg msg p1) (\<lambda>p2. Inr (p2, pc'))))"

section \<open>The metadata interface\<close>

text \<open>
  What the clients of \<open>packet.Metadata\<close> rely on: \<open>Add\<close> succeeds and is seen by \<open>Get\<close>,
  \<open>Clear\<close> leaves every key at the zero value.
\<close>

fun add_all :: "(string \<Rightarrow> string \<Rightarrow> 'm \<Rightarrow> 'm go) \<Rightarrow> (string \<times> string) list \<Rightarrow> 'm \<Rightarrow> 'm go" where
  "add_all add [] m = Inr m"
| "add_all add (kv # kvs) m = gbind (add (fst kv) (snd kv) m) (add_all add kvs)"

locale metadata_store =
  fixes ok :: "'m \<Rightarrow> bool"
    and add :: "string \<Rightarrow> string \<Rightarrow> 'm \<Rightarrow> 'm go"
    and get :: "string \<Rightarrow> 'm \<Rightarrow> string"
    and clear :: "'m \<Rightarrow> 'm"
  assumes add_ok: "ok m \<Longrightarrow> \<exists>m'. add k v m = Inr m' \<and> ok m'"
    and get_add: "ok m \<Longrightarrow> add k v m = Inr m' \<Longrightarrow> get k' m' = (if k' = k then v else get k' m)"
    and clear_ok: "ok m \<Longrightarrow> ok (clear m)"
    and get_clear: "ok m \<Longrightarrow> get k (clear m) = ''''"
begin

lemma add_all_get:
  assumes "ok m"
  shows "\<exists>m'. add_all add kvs m = Inr m' \<and> ok m' \<and>
    (\<forall>k. get k m' = (case map_of (rev kvs) k of None \<Rightarrow> get k m | Some v \<Rightarrow> v))"
  using assms
proof (induction kvs arbitrary: m)
  case Nil
  then show ?case by simp
next
  case (Cons kv kvs)
  obtain m1 where m1: "add (fst kv) (snd kv) m = Inr m1" "ok m1"
    using add_ok [OF Cons.prems] by blast
  obtain m' where "add_all add kvs m1 = Inr m'" "ok m'"
    and "\<forall>k. get k m' = (case map_of (rev kvs) k of None \<Rightarrow> get k m1 | Some v \<Rightarrow> v)"
    using Cons.IH [OF m1(2)] by blast
  with m1 show ?case
    by (cases kv) (auto simp: get_add [OF Cons.prems] map_add_def split: option.split)
qed

lemma reset_add_all_get:
  assumes "ok m"
  shows "\<exists>m'. add_all add kvs (clear m) = Inr m' \<and> ok m' \<and>
    (\<forall>k. get k m' = (case map_of (rev kvs) k of None \<Rightarrow> '''' | Some v \<Rightarrow> v))"
  using add_all_get [OF clear_ok [OF assms], of kvs]
  by (simp add: get_clear [OF assms] cong: option.case_cong)

end

section \<open>Well-formed packets\<close>

text \<open>\<open>pkt_wf\<close>: references are cells and cells are maps. \<open>pkt_synced\<close>: moreover both references
  are the same map, so that what \<open>Add\<close> stores is what \<open>Marshal\<close> writes.\<close>

definition ref_ok :: "mapref \<Rightarrow> mapstore \<Rightarrow> bool" where
  "ref_ok m h \<longleftrightarrow> (case m of None \<Rightarrow> True | Some i \<Rightarrow> i < length h)"

definition pkt_wf :: "JSONPkt \<Rightarrow> bool" where
  "pkt_wf p \<longleftrightarrow> list_all gm_ok (maps p) \<and> ref_ok (jMeta p) (maps p) \<and> ref_ok (meta p) (maps p)"

definition pkt_synced :: "JSONPkt \<Rightarrow> bool" where
  "pkt_synced p \<longleftrightarrow> pkt_wf p \<and> meta p \<noteq> None \<and> jMeta p = meta p"

definition pool_ok :: "JSONPktCreator \<Rightarrow> bool" where
  "pool_ok pc \<longleftrightarrow> list_all pkt_synced (pool pc)"

text \<open>The map behind the metadata of a packet.\<close>

definition MetaMap :: "JSONPkt \<Rightarrow> strmap" where
  "MetaMap p = (case meta p of None \<Rightarrow> [] | Some i \<Rightarrow> maps p ! i)"

lemma pkt_syncedE:
  assumes "pkt_synced p"
  obtains i where "meta p = Some i" and "jMeta p = Some i" and "i < length (maps p)"
    and "list_all gm_ok (maps p)" and "gm_ok (maps p ! i)"
  using assms by (auto simp: pkt_synced_def pkt_wf_def ref_ok_def list_all_length)

lemma list_all_update: "list_all P xs \<Longrightarrow> P x \<Longrightarrow> list_all P (xs[i := x])"
  by (auto simp: list_all_iff dest: set_update_subset_insert [THEN subsetD])

lemma list_all_nth: "list_all P xs \<Longrightarrow> i < length xs \<Longrightarrow> P (xs ! i)"
  by (simp add: list_all_length)

lemma fold_gm_del: "fold gm_del ks m = filter (\<lambda>e. fst e \<notin> set ks) m"
  by (induction ks arbitrary: m) (auto simp: gm_del_def intro: filter_cong)

lemma KVMeta_Clear_empties: "fold gm_del (map fst m) m = []"
  by (auto simp: fold_gm_del filter_empty_conv)

lemma MetaGet_MetaMap: "MetaGet k p = gm_str (MetaMap p) k"
  by (simp add: MetaGet_def KVMeta_Get_def MetaMap_def split: option.split)

lemma MetaMap_frame [simp]:
  "MetaMap (p\<lparr>buff := b\<rparr>) = MetaMap p" "MetaMap (p\<lparr>dest := d\<rparr>) = MetaMap p"
  "MetaMap (p\<lparr>jData := t\<rparr>) = MetaMap p"
  by (simp_all add: MetaMap_def cong: option.case_cong)

lemma pkt_synced_frame [simp]:
  "pkt_synced (p\<lparr>buff := b\<rparr>) = pkt_synced p" "pkt_synced (p\<lparr>dest := d\<rparr>) = pkt_synced p"
  "pkt_synced (p\<lparr>jData := t\<rparr>) = pkt_synced p"
  by (simp_all add: pkt_synced_def pkt_wf_def)

lemma MetaMap_ok: "pkt_synced p \<Longrightarrow> gm_ok (MetaMap p)"
  by (auto simp: MetaMap_def elim: pkt_syncedE)

lemma MetaAdd_synced:
  assumes "pkt_synced p"
  shows "\<exists>p'. MetaAdd k v p = Inr p' \<and> pkt_synced p' \<and> MetaMap p' = gm_put k v (MetaMap p) \<and>
    buff p' = buff p \<and> jData p' = jData p \<and> dest p' = dest p"
  using assms
  by (elim pkt_syncedE)
    (auto simp: MetaAdd_def KVMeta_Add_def pkt_synced_def pkt_wf_def ref_ok_def MetaMap_def
      intro!: list_all_update)

lemma MetaClear_synced:
  assumes "pkt_synced p"
  shows "pkt_synced (MetaClear p)" and "MetaMap (MetaClear p) = []"
  using assms
  by (elim pkt_syncedE;
      auto simp: MetaClear_def KVMeta_Clear_def KVMeta_Clear_empties pkt_synced_def pkt_wf_def
        ref_ok_def MetaMap_def intro!: list_all_update)+

interpretation pm: metadata_store pkt_synced MetaAdd MetaGet MetaClear
proof
  fix p p' k v k'
  assume p: "pkt_synced p"
  show "\<exists>p'. MetaAdd k v p = Inr p' \<and> pkt_synced p'"
    using MetaAdd_synced [OF p] by blast
  show "pkt_synced (MetaClear p)" and "MetaGet k (MetaClear p) = ''''"
    using MetaClear_synced [OF p] by (simp_all add: MetaGet_MetaMap)
  assume "MetaAdd k v p = Inr p'"
  then show "MetaGet k' p' = (if k' = k then v else MetaGet k' p)"
    using MetaAdd_synced [OF p, of k v] MetaMap_ok [OF p] by (auto simp: MetaGet_MetaMap gm_simps)
qed

section \<open>The creator\<close>

lemma newJSONPkt_synced [simp]: "pkt_synced newJSONPkt"
  by (simp add: newJSONPkt_def pkt_synced_def pkt_wf_def ref_ok_def)

lemma list_all_remove_at: "list_all P xs \<Longrightarrow> list_all P (remove_at i xs)"
  by (induction i xs rule: remove_at.induct) auto

lemma pool_ok_Put [simp]: "pkt_synced p \<Longrightarrow> pool_ok pc \<Longrightarrow> pool_ok (pool_Put p pc)"
  by (simp add: pool_ok_def pool_Put_def)

lemma pool_Get_ok:
  assumes "pool_ok pc" and "pool_Get pc = (p, pc')"
  shows "pkt_synced p" and "pool_ok pc'"
  using assms
  by (auto simp: pool_Get_def pool_ok_def list_all_remove_at list_all_nth
      split: list.splits if_splits)

lemma pool_ok_Put_funpow: "pool_ok pc \<Longrightarrow> pool_ok ((pool_Put newJSONPkt ^^ n) pc)"
  by (induction n) simp_all

lemma pool_ok_Warmup: "pool_ok pc \<Longrightarrow> pool_ok (Warmup n pc)"
  by (simp add: Warmup_def pool_ok_Put_funpow)

lemma pool_ok_NewJSONPktCreator: "pool_ok (NewJSONPktCreator n oracle)"
  unfolding NewJSONPktCreator_def by (rule pool_ok_Warmup) (simp add: pool_ok_def)

lemma NewPkt_synced:
  assumes "pool_ok pc"
  shows "\<exists>p pc'. NewPkt ref d pc = Inr (p, pc') \<and> pkt_synced p \<and> pool_ok pc' \<and>
    MetaMap p = [(KeyRef, ref)] \<and> Data p = [] \<and> Dest p = d \<and>
    jData p = jData (fst (pool_Get pc)) \<and> pc' = snd (pool_Get pc)"
proof -
  obtain q pc' where get: "pool_Get pc = (q, pc')"
    by fastforce
  let ?q = "(MetaClear q)\<lparr>buff := [], dest := d\<rparr>"
  have "pkt_synced (MetaClear q)" "MetaMap (MetaClear q) = []"
    using MetaClear_synced pool_Get_ok(1) [OF assms get] by auto
  then have "pkt_synced ?q" "MetaMap ?q = []"
    by simp_all
  then obtain p where "MetaAdd KeyRef ref ?q = Inr p" "pkt_synced p"
    "MetaMap p = [(KeyRef, ref)]" "buff p = []" "jData p = jData q" "dest p = d"
    using MetaAdd_synced [of ?q KeyRef ref] by (auto simp: MetaClear_def)
  then show ?thesis
    using pool_Get_ok(2) [OF assms get] by (simp add: NewPkt_def get Data_def Dest_def)
qed

lemma NewErrPkt_synced:
  assumes "pool_ok pc"
  shows "\<exists>p pc'. NewErrPkt ref d msg pc = Inr (p, pc') \<and> pkt_synced p \<and> pool_ok pc' \<and>
    MetaMap p = [(KeySvrMsg, msg), (KeyRef, ref), (KeySvrStatus, ''-1'')] \<and>
    Data p = [] \<and> Dest p = d \<and> jData p = jData (fst (pool_Get pc))"
proof -
  obtain p pc' where p: "NewPkt ref d pc = Inr (p, pc')" "pkt_synced p" "pool_ok pc'"
    "MetaMap p = [(KeyRef, ref)]" "Data p = []" "Dest p = d" "jData p = jData (fst (pool_Get pc))"
    using NewPkt_synced [OF assms] by blast
  obtain p1 where p1: "MetaAdd KeySvrStatus ''-1'' p = Inr p1" "pkt_synced p1"
    "MetaMap p1 = gm_put KeySvrStatus ''-1'' (MetaMap p)" "buff p1 = buff p" "jData p1 = jData p"
    "dest p1 = dest p"
    using MetaAdd_synced [OF p(2)] by blast
  obtain p2 where p2: "MetaAdd KeySvrMsg msg p1 = Inr p2" "pkt_synced p2"
    "MetaMap p2 = gm_put KeySvrMsg msg (MetaMap p1)" "buff p2 = buff p1" "jData p2 = jData p1"
    "dest p2 = dest p1"
    using MetaAdd_synced [OF p1(2)] by blast
  have "MetaMap p2 = [(KeySvrMsg, msg), (KeyRef, ref), (KeySvrStatus, ''-1'')]"
    by (simp add: p2(3) p1(3) p(4) key_defs)
  then show ?thesis
    using p p1 p2 by (auto simp: NewErrPkt_def Data_def Dest_def)
qed

section \<open>The wire format\<close>

lemma to_valid_ascii: "list_all (\<lambda>c. (of_char c :: nat) < 0x80) s \<Longrightarrow> to_valid s = s"
  by (induction s) (simp_all add: to_valid.simps)

lemma b64_plain_ascii: "b64_plain c \<Longrightarrow> (of_char c :: nat) < 0x80"
  by (auto simp: b64_plain_def b64_val_def Let_def split: if_splits)

lemma to_valid_b64: "to_valid (b64_encode b) = b64_encode b"
  using b64.enc_plain [of b] by (intro to_valid_ascii) (auto simp: list_all_iff b64_plain_ascii)

definition meta_json :: "JSONPkt \<Rightarrow> json" where
  "meta_json p = (case jMeta p of None \<Rightarrow> JNull | Some i \<Rightarrow> JObj (json_entries (maps p ! i)))"

text \<open>A marshalled packet, followed by anything, reads back as an object of two members.\<close>

lemma read_value_Marshal:
  assumes "Marshal p = Some b"
  shows "read_value maxNestingDepth (b @ t) =
    Some (JObj [(''m'', meta_json p), (''d'', JStr (to_valid (jData p)))], t)"
proof -
  obtain d where d: "maxNestingDepth = Suc (Suc d)"
    using max_depth_Suc by blast
  let ?m = "case jMeta p of None \<Rightarrow> ''null'' | Some i \<Rightarrow> json_string_map (maps p ! i)"
  have m: "read_value (Suc d) (?m @ u) = Some (meta_json p, u)" for u
    by (simp add: meta_json_def read_value_null [simplified] read_value_string_map
        split: option.split)
  have f: "to_valid ''m'' = ''m''" "to_valid ''d'' = ''d''"
    by (simp_all add: to_valid_ascii)
  let ?ms = "json_quote ''m'' @ CHR '':'' # ?m @ CHR '','' # json_quote ''d'' @ CHR '':'' #
    json_quote (jData p) @ CHR ''}'' # t"
  have "read_members (Suc d) ?ms =
      Some ([(''m'', meta_json p), (''d'', JStr (to_valid (jData p)))], t)"
    by (simp add: read_members_one m read_value_quote f)
  moreover have "b @ t = CHR ''{'' # ?ms"
    using assms by (auto simp: Marshal_def)
  ultimately show ?thesis
    by (simp add: d read_value_object)
qed

lemma json_parse_Marshal:
  "Marshal p = Some b \<Longrightarrow>
    json_parse b = Some (JObj [(''m'', meta_json p), (''d'', JStr (to_valid (jData p)))])"
  using read_value_Marshal [of p b "[]"] by (simp add: json_parse_def)

lemma merge_members_map_of:
  assumes "gm_ok a"
  shows "gm_ok (merge_members ms a) \<and>
    map_of (merge_members ms a) = map_of a ++ map_of (rev (map (\<lambda>(k, v). (k, elem_string v)) ms))"
  using assms
proof (induction ms arbitrary: a)
  case Nil
  then show ?case by (simp add: merge_members_def)
next
  case (Cons e ms)
  have "gm_ok (gm_put (fst e) (elem_string (snd e)) a)"
    using Cons.prems by (rule gm_ok_put)
  then show ?case
    using Cons.IH [of "gm_put (fst e) (elem_string (snd e)) a"] Cons.prems
    by (cases e) (auto simp: merge_members_def gm_simps fun_eq_iff map_add_def split: option.split)
qed

text \<open>Storing the object that a packet marshals to into a packet whose references agree.\<close>

lemma json_store_entries:
  assumes "pkt_synced q" and "list_all (elem_ok \<circ> snd) ms"
  shows "\<exists>q'. json_store (JObj [(''m'', JObj ms), (''d'', JStr t)]) q = (q', True) \<and>
    pkt_synced q' \<and> jData q' = t \<and> MetaMap q' = merge_members ms (MetaMap q) \<and> dest q' = dest q"
  using assms
  by (elim pkt_syncedE)
    (auto simp: store_field_def is_field_def alloc_meta_def pkt_synced_def pkt_wf_def ref_ok_def
      MetaMap_def merge_members_map_of intro!: list_all_update)

definition meta_utf8 :: "strmap \<Rightarrow> bool" where
  "meta_utf8 m \<longleftrightarrow> list_all (\<lambda>(k, v). utf8_valid k \<and> utf8_valid v) m"

lemma json_entries_utf8: "meta_utf8 m \<Longrightarrow> json_entries m = map (\<lambda>(k, v). (k, JStr v)) m"
  by (auto simp: json_entries_def meta_utf8_def utf8_valid_def list_all_iff)

text \<open>Decoding a marshalled packet merges its metadata; it succeeds if the data are base64.\<close>

lemma Unmarshal_Marshal_meta:
  assumes p: "pkt_synced p" "meta_utf8 (MetaMap p)"
    and q: "pkt_synced q"
    and b: "Marshal p = Some b"
  shows "\<exists>q'. pkt_synced q' \<and> dest q' = dest q \<and> map_of (MetaMap q') = map_of (MetaMap q) ++ map_of (MetaMap p) \<and>
    Unmarshal b q = (case b64_decode (to_valid (jData p)) of
      None \<Rightarrow> (q', Some CorruptBase64) | Some d \<Rightarrow> (q'\<lparr>buff := d\<rparr>, None))"
proof -
  let ?ms = "map (\<lambda>(k, v). (k, JStr v)) (MetaMap p)"
  have "meta_json p = JObj ?ms"
    using p by (elim pkt_syncedE) (auto simp: meta_json_def MetaMap_def json_entries_utf8)
  then have parse: "json_parse b = Some (JObj [(''m'', JObj ?ms), (''d'', JStr (to_valid (jData p)))])"
    using json_parse_Marshal [OF b] by simp
  have "list_all (elem_ok \<circ> snd) ?ms"
    by (auto simp: list_all_iff)
  then obtain q1 where q1: "json_store (JObj [(''m'', JObj ?ms), (''d'', JStr (to_valid (jData p)))]) q
      = (q1, True)" "pkt_synced q1" "jData q1 = to_valid (jData p)"
      "MetaMap q1 = merge_members ?ms (MetaMap q)" "dest q1 = dest q"
    using json_store_entries [OF q] by blast
  have "map (\<lambda>(k, v). (k, elem_string v)) ?ms = MetaMap p"
    by (auto simp: case_prod_beta intro!: map_idI)
  then have "map_of (MetaMap q1) = map_of (MetaMap q) ++ map_of (rev (MetaMap p))"
    using merge_members_map_of [OF MetaMap_ok [OF q], of ?ms] by (simp add: q1(4))
  moreover have "map_of (rev (MetaMap p)) = map_of (MetaMap p)"
    using gm_ok_distinct [OF MetaMap_ok [OF p(1)]]
    by (intro map_of_inject_set [THEN iffD2]) (simp_all flip: rev_map)
  moreover have "q1\<lparr>meta := jMeta q1\<rparr> = q1"
    using q1(2) by (simp add: pkt_synced_def)
  moreover from this have "Unmarshal b q = (case b64_decode (to_valid (jData p)) of
      None \<Rightarrow> (q1, Some CorruptBase64) | Some d \<Rightarrow> (q1\<lparr>buff := d\<rparr>, None))"
    by (simp add: Unmarshal_def parse q1 Let_def del: json_store.simps cong: option.case_cong)
  ultimately show ?thesis
    using q1 by (intro exI [of _ q1]) simp
qed

lemma Unmarshal_Marshal:
  assumes "pkt_synced p" "meta_utf8 (MetaMap p)" "jData p = b64_encode data" and "pkt_synced q" and "Marshal p = Some b"
  shows "\<exists>q'. Unmarshal b q = (q', None) \<and> pkt_synced q' \<and> Data q' = data \<and> dest q' = dest q \<and>
    map_of (MetaMap q') = map_of (MetaMap q) ++ map_of (MetaMap p)"
  using Unmarshal_Marshal_meta [OF assms(1,2,4,5)] assms(3) by (auto simp: to_valid_b64 b64.dec_enc Data_def)

section \<open>What decoding keeps of a packet\<close>

lemma pkt_wf_alloc_meta:
  "pkt_wf p \<Longrightarrow> alloc_meta p = (p', i) \<Longrightarrow> pkt_wf p' \<and> jMeta p' = Some i \<and> i < length (maps p')"
  by (auto simp: alloc_meta_def pkt_wf_def ref_ok_def split: option.splits)

lemma pkt_wf_update_map:
  "pkt_wf p \<Longrightarrow> gm_ok m \<Longrightarrow> pkt_wf (p\<lparr>maps := (maps p)[i := m]\<rparr>)"
  by (auto simp: pkt_wf_def ref_ok_def split: option.splits intro: list_all_update)

lemma store_meta_wf:
  assumes "pkt_wf p"
  shows "pkt_wf (fst (store_meta v p))"
proof (cases v)
  case (JObj ms)
  obtain p' i where a: "alloc_meta p = (p', i)"
    by fastforce
  have "pkt_wf p'" "i < length (maps p')"
    using pkt_wf_alloc_meta [OF assms a] by auto
  moreover from this have "gm_ok (merge_members ms (maps p' ! i))"
    by (simp add: pkt_wf_def list_all_nth merge_members_map_of)
  ultimately show ?thesis
    using JObj a by (simp add: pkt_wf_update_map)
qed (use assms in \<open>auto simp: pkt_wf_def ref_ok_def\<close>)

lemma store_data_frame: "\<exists>t. fst (store_data v p) = p\<lparr>jData := t\<rparr>"
  by (cases v) (auto intro: exI [of _ "jData p"])

lemma store_field_wf: "pkt_wf (fst st) \<Longrightarrow> pkt_wf (fst (store_field kv st))"
  using store_meta_wf [of "fst st" "snd kv"] store_data_frame [of "snd kv" "fst st"]
  by (cases kv; cases st) (auto simp: store_field_def pkt_wf_def split: prod.splits)

lemma fold_store_field_wf: "pkt_wf (fst st) \<Longrightarrow> pkt_wf (fst (fold store_field ms st))"
  by (induction ms arbitrary: st) (simp_all add: store_field_wf)

lemma json_store_wf: "pkt_wf p \<Longrightarrow> pkt_wf (fst (json_store v p))"
  by (cases v) (auto intro: fold_store_field_wf [of "(p, True)", simplified])

lemma Unmarshal_wf:
  assumes "pkt_wf p"
  shows "pkt_wf (fst (Unmarshal b p))"
proof (cases "json_parse b")
  case None
  with assms show ?thesis by (simp add: Unmarshal_def)
next
  case (Some v)
  then show ?thesis
    using json_store_wf [OF assms, of v]
    by (auto simp: Unmarshal_def Let_def case_prod_beta pkt_wf_def split: option.splits)
qed

text \<open>Only a \<open>null\<close> metadata member can separate the two references.\<close>

definition nulls_meta :: "(string \<times> json) list \<Rightarrow> bool" where
  "nulls_meta ms \<longleftrightarrow> list_ex (\<lambda>(k, v). is_field ''m'' ''M'' k \<and> v = JNull) ms"

lemma store_meta_synced:
  assumes "pkt_synced p" and "v \<noteq> JNull"
  shows "pkt_synced (fst (store_meta v p))"
  using assms
  by (cases v; elim pkt_syncedE)
    (auto simp: alloc_meta_def pkt_synced_def pkt_wf_def ref_ok_def merge_members_map_of
      intro!: list_all_update)

lemma store_field_synced:
  assumes "pkt_synced (fst st)" and "\<not> nulls_meta [kv]"
  shows "pkt_synced (fst (store_field kv st))"
  using assms store_meta_synced [of "fst st" "snd kv"] store_data_frame [of "snd kv" "fst st"]
  by (cases kv; cases st) (auto simp: store_field_def nulls_meta_def split: prod.splits)

lemma fold_store_field_synced:
  "pkt_synced (fst st) \<Longrightarrow> \<not> nulls_meta ms \<Longrightarrow> pkt_synced (fst (fold store_field ms st))"
proof (induction ms arbitrary: st)
  case Nil
  then show ?case by simp
next
  case (Cons kv ms)
  have "pkt_synced (fst (store_field kv st))"
    using Cons.prems by (intro store_field_synced) (auto simp: nulls_meta_def)
  then show ?case
    using Cons by (simp add: nulls_meta_def)
qed

lemma json_store_synced:
  "pkt_synced p \<Longrightarrow> (\<And>ms. v = JObj ms \<Longrightarrow> \<not> nulls_meta ms) \<Longrightarrow> pkt_synced (fst (json_store v p))"
  by (cases v) (auto intro: fold_store_field_synced [of "(p, True)", simplified])

lemma Unmarshal_synced:
  assumes p: "pkt_synced p"
    and ok: "\<And>ms. json_parse b = Some (JObj ms) \<Longrightarrow> \<not> nulls_meta ms"
  shows "pkt_synced (fst (Unmarshal b p))"
proof (cases "json_parse b")
  case None
  with p show ?thesis by (simp add: Unmarshal_def)
next
  case (Some v)
  have "pkt_synced (fst (json_store v p))"
    using ok Some by (intro json_store_synced [OF p]) auto
  then show ?thesis
    by (auto simp: Unmarshal_def Let_def Some case_prod_beta pkt_synced_def pkt_wf_def
        split: option.splits)
qed

lemma Unmarshal_ok_refs: "Unmarshal b p = (p', None) \<Longrightarrow> meta p' = jMeta p'"
  by (auto simp: Unmarshal_def Let_def split: option.splits prod.splits if_splits)

section \<open>Documents that leave a packet with stale or no contents\<close>

definition null_meta_doc :: bytes where
  "null_meta_doc = CHR ''{'' # json_quote ''m'' @ CHR '':'' # ''null}''"

definition no_data_doc :: bytes where
  "no_data_doc = CHR ''{'' # json_quote ''m'' @ CHR '':'' # ''{}}''"

lemma to_valid_m [simp]: "to_valid ''m'' = ''m''"
  by (simp add: to_valid_ascii)

lemma parse_null_meta: "json_parse null_meta_doc = Some (JObj [(''m'', JNull)])"
proof -
  obtain d where d: "maxNestingDepth = Suc (Suc d)"
    using max_depth_Suc by blast
  show ?thesis
    by (simp add: json_parse_def null_meta_doc_def d read_value_object read_members_one
        read_value_null [simplified])
qed

lemma parse_no_data: "json_parse no_data_doc = Some (JObj [(''m'', JObj [])])"
proof -
  obtain d where d: "maxNestingDepth = Suc (Suc d)"
    using max_depth_Suc by blast
  have "read_value (Suc d) (CHR ''{'' # CHR ''}'' # t) = Some (JObj [], t)" for t
    using read_value_string_map [of d "[]" t] by (simp add: json_string_map_def json_entries_def)
  then show ?thesis
    by (simp add: json_parse_def no_data_doc_def d read_value_object read_members_one)
qed

lemma Unmarshal_null_meta:
  "b64_decode (jData p) \<noteq> None \<Longrightarrow> Unmarshal null_meta_doc p = (p', e) \<Longrightarrow> e = None \<and> meta p' = None"
  by (auto simp: Unmarshal_def parse_null_meta store_field_def is_field_def split: option.splits)

lemma NewPkt_nil_meta:
  "picks pc = i # is \<Longrightarrow> i < length (pool pc) \<Longrightarrow> meta (pool pc ! i) = None \<Longrightarrow>
     NewPkt ref d pc = Inl NilMapWrite"
  by (simp add: NewPkt_def pool_Get_def MetaClear_def MetaAdd_def KVMeta_Add_def KVMeta_Clear_def Let_def)

section \<open>Properties of the packet layer\<close>

definition demo_pkt :: JSONPkt where
  "demo_pkt = newJSONPkt\<lparr>maps := [[(''_ref'', ''r1''), (''_tgt'', ''app.echo'')], []], buff := ''hi''\<rparr>"

lemma demo_pkt_synced: "pkt_synced demo_pkt"
  by (simp add: demo_pkt_def newJSONPkt_def pkt_synced_def pkt_wf_def ref_ok_def gm_ok_def)

lemma demo_pkt_utf8: "meta_utf8 (MetaMap demo_pkt)"
  by (simp add: demo_pkt_def newJSONPkt_def MetaMap_def meta_utf8_def utf8_valid_def to_valid_ascii)

lemma empty_pool_ok: "pool_ok \<lparr>pool = [], picks = []\<rparr>"
  by (simp add: pool_ok_def)

lemma wire_decode:
  assumes "pkt_synced p" and "meta_utf8 (MetaMap p)"
    and "pool_ok pc" and "NewPkt '''' '''' pc = Inr (q, pc')"
  shows "\<exists>b q'. Marshal (Close p) = Some b \<and> Unmarshal b q = (q', None) \<and> pkt_synced q' \<and>
    Data q' = Data p \<and> (\<forall>k. MetaGet k q' = MetaGet k p)"
proof -
  obtain b where b: "Marshal (Close p) = Some b"
    by (simp add: Marshal_def)
  have q: "pkt_synced q" "MetaMap q = [(KeyRef, '''')]"
    using NewPkt_synced [OF assms(3), of "''''" "''''"] assms(4) by auto
  have "pkt_synced (Close p)" "MetaMap (Close p) = MetaMap p" "jData (Close p) = b64_encode (Data p)"
    using assms(1) by (simp_all add: Close_def Data_def)
  then obtain q' where q': "Unmarshal b q = (q', None)" "pkt_synced q'" "Data q' = Data p"
    "map_of (MetaMap q') = map_of (MetaMap q) ++ map_of (MetaMap p)"
    using Unmarshal_Marshal [OF _ _ _ q(1) b, of "Data p"] assms(2) by auto
  have "MetaGet k q' = MetaGet k p" for k
    using q'(4) q(2)
    by (auto simp: MetaGet_MetaMap gm_str_def map_add_def split: option.splits)
  then show ?thesis
    using b q' by blast
qed

text \<open>
  C8: a packet whose data has been committed with \<open>Close\<close> survives the wire. Marshalling it and
  unmarshalling the bytes into any packet that \<open>NewPkt("", "")\<close> hands out, whatever the pool held,
  succeeds and gives a packet with the same data and the same value for every metadata key.
\<close>

theorem wire_roundtrip:
  assumes "pkt_synced p" and "meta_utf8 (MetaMap p)"
    and "pool_ok pc" and "NewPkt '''' '''' pc = Inr (q, pc')"
  shows "\<exists>b q'. Marshal (Close p) = Some b \<and> Unmarshal b q = (q', None) \<and> pkt_synced q' \<and>
    Data q' = Data p \<and> (\<forall>k. MetaGet k q' = MetaGet k p)"
  by (rule wire_decode [OF assms])

theorem wire_roundtrip_witness:
  "\<exists>q pc' b q'. NewPkt '''' '''' \<lparr>pool = [], picks = []\<rparr> = Inr (q, pc') \<and>
    Marshal (Close demo_pkt) = Some b \<and> Unmarshal b q = (q', None) \<and>
    Data q' = ''hi'' \<and> MetaGet KeyTarget q' = ''app.echo''"
proof -
  obtain q pc' where q: "NewPkt '''' '''' \<lparr>pool = [], picks = []\<rparr> = Inr (q, pc')"
    using NewPkt_synced [OF empty_pool_ok] by blast
  obtain b q' where "Marshal (Close demo_pkt) = Some b" "Unmarshal b q = (q', None)"
    "Data q' = Data demo_pkt" "MetaGet KeyTarget q' = MetaGet KeyTarget demo_pkt"
    using wire_roundtrip [OF demo_pkt_synced demo_pkt_utf8 empty_pool_ok q] by blast
  moreover have "Data demo_pkt = ''hi''" "MetaGet KeyTarget demo_pkt = ''app.echo''"
    by (simp_all add: demo_pkt_def newJSONPkt_def Data_def MetaGet_def KVMeta_Get_def gm_str_def key_defs)
  ultimately show ?thesis
    using q by metis
qed

text \<open>
  From a pool of sound packets, whichever packet the pool picks, \<open>NewErrPkt\<close> does not panic and
  returns a packet whose metadata is exactly the reference, the status \<open>-1\<close> and the message, with
  the destination set and no buffered data; the pool stays sound.
\<close>

theorem NewErrPkt_metadata:
  assumes "pool_ok pc"
  shows "\<exists>p pc'. NewErrPkt ref d msg pc = Inr (p, pc') \<and> pkt_synced p \<and> pool_ok pc' \<and>
    Dest p = d \<and> Data p = [] \<and>
    (\<forall>k. MetaGet k p =
      (if k = KeyRef then ref else if k = KeySvrStatus then ''-1''
       else if k = KeySvrMsg then msg else ''''))"
  using NewErrPkt_synced [OF assms, of ref d msg]
  by (auto simp: MetaGet_MetaMap gm_str_def key_defs)

theorem NewErrPkt_metadata_witness:
  "\<exists>p pc'. NewErrPkt ''r1'' ''10.0.0.1:9'' ''malformed packet'' (NewJSONPktCreator 2 [1, 0]) = Inr (p, pc') \<and>
    MetaGet KeyRef p = ''r1'' \<and> MetaGet KeySvrMsg p = ''malformed packet''"
  using NewErrPkt_metadata [OF pool_ok_NewJSONPktCreator,
      of "''r1''" "''10.0.0.1:9''" "''malformed packet''" 2 "[1, 0]"]
  by (auto simp: key_defs)

text \<open>
  Decoding arbitrary bytes into a packet never breaks its representation, a syntax error leaves
  the packet untouched, and after a successful decoding the two metadata references agree.
\<close>

theorem Unmarshal_any_bytes:
  assumes "pkt_wf p"
  shows "pkt_wf (fst (Unmarshal b p)) \<and>
    (snd (Unmarshal b p) = Some JsonSyntax \<longrightarrow> fst (Unmarshal b p) = p) \<and>
    (snd (Unmarshal b p) = None \<longrightarrow> meta (fst (Unmarshal b p)) = jMeta (fst (Unmarshal b p)))"
proof (intro conjI impI)
  show "pkt_wf (fst (Unmarshal b p))"
    by (rule Unmarshal_wf [OF assms])
  show "fst (Unmarshal b p) = p" if "snd (Unmarshal b p) = Some JsonSyntax"
    using that by (auto simp: Unmarshal_def Let_def split: option.splits prod.splits if_splits)
  show "meta (fst (Unmarshal b p)) = jMeta (fst (Unmarshal b p))" if "snd (Unmarshal b p) = None"
    using that by (intro Unmarshal_ok_refs) (simp add: prod_eq_iff)
qed

theorem Unmarshal_any_bytes_witness:
  "pkt_wf newJSONPkt \<and> pkt_wf (fst (Unmarshal null_meta_doc newJSONPkt))"
  using Unmarshal_any_bytes [of newJSONPkt null_meta_doc] newJSONPkt_synced
  by (simp add: pkt_synced_def)

text \<open>
  Unless the document sets the metadata member to \<open>null\<close>, decoding keeps both metadata
  references on one live map, whatever else is wrong with the document; a later \<open>Add\<close> on the packet
  then succeeds and is what \<open>Marshal\<close> writes.
\<close>

theorem Unmarshal_keeps_sync:
  assumes "pkt_synced p" and "\<not> (\<exists>ms. json_parse b = Some (JObj ms) \<and> nulls_meta ms)"
  shows "\<exists>p'. MetaAdd k v (fst (Unmarshal b p)) = Inr p' \<and> pkt_synced p' \<and> MetaGet k p' = v"
proof -
  have "pkt_synced (fst (Unmarshal b p))"
    using assms by (blast intro: Unmarshal_synced)
  from MetaAdd_synced [OF this, of k v] MetaMap_ok [OF this] show ?thesis
    by (auto simp: MetaGet_MetaMap gm_simps)
qed

theorem Unmarshal_keeps_sync_witness:
  "\<exists>p'. MetaAdd KeyRef ''r'' (fst (Unmarshal no_data_doc newJSONPkt)) = Inr p' \<and> MetaGet KeyRef p' = ''r''"
proof -
  have "\<not> (\<exists>ms. json_parse no_data_doc = Some (JObj ms) \<and> nulls_meta ms)"
    by (auto simp: parse_no_data nulls_meta_def)
  from Unmarshal_keeps_sync [OF newJSONPkt_synced this, of KeyRef "''r''"] show ?thesis
    by blast
qed

text \<open>
  The document that sets the metadata member to \<open>null\<close> is accepted, and leaves a packet whose
  metadata is a nil map. Once that packet is back in the pool and is picked again, \<open>NewPkt\<close> panics:
  it writes the reference into a nil map.
\<close>

theorem null_meta_poisons_pool:
  assumes "b64_decode (jData p) \<noteq> None" and "Unmarshal null_meta_doc p = (p', e)"
    and "picks (PutBack p' pc) = length (pool pc) # is"
  shows "e = None \<and> NewPkt ref d (PutBack p' pc) = Inl NilMapWrite"
  using Unmarshal_null_meta [OF assms(1,2)] NewPkt_nil_meta assms(3)
  by (simp add: PutBack_def pool_Put_def)

theorem null_meta_poisons_pool_witness:
  "NewPkt ''r'' ''a'' (PutBack (fst (Unmarshal null_meta_doc newJSONPkt)) \<lparr>pool = [], picks = [0]\<rparr>)
    = Inl NilMapWrite"
proof -
  have "b64_decode (jData newJSONPkt) \<noteq> None"
    by (simp add: newJSONPkt_def b64_decode_def)
  moreover have "picks (PutBack p' \<lparr>pool = [], picks = [0]\<rparr>) = length (pool \<lparr>pool = [], picks = [0::nat]\<rparr>) # []"
    for p'
    by (simp add: PutBack_def pool_Put_def)
  ultimately show ?thesis
    using null_meta_poisons_pool [of newJSONPkt "fst (Unmarshal null_meta_doc newJSONPkt)"
        "snd (Unmarshal null_meta_doc newJSONPkt)" "\<lparr>pool = [], picks = [0]\<rparr>" "[]" "''r''" "''a''"]
    by simp
qed

text \<open>
  C36: \<open>NewPkt\<close> does not reset the committed data and nothing closes an error packet before it is
  marshalled, so an error packet made from a pooled packet still carries the data that packet
  carried last: whoever receives the error reads them.
\<close>

theorem error_packet_carries_stale_data:
  assumes "pool_ok pc" and "jData (fst (pool_Get pc)) = b64_encode secret"
    and "utf8_valid ref" and "utf8_valid msg" and "pkt_synced q"
  shows "\<exists>p pc' b q'. NewErrPkt ref d msg pc = Inr (p, pc') \<and> Data p = [] \<and>
    Marshal p = Some b \<and> Unmarshal b q = (q', None) \<and> Data q' = secret"
proof -
  obtain p pc' where p: "NewErrPkt ref d msg pc = Inr (p, pc')" "pkt_synced p" "Data p = []"
    "MetaMap p = [(KeySvrMsg, msg), (KeyRef, ref), (KeySvrStatus, ''-1'')]"
    "jData p = b64_encode secret"
    using NewErrPkt_synced [OF assms(1), of ref d msg] assms(2) by auto
  obtain b where b: "Marshal p = Some b"
    by (simp add: Marshal_def)
  have "meta_utf8 (MetaMap p)"
    using assms(3,4) by (simp add: p(4) meta_utf8_def utf8_valid_def key_defs to_valid_ascii)
  then show ?thesis
    using Unmarshal_Marshal [OF p(2) _ p(5) assms(5) b] p(1,3) b by blast
qed

theorem error_packet_carries_stale_data_witness:
  "\<exists>p pc' b q'. NewErrPkt ''r'' ''a'' ''no''
      \<lparr>pool = [Close (newJSONPkt\<lparr>buff := ''secret''\<rparr>)], picks = [0]\<rparr> = Inr (p, pc') \<and>
    Marshal p = Some b \<and> Unmarshal b newJSONPkt = (q', None) \<and> Data q' = ''secret''"
proof -
  let ?pc = "\<lparr>pool = [Close (newJSONPkt\<lparr>buff := ''secret''\<rparr>)], picks = [0]\<rparr>"
  have "pool_ok ?pc" "jData (fst (pool_Get ?pc)) = b64_encode ''secret''"
    by (simp_all add: pool_ok_def Close_def pool_Get_def)
  moreover have "utf8_valid ''r''" "utf8_valid ''no''"
    by (simp_all add: utf8_valid_def to_valid_ascii)
  ultimately show ?thesis
    using error_packet_carries_stale_data [OF _ _ _ _ newJSONPkt_synced, of ?pc "''secret''" "''r''" "''no''" "''a''"]
    by blast
qed

text \<open>
  A document without a data member leaves the committed data of the packet it is decoded into:
  decoded into a reused packet, it yields the data of the packet decoded before it.
\<close>

theorem missing_data_member_reuses_old:
  assumes "jData p = b64_encode old" and "pkt_synced p"
  shows "\<exists>p'. Unmarshal no_data_doc p = (p', None) \<and> Data p' = old"
  using assms
  by (elim pkt_syncedE)
    (auto simp: Unmarshal_def parse_no_data store_field_def is_field_def alloc_meta_def Data_def
      b64.dec_enc)

theorem missing_data_member_reuses_old_witness:
  "\<exists>p'. Unmarshal no_data_doc (Close (newJSONPkt\<lparr>buff := ''old''\<rparr>)) = (p', None) \<and> Data p' = ''old''"
  using missing_data_member_reuses_old [of "Close (newJSONPkt\<lparr>buff := ''old''\<rparr>)" "''old''"]
  by (simp add: Close_def)


section \<open>The size of a marshalled packet\<close>

definition pkt_weight :: "JSONPkt \<Rightarrow> nat" where
  "pkt_weight p = 6 * (map_weight (MetaMap p) + length (jData p)) + 20"

lemma Marshal_length: "pkt_synced p \<Longrightarrow> Marshal p = Some b \<Longrightarrow> length b \<le> pkt_weight p"
  using json_members_length [of "MetaMap p"] json_quote_length [of "jData p"]
  by (elim pkt_syncedE)
    (auto simp: Marshal_def MetaMap_def pkt_weight_def json_string_map_def json_quote_def json_escape.simps
      escape_ascii_def html_safe_def)

lemma map_weight_put: "map_weight (gm_put k v m) \<le> map_weight m + length k + length v + 1"
  by (induction m) (auto simp: map_weight_def)

end
