(* ===== verification/Go_Fmt.thy ===== *)
theory Go_Fmt
  imports Go_Json_Value
begin

text \<open>
  What the repository uses of \<open>fmt\<close> and \<open>strconv\<close>.

  \<^item> \<open>errorf\<close> is \<open>fmt.Errorf\<close> called with a format and no operands, as the pipelines call it on
    the message of the context: every verb of the format is reported as missing its operand, so a
    message with a percent sign is not returned as it was. The loop of \<open>doPrintf\<close> is followed
    branch by branch (flags, argument indexes, width, precision, verb).
  \<^item> \<open>dec_nat\<close> and \<open>dec_int\<close> are the decimal text of a number (\<open>strconv.Itoa\<close>, \<open>%d\<close>,
    \<open>big.Int.String\<close>); \<open>dec_val\<close> reads it back.
\<close>

section \<open>Formatting without operands\<close>

definition digit_val :: "char \<Rightarrow> nat" where
  "digit_val c = of_char c - 48"

text \<open>\<open>parsenum\<close>: whether a number was read, and the rest of the format. A number above a million
  abandons the rest of the format.\<close>

fun parsenum :: "nat \<Rightarrow> bool \<Rightarrow> bytes \<Rightarrow> bool \<times> bytes" where
  "parsenum n isnum [] = (isnum, [])"
| "parsenum n isnum (c # r) =
     (if is_digit c then
        (if 1000000 < n then (False, []) else parsenum (n * 10 + digit_val c) True r)
      else (isnum, c # r))"

text \<open>\<open>parseArgNumber\<close> on a format that starts with an opening bracket: its width and whether it
  is well formed.\<close>

definition parse_arg_number :: "bytes \<Rightarrow> nat \<times> bool" where
  "parse_arg_number s =
     (let seg = takeWhile (\<lambda>c. c \<noteq> CHR '']'') (tl s) in
      if length s < 3 \<or> CHR '']'' \<notin> set (tl s) then (1, False)
      else (length seg + 2, parsenum 0 False seg = (True, [])))"

text \<open>\<open>argNumber\<close> with no operands: an index is never in range. The result is the rest, whether an
  index was read, and whether all indexes so far were good.\<close>

definition arg_number :: "bytes \<Rightarrow> bool \<Rightarrow> bytes \<times> bool \<times> bool" where
  "arg_number s good =
     (if s \<noteq> [] \<and> hd s = CHR ''['' then
        (let (wid, ok) = parse_arg_number s in (drop wid s, ok, False))
      else (s, False, good))"

definition is_flag :: "char \<Rightarrow> bool" where
  "is_flag c \<longleftrightarrow> c \<in> {CHR ''#'', CHR ''0'', CHR ''+'', CHR ''-'', CHR '' ''}"

text \<open>Width: output, rest, whether an index is pending, whether the indexes are good.\<close>

definition printf_width :: "bytes \<Rightarrow> bool \<Rightarrow> bool \<Rightarrow> bytes \<times> bytes \<times> bool \<times> bool" where
  "printf_width s after good =
     (if s \<noteq> [] \<and> hd s = CHR ''*'' then (''%!(BADWIDTH)'', tl s, False, good)
      else let (isnum, t) = parsenum 0 False s in ([], t, after, good \<and> \<not> (after \<and> isnum)))"

definition printf_prec :: "bytes \<Rightarrow> bool \<Rightarrow> bool \<Rightarrow> bytes \<times> bytes \<times> bool \<times> bool" where
  "printf_prec s after good =
     (if s \<noteq> [] \<and> hd s = CHR ''.'' then
        (let (t, after', good') = arg_number (tl s) (good \<and> \<not> after) in
         if t \<noteq> [] \<and> hd t = CHR ''*'' then (''%!(BADPREC)'', tl t, False, good')
         else ([], snd (parsenum 0 False t), after', good'))
      else ([], s, after, good))"

text \<open>One verb, after its percent sign: the output and the rest, \<open>None\<close> when the format ends.\<close>

definition printf_verb :: "bytes \<Rightarrow> bytes \<times> bytes option" where
  "printf_verb s0 =
     (let (s1, a1, g1) = arg_number (dropWhile is_flag s0) True;
          (o2, s2, a2, g2) = printf_width s1 a1 g1;
          (o3, s3, a3, g3) = printf_prec s2 a2 g2;
          (s4, a4, g4) = (if a3 then (s3, a3, g3) else arg_number s3 g3)
      in if s4 = [] then (o2 @ o3 @ ''%!(NOVERB)'', None)
         else
           let n = utf8_len s4;
               rune = (if n = 0 then rune_error else take n s4);
               rest = drop (max 1 n) s4
           in if hd s4 = CHR ''%'' then (o2 @ o3 @ ''%'', Some rest)
              else if \<not> g4 then (o2 @ o3 @ ''%!'' @ rune @ ''(BADINDEX)'', Some rest)
              else (o2 @ o3 @ ''%!'' @ rune @ ''(MISSING)'', Some rest))"

lemma parsenum_rest: "length (snd (parsenum n b s)) \<le> length s"
  by (induction n b s rule: parsenum.induct) auto

lemma arg_number_rest: "length (fst (arg_number s g)) \<le> length s"
  by (auto simp: arg_number_def case_prod_beta)

lemma printf_width_rest: "length (fst (snd (printf_width s a g))) \<le> length s"
  using parsenum_rest [of 0 False s] by (auto simp: printf_width_def case_prod_beta)

lemma printf_prec_rest: "length (fst (snd (printf_prec s a g))) \<le> length s"
proof -
  have "length (snd (parsenum 0 False (fst (arg_number (tl s) g')))) \<le> length s" for g'
    using parsenum_rest [of 0 False "fst (arg_number (tl s) g')"] arg_number_rest [of "tl s" g']
    by simp
  moreover have "length (tl (fst (arg_number (tl s) g'))) \<le> length s" for g'
    using arg_number_rest [of "tl s" g'] by simp
  ultimately show ?thesis
    by (simp add: printf_prec_def case_prod_beta Let_def)
qed

lemma printf_verb_rest: "snd (printf_verb s) = Some t \<Longrightarrow> length t \<le> length s"
proof -
  assume t: "snd (printf_verb s) = Some t"
  obtain s1 a1 g1 where 1: "arg_number (dropWhile is_flag s) True = (s1, a1, g1)"
    by (metis prod_cases3)
  obtain o2 s2 a2 g2 where 2: "printf_width s1 a1 g1 = (o2, s2, a2, g2)"
    by (metis prod_cases4)
  obtain o3 s3 a3 g3 where 3: "printf_prec s2 a2 g2 = (o3, s3, a3, g3)"
    by (metis prod_cases4)
  have "length s3 \<le> length s"
    using arg_number_rest [of "dropWhile is_flag s" True] printf_width_rest [of s1 a1 g1]
      printf_prec_rest [of s2 a2 g2] length_dropWhile_le [of is_flag s] 1 2 3
    by simp
  then show ?thesis
    using t 1 2 3 arg_number_rest [of s3 g3]
    by (auto simp: printf_verb_def Let_def split: if_splits prod.splits)
qed

function errorf :: "bytes \<Rightarrow> bytes" where
  "errorf s =
     (case dropWhile (\<lambda>c. c \<noteq> CHR ''%'') s of
        [] \<Rightarrow> s
      | p # r \<Rightarrow>
          takeWhile (\<lambda>c. c \<noteq> CHR ''%'') s @ fst (printf_verb r) @
          (case snd (printf_verb r) of None \<Rightarrow> [] | Some t \<Rightarrow> errorf t))"
  by pat_completeness auto
termination
proof (relation "measure length", goal_cases)
  case 1
  show ?case by simp
next
  case (2 s p r t)
  then have "length t \<le> length r" "length (p # r) \<le> length s"
    using printf_verb_rest [of r t] length_dropWhile_le [of "\<lambda>c. c \<noteq> CHR ''%''" s] by simp_all
  then show ?case by simp
qed

declare errorf.simps [simp del]

lemma errorf_plain [simp]:
  assumes "CHR ''%'' \<notin> set s"
  shows "errorf s = s"
proof -
  have "dropWhile (\<lambda>c. c \<noteq> CHR ''%'') s = []"
    using assms by (auto simp: dropWhile_eq_Nil_conv)
  then show ?thesis by (simp only: errorf.simps [of s] list.case)
qed

lemma errorf_append: "CHR ''%'' \<notin> set a \<Longrightarrow> errorf (a @ b) = a @ errorf b"
proof -
  assume a: "CHR ''%'' \<notin> set a"
  have "dropWhile (\<lambda>c. c \<noteq> CHR ''%'') (a @ b) = dropWhile (\<lambda>c. c \<noteq> CHR ''%'') b"
    "takeWhile (\<lambda>c. c \<noteq> CHR ''%'') (a @ b) = a @ takeWhile (\<lambda>c. c \<noteq> CHR ''%'') b"
    by (rule dropWhile_append2 takeWhile_append2; use a in blast)+
  then show ?thesis
    by (cases "dropWhile (\<lambda>c. c \<noteq> CHR ''%'') b")
      (simp_all only: errorf.simps [of "a @ b"] errorf.simps [of b] list.case append_assoc)
qed

lemma errorf_final_percent: "CHR ''%'' \<notin> set a \<Longrightarrow> errorf (a @ ''%'') = a @ ''%!(NOVERB)''"
  by (simp add: errorf_append errorf.simps [of "''%''"] printf_verb_def arg_number_def
      printf_width_def printf_prec_def)

section \<open>Decimal numbers\<close>

definition dec_digit :: "nat \<Rightarrow> char" where
  "dec_digit n = char_of (48 + n mod 10)"

fun dec_nat :: "nat \<Rightarrow> bytes" where
  "dec_nat n = (if n < 10 then [dec_digit n] else dec_nat (n div 10) @ [dec_digit n])"

declare dec_nat.simps [simp del]

definition dec_int :: "int \<Rightarrow> bytes" where
  "dec_int i = (if i < 0 then CHR ''-'' # dec_nat (nat (- i)) else dec_nat (nat i))"

definition dec_val :: "bytes \<Rightarrow> nat" where
  "dec_val s = foldl (\<lambda>a c. a * 10 + digit_val c) 0 s"

lemma of_char_dec_digit [simp]: "(of_char (dec_digit n) :: nat) = 48 + n mod 10"
proof -
  have "(48 + n mod 10) mod 256 = 48 + n mod 10"
    by (rule mod_less) (use mod_less_divisor [of 10 n] in linarith)
  then show ?thesis by (simp add: dec_digit_def)
qed

lemma is_digit_dec_digit [simp]: "is_digit (dec_digit n)"
proof -
  have "n mod 10 < 10"
    by simp
  then have "48 + n mod 10 \<le> 57"
    by linarith
  then show ?thesis
    unfolding is_digit_def of_char_dec_digit by simp
qed

lemma dec_nat_digits: "list_all is_digit (dec_nat n)"
  by (induction n rule: dec_nat.induct) (subst dec_nat.simps, simp)

lemma dec_nat_nonempty [simp]: "dec_nat n \<noteq> []"
  by (subst dec_nat.simps) simp

lemma dec_val_dec_nat [simp]: "dec_val (dec_nat n) = n"
proof (induction n rule: dec_nat.induct)
  case (1 n)
  then show ?case
    by (subst dec_nat.simps) (simp add: dec_val_def digit_val_def)
qed

text \<open>No leading zeros.\<close>

lemma dec_nat_head_zero: "hd (dec_nat n) = CHR ''0'' \<Longrightarrow> dec_nat n = ''0''"
proof (induction n rule: dec_nat.induct)
  case (1 n)
  show ?case
  proof (cases "n < 10")
    case True
    then show ?thesis
      using "1.prems" by (simp add: dec_nat.simps [of n])
  next
    case False
    then have "hd (dec_nat (n div 10)) = CHR ''0''"
      using "1.prems" by (simp add: dec_nat.simps [of n])
    with "1.IH" False have "dec_nat (n div 10) = ''0''"
      by simp
    then have "n div 10 = dec_val ''0''"
      by (metis dec_val_dec_nat)
    with False show ?thesis by (simp add: dec_val_def digit_val_def)
  qed
qed

text \<open>Decimal text is a JSON number.\<close>

lemma read_digits_prefix:
  assumes "list_all is_digit ds" and "ds \<noteq> []" and "t = [] \<or> \<not> is_digit (hd t)"
  shows "read_digits (ds @ t) = Some (ds, t)"
proof -
  have "takeWhile is_digit t = []" "dropWhile is_digit t = t"
    using assms(3) by (cases t; simp)+
  then show ?thesis
    using assms(1,2) by (simp add: read_digits_def list_all_iff)
qed

lemma read_int_dec_nat:
  assumes "t = [] \<or> \<not> is_digit (hd t)"
  shows "read_int (dec_nat n @ t) = Some (dec_nat n, t)"
proof (cases "hd (dec_nat n) = CHR ''0''")
  case True
  then have "dec_nat n = ''0''"
    by (rule dec_nat_head_zero)
  then show ?thesis by (simp add: read_int_def)
next
  case False
  obtain c r where c: "dec_nat n = c # r"
    by (meson dec_nat_nonempty neq_Nil_conv)
  then show ?thesis
    using False read_digits_prefix [OF dec_nat_digits dec_nat_nonempty assms, of n]
    by (simp add: read_int_def)
qed

end
