(* ===== verification/Pipeline.thy ===== *)
theory Pipeline
  imports Packet Go_Fmt
begin

text \<open>
  The pipelines (\<open>src/core/extension.go\<close>, \<open>data_pipeline.go\<close>, \<open>packet_pipeline.go\<close>): contexts and
  status codes, the data pipeline over byte buffers and the packet pipeline over packets.

  A stage is a Go closure. It reads and updates the context, the buffer or the response packet, and
  whatever else the closure captures: the last is the type variable \<open>'s\<close>, threaded through every
  stage. A stage may panic. A Go \<open>error\<close> is \<open>None\<close> (nil) or the text it prints.

  Both pipelines run their stages in the same way; the locale \<open>staged_run\<close> states it once and gives
  the specification of a run in terms of \<open>through\<close>: the stages that ran without stopping.
\<close>

section \<open>Contexts and status codes\<close>

definition CodeContinue :: int where "CodeContinue = 0"
definition CodeStopError :: int where "CodeStopError = -1"
definition CodeStopCloseSend :: int where "CodeStopCloseSend = 1"
definition CodeStopNoop :: int where "CodeStopNoop = 2"
definition CodeRelay :: int where "CodeRelay = 3"

lemmas code_defs =
  CodeContinue_def CodeStopError_def CodeStopCloseSend_def CodeStopNoop_def CodeRelay_def

record PipelineCtx =
  Pkt :: "JSONPkt option"   \<comment> \<open>\<open>None\<close> is the nil interface\<close>
  Stat :: int
  Msg :: string

record TransformContext = PipelineCtx +
  PipelineName :: string
  From :: string

record TargetCtx = PipelineCtx +
  TargetName :: string
  TargetFrom :: string

type_synonym 's tstate = "TransformContext \<times> bytes \<times> 's"
type_synonym 's cstate = "TargetCtx \<times> JSONPkt \<times> 's"

type_synonym 's BufferTransform = "TransformContext \<Rightarrow> bytes \<Rightarrow> 's \<Rightarrow> 's tstate go"
type_synonym 's TargetCallback = "TargetCtx \<Rightarrow> JSONPkt \<Rightarrow> 's \<Rightarrow> 's cstate go"

type_synonym goerror = "string option"

section \<open>DataPipeline\<close>

record 's DataPipeline =
  locked :: bool
  pipelines :: "string \<rightharpoonup> 's BufferTransform list"

definition NewDataPipeline :: "'s DataPipeline" where
  "NewDataPipeline = \<lparr>locked = False, pipelines = Map.empty\<rparr>"

definition Lock :: "'s DataPipeline \<Rightarrow> 's DataPipeline" where
  "Lock d = d\<lparr>locked := True\<rparr>"

definition Unlock :: "'s DataPipeline \<Rightarrow> 's DataPipeline" where
  "Unlock d = d\<lparr>locked := False\<rparr>"

text \<open>The slice of a name that is absent from the map is nil, to which \<open>append\<close> adds.\<close>

definition stages_of :: "(string \<rightharpoonup> 'f list) \<Rightarrow> string \<Rightarrow> 'f list" where
  "stages_of m name = (case m name of None \<Rightarrow> [] | Some fs \<Rightarrow> fs)"

definition AddTransform :: "string \<Rightarrow> 's BufferTransform \<Rightarrow> 's DataPipeline \<Rightarrow> 's DataPipeline" where
  "AddTransform name f d = d\<lparr>pipelines := (pipelines d)(name \<mapsto> stages_of (pipelines d) name @ [f])\<rparr>"

fun run_transforms :: "'s BufferTransform list \<Rightarrow> 's tstate \<Rightarrow> (goerror \<times> 's tstate) go" where
  "run_transforms [] st = Inr (None, st)"
| "run_transforms (f # fs) (ctx, data, s) =
     gbind (f ctx data s) (\<lambda>(ctx, data, s).
       if Stat ctx = CodeStopError
       then Inr (Some (errorf (''pipeline terminated: '' @ Msg ctx)), (ctx, data, s))
       else if Stat ctx = CodeStopNoop \<or> Stat ctx = CodeStopCloseSend then Inr (None, (ctx, data, s))
       else run_transforms fs (ctx, data, s))"

definition ProcessData ::
  "'s DataPipeline \<Rightarrow> TransformContext \<Rightarrow> bytes \<Rightarrow> 's \<Rightarrow> (goerror \<times> 's tstate) go" where
  "ProcessData d ctx data s =
     run_transforms (stages_of (pipelines d) (PipelineName ctx)) (ctx, data, s)"

section \<open>PacketPipeline\<close>

record 's PacketPipeline =
  callbackQueues :: "string \<rightharpoonup> 's TargetCallback list"

definition NewPacketPipeline :: "'s PacketPipeline" where
  "NewPacketPipeline = \<lparr>callbackQueues = Map.empty\<rparr>"

definition AddCallback :: "string \<Rightarrow> 's TargetCallback \<Rightarrow> 's PacketPipeline \<Rightarrow> 's PacketPipeline" where
  "AddCallback target cb pp =
     pp\<lparr>callbackQueues := (callbackQueues pp)(target \<mapsto> stages_of (callbackQueues pp) target @ [cb])\<rparr>"

fun run_callbacks :: "'s TargetCallback list \<Rightarrow> 's cstate \<Rightarrow> (goerror \<times> 's cstate) go" where
  "run_callbacks [] st = Inr (None, st)"
| "run_callbacks (cb # cbs) (ctx, pw, s) =
     gbind (cb ctx pw s) (\<lambda>(ctx, pw, s).
       if Stat ctx = CodeStopError then Inr (Some (errorf (Msg ctx)), (ctx, pw, s))
       else if Stat ctx = CodeStopNoop \<or> Stat ctx = CodeStopCloseSend then Inr (None, (ctx, pw, s))
       else run_callbacks cbs (ctx, pw, s))"

definition ProcessPacket ::
  "'s PacketPipeline \<Rightarrow> TargetCtx \<Rightarrow> JSONPkt \<Rightarrow> 's \<Rightarrow> (goerror \<times> 's cstate) go" where
  "ProcessPacket pp ctx pw s =
     (case callbackQueues pp (TargetName ctx) of
        None \<Rightarrow> Inr (Some ''target not found'', (ctx, pw, s))
      | Some cbs \<Rightarrow> run_callbacks cbs (ctx, pw, s))"

section \<open>Running stages\<close>

text \<open>\<open>through stage verdict fs c c'\<close>: every stage of \<open>fs\<close> ran, from \<open>c\<close> to \<open>c'\<close>, and none of
  them asked to stop.\<close>

inductive through :: "('f \<Rightarrow> 'c \<Rightarrow> 'c go) \<Rightarrow> ('c \<Rightarrow> 'e option) \<Rightarrow> 'f list \<Rightarrow> 'c \<Rightarrow> 'c \<Rightarrow> bool"
  for stage verdict where
  through_Nil: "through stage verdict [] c c"
| through_Cons:
    "stage f c = Inr c1 \<Longrightarrow> verdict c1 = None \<Longrightarrow> through stage verdict fs c1 c2 \<Longrightarrow>
     through stage verdict (f # fs) c c2"

inductive_simps through_Nil_iff [simp]: "through stage verdict [] c c'"
inductive_simps through_Cons_iff: "through stage verdict (f # fs) c c'"

text \<open>A run stops at the first stage whose verdict is a result, and otherwise ends with \<open>fin\<close>.\<close>

definition stops_at ::
  "('f \<Rightarrow> 'c \<Rightarrow> 'c go) \<Rightarrow> ('c \<Rightarrow> 'e option) \<Rightarrow> 'f list \<Rightarrow> 'c \<Rightarrow> 'e \<Rightarrow> 'c \<Rightarrow> bool" where
  "stops_at stage verdict fs c e c' \<longleftrightarrow>
     (\<exists>gs f hs c1. fs = gs @ f # hs \<and> through stage verdict gs c c1 \<and>
        stage f c1 = Inr c' \<and> verdict c' = Some e)"

locale staged_run =
  fixes run :: "'f list \<Rightarrow> 'c \<Rightarrow> ('e \<times> 'c) go"
    and stage :: "'f \<Rightarrow> 'c \<Rightarrow> 'c go"
    and verdict :: "'c \<Rightarrow> 'e option"
    and fin :: 'e
  assumes run_Nil: "run [] c = Inr (fin, c)"
    and run_Cons: "run (f # fs) c = gbind (stage f c)
      (\<lambda>c'. case verdict c' of Some e \<Rightarrow> Inr (e, c') | None \<Rightarrow> run fs c')"
begin

lemma run_through: "through stage verdict gs c c1 \<Longrightarrow> run (gs @ fs) c = run fs c1"
  by (induction rule: through.induct) (simp_all add: run_Cons)

lemma run_stop:
  assumes "stops_at stage verdict gs c e c'"
  shows "run (gs @ fs) c = Inr (e, c')"
proof -
  obtain as f bs c1 where "gs = as @ f # bs" "through stage verdict as c c1"
    "stage f c1 = Inr c'" "verdict c' = Some e"
    using assms by (auto simp: stops_at_def)
  then show ?thesis
    using run_through [of as c c1 "f # bs @ fs"] by (simp add: run_Cons)
qed

lemma run_complete:
  "run fs c = Inr (e, c') \<Longrightarrow>
     (through stage verdict fs c c' \<and> e = fin) \<or> stops_at stage verdict fs c e c'"
proof (induction fs arbitrary: c)
  case Nil
  then show ?case by (simp add: run_Nil)
next
  case (Cons f fs)
  then obtain c1 where c1: "stage f c = Inr c1"
    by (auto simp: run_Cons go_simps)
  show ?case
  proof (cases "verdict c1")
    case (Some x)
    with Cons.prems c1 have "x = e" "c1 = c'"
      by (simp_all add: run_Cons)
    with Some c1 have "stops_at stage verdict (f # fs) c e c'"
      unfolding stops_at_def by (intro exI [of _ "[]"] exI [of _ f] exI [of _ fs] exI [of _ c]) simp
    then show ?thesis ..
  next
    case None
    with Cons.prems c1 have "run fs c1 = Inr (e, c')"
      by (simp add: run_Cons)
    with Cons.IH have "(through stage verdict fs c1 c' \<and> e = fin) \<or> stops_at stage verdict fs c1 e c'"
      by blast
    moreover have "stops_at stage verdict (f # fs) c e c'" if "stops_at stage verdict fs c1 e c'"
      using that c1 None unfolding stops_at_def by (metis append_Cons through_Cons)
    ultimately show ?thesis
      using c1 None by (auto simp: through_Cons_iff)
  qed
qed

lemma run_spec:
  "run fs c = Inr (e, c') \<longleftrightarrow>
     (through stage verdict fs c c' \<and> e = fin) \<or> stops_at stage verdict fs c e c'"
  using run_complete [of fs c e c'] run_through [of fs c c' "[]"] run_stop [of fs c e c' "[]"]
  by (auto simp: run_Nil)

end

definition data_stage :: "'s BufferTransform \<Rightarrow> 's tstate \<Rightarrow> 's tstate go" where
  "data_stage f st = (case st of (ctx, data, s) \<Rightarrow> f ctx data s)"

definition data_verdict :: "'s tstate \<Rightarrow> goerror option" where
  "data_verdict st =
     (let ctx = fst st in
      if Stat ctx = CodeStopError then Some (Some (errorf (''pipeline terminated: '' @ Msg ctx)))
      else if Stat ctx \<in> {CodeStopNoop, CodeStopCloseSend} then Some None
      else None)"

definition callback_stage :: "'s TargetCallback \<Rightarrow> 's cstate \<Rightarrow> 's cstate go" where
  "callback_stage cb st = (case st of (ctx, pw, s) \<Rightarrow> cb ctx pw s)"

definition callback_verdict :: "'s cstate \<Rightarrow> goerror option" where
  "callback_verdict st =
     (let ctx = fst st in
      if Stat ctx = CodeStopError then Some (Some (errorf (Msg ctx)))
      else if Stat ctx \<in> {CodeStopNoop, CodeStopCloseSend} then Some None
      else None)"

interpretation dp: staged_run run_transforms data_stage data_verdict None
proof
  fix f :: "'s BufferTransform" and fs and st :: "'s tstate"
  obtain ctx data s where st: "st = (ctx, data, s)"
    by (metis prod_cases3)
  show "run_transforms (f # fs) st = gbind (data_stage f st)
      (\<lambda>c'. case data_verdict c' of None \<Rightarrow> run_transforms fs c' | Some e \<Rightarrow> Inr (e, c'))"
    unfolding st run_transforms.simps data_stage_def prod.case
    by (rule gbind_cong) (auto simp: data_verdict_def code_defs)
qed simp

interpretation pp: staged_run run_callbacks callback_stage callback_verdict None
proof
  fix f :: "'s TargetCallback" and fs and st :: "'s cstate"
  obtain ctx pw s where st: "st = (ctx, pw, s)"
    by (metis prod_cases3)
  show "run_callbacks (f # fs) st = gbind (callback_stage f st)
      (\<lambda>c'. case callback_verdict c' of None \<Rightarrow> run_callbacks fs c' | Some e \<Rightarrow> Inr (e, c'))"
    unfolding st run_callbacks.simps callback_stage_def prod.case
    by (rule gbind_cong) (auto simp: callback_verdict_def code_defs)
qed simp

lemma stages_of_update [simp]:
  "stages_of (m(name \<mapsto> fs)) name' = (if name' = name then fs else stages_of m name')"
  by (simp add: stages_of_def)

section \<open>Properties of the pipelines\<close>


text \<open>
  C19: \<open>PacketPipeline.Process\<close> returns the error \<open>target not found\<close>, with context and response
  untouched, exactly for a target nobody registered; for a registered target it runs the callback
  queue first to last up to the first callback that stops it.
\<close>

theorem ProcessPacket_spec:
  fixes pp :: "'s PacketPipeline"
  shows "ProcessPacket pp ctx pw s = Inr (err, st) \<longleftrightarrow>
    (case callbackQueues pp (TargetName ctx) of
       None \<Rightarrow> err = Some ''target not found'' \<and> st = (ctx, pw, s)
     | Some cbs \<Rightarrow>
         (through callback_stage callback_verdict cbs (ctx, pw, s) st \<and> err = None) \<or>
         stops_at callback_stage callback_verdict cbs (ctx, pw, s) err st)"
  by (auto simp: ProcessPacket_def pp.run_spec split: option.split)

text \<open>
  Callbacks run in the order in which they were registered, and registering one for a target
  changes no other target: a run of the extended queue is the run of the old queue, followed by the
  new callback when the old queue did not stop.
\<close>

theorem AddCallback_runs_last:
  fixes pp :: "'s PacketPipeline"
  assumes "callbackQueues pp (TargetName ctx) = Some cbs"
    and "through callback_stage callback_verdict cbs (ctx, pw, s) (ctx', pw', s')"
  shows "ProcessPacket (AddCallback (TargetName ctx) cb pp) ctx pw s =
      run_callbacks [cb] (ctx', pw', s') \<and>
    (name \<noteq> TargetName ctx \<longrightarrow>
      callbackQueues (AddCallback (TargetName ctx) cb pp) name = callbackQueues pp name)"
  using assms(1) pp.run_through [OF assms(2), of "[cb]"]
  by (simp add: ProcessPacket_def AddCallback_def stages_of_def)

definition set_stat :: "int \<Rightarrow> 's TargetCallback" where
  "set_stat code ctx pw s = Inr (ctx\<lparr>Stat := code\<rparr>, pw, s)"

definition write_bytes :: "bytes \<Rightarrow> 's TargetCallback" where
  "write_bytes b ctx pw s = Inr (ctx, Write b pw, s)"

definition demo_ctx :: TargetCtx where
  "demo_ctx = \<lparr>Pkt = None, Stat = 0, Msg = '''', TargetName = ''app.echo'', TargetFrom = ''10.0.0.1:9''\<rparr>"

theorem AddCallback_runs_last_witness:
  "ProcessPacket (AddCallback ''app.echo'' (write_bytes ''b'')
      (AddCallback ''app.echo'' (write_bytes ''a'') NewPacketPipeline)) demo_ctx newJSONPkt () =
    run_callbacks [write_bytes ''b''] (demo_ctx, Write ''a'' newJSONPkt, ())"
proof -
  let ?pp = "AddCallback ''app.echo'' (write_bytes ''a'') NewPacketPipeline :: unit PacketPipeline"
  have "callbackQueues ?pp (TargetName demo_ctx) = Some [write_bytes ''a'']"
    by (simp add: AddCallback_def NewPacketPipeline_def stages_of_def demo_ctx_def)
  moreover have "through callback_stage callback_verdict [write_bytes ''a''] (demo_ctx, newJSONPkt, ())
      (demo_ctx, Write ''a'' newJSONPkt, ())"
    by (simp add: through_Cons_iff callback_stage_def callback_verdict_def write_bytes_def demo_ctx_def
        code_defs)
  ultimately show ?thesis
    using AddCallback_runs_last [of ?pp demo_ctx "[write_bytes ''a'']"] by (simp add: demo_ctx_def)
qed

text \<open>
  A callback that sets \<open>CodeRelay\<close> does not end the queue: the callbacks after it run on the
  context and the response that it left, as if it had continued.
\<close>

theorem relay_status_does_not_stop:
  assumes "cb ctx pw s = Inr (ctx', pw', s')" and "Stat ctx' = CodeRelay"
  shows "run_callbacks (cb # cbs) (ctx, pw, s) = run_callbacks cbs (ctx', pw', s')"
  using assms by (simp add: code_defs)

theorem relay_status_does_not_stop_witness:
  "run_callbacks [set_stat CodeRelay, set_stat CodeStopNoop] (demo_ctx, newJSONPkt, ()) =
    Inr (None, demo_ctx\<lparr>Stat := CodeStopNoop\<rparr>, newJSONPkt, ())"
  using relay_status_does_not_stop [of "set_stat CodeRelay" demo_ctx newJSONPkt "()"
      "demo_ctx\<lparr>Stat := CodeRelay\<rparr>" newJSONPkt "()" "[set_stat CodeStopNoop]"]
  by (simp add: set_stat_def code_defs)

text \<open>
  Locking the data pipeline does not prevent writes: a transform added after \<open>Lock\<close> is appended
  to its pipeline and runs.
\<close>

theorem Lock_does_not_prevent_AddTransform:
  fixes d :: "'s DataPipeline"
  assumes "through data_stage data_verdict (stages_of (pipelines d) (PipelineName ctx)) (ctx, data, s) st"
  shows "ProcessData (AddTransform (PipelineName ctx) f (Lock d)) ctx data s = run_transforms [f] st \<and>
    locked (AddTransform (PipelineName ctx) f (Lock d))"
  using dp.run_through [OF assms, of "[f]"]
  by (simp add: ProcessData_def AddTransform_def Lock_def)

definition demo_tctx :: TransformContext where
  "demo_tctx = \<lparr>Pkt = None, Stat = 0, Msg = '''', PipelineName = ''_in_'', From = ''10.0.0.1:9''\<rparr>"

theorem Lock_does_not_prevent_AddTransform_witness:
  "ProcessData (AddTransform ''_in_'' (\<lambda>ctx data s. Inr (ctx, rev data, s)) (Lock NewDataPipeline))
     demo_tctx ''ab'' () = Inr (None, demo_tctx, ''ba'', ())"
proof -
  let ?d = "NewDataPipeline :: unit DataPipeline"
  have "through data_stage data_verdict (stages_of (pipelines ?d) (PipelineName demo_tctx))
      (demo_tctx, ''ab'', ()) (demo_tctx, ''ab'', ())"
    by (simp add: NewDataPipeline_def stages_of_def)
  from Lock_does_not_prevent_AddTransform [OF this, of "\<lambda>ctx data s. Inr (ctx, rev data, s)"]
  show ?thesis
    by (simp add: demo_tctx_def code_defs)
qed

text \<open>
  C37: the message of a failing callback is used as a format string. A message without a percent sign
  is returned as it is; one that ends in a percent sign is returned with \<open>%!(NOVERB)\<close> in its place.
\<close>

theorem callback_error_text:
  assumes "cb ctx pw s = Inr (ctx', pw', s')" and "Stat ctx' = CodeStopError"
  shows "(CHR ''%'' \<notin> set (Msg ctx') \<longrightarrow>
      run_callbacks (cb # cbs) (ctx, pw, s) = Inr (Some (Msg ctx'), (ctx', pw', s'))) \<and>
    (\<forall>m. Msg ctx' = m @ ''%'' \<and> CHR ''%'' \<notin> set m \<longrightarrow>
      run_callbacks (cb # cbs) (ctx, pw, s) = Inr (Some (m @ ''%!(NOVERB)''), (ctx', pw', s')))"
  using assms by (auto simp: errorf_final_percent)

theorem callback_error_text_witness:
  "run_callbacks [\<lambda>ctx pw s. Inr (ctx\<lparr>Stat := CodeStopError, Msg := ''disk at 100%''\<rparr>, pw, s)]
     (demo_ctx, newJSONPkt, ()) =
   Inr (Some ''disk at 100%!(NOVERB)'',
     (demo_ctx\<lparr>Stat := CodeStopError, Msg := ''disk at 100%''\<rparr>, newJSONPkt, ()))"
  using callback_error_text [of "\<lambda>ctx pw s. Inr (ctx\<lparr>Stat := CodeStopError, Msg := ''disk at 100%''\<rparr>, pw, s)"
      demo_ctx newJSONPkt "()" "demo_ctx\<lparr>Stat := CodeStopError, Msg := ''disk at 100%''\<rparr>" newJSONPkt "()" "[]",
      THEN conjunct2, THEN spec, of "''disk at 100''"]
  by simp

end
