(* ===== verification/Go_Aes_Gcm.thy ===== *)
theory Go_Aes_Gcm
  imports Go_Prelude "HOL-Library.Word"
begin

text \<open>
  \<open>crypto/aes\<close> and \<open>crypto/cipher\<close> as the crypto extension uses them: AES with 128, 192 or 256 bit
  keys (FIPS 197) and the GCM mode with a 12 byte nonce, a 16 byte tag and no additional data
  (NIST SP 800-38D). The interface the extension relies on is the locale \<open>aead\<close>: opening what was
  sealed under the same key and nonce gives the message back. It is interpreted on AES-GCM; secrecy
  and unforgeability are assumptions about the cipher that this development does not state.
\<close>

unbundle bit_operations_syntax

section \<open>Bytes\<close>

definition bxor :: "char \<Rightarrow> char \<Rightarrow> char" where
  "bxor a b = char_of ((of_char a :: nat) XOR of_char b)"

definition xor_bytes :: "bytes \<Rightarrow> bytes \<Rightarrow> bytes" where
  "xor_bytes xs ks = map2 bxor xs ks"

lemma take_bit_of_char [simp]: "take_bit 8 (of_char c :: nat) = of_char c"
  by (simp add: take_bit_nat_eq_self)

lemma bxor_cancel [simp]: "bxor (bxor a b) b = a"
proof -
  have "(of_char (bxor a b) :: nat) = of_char a XOR of_char b"
    by (simp add: bxor_def flip: take_bit_eq_mod [where n = 8, simplified])
  then have "(of_char (bxor (bxor a b) b) :: nat) = of_char a"
    by (simp add: bxor_def [of "bxor a b"] xor.assoc flip: take_bit_eq_mod [where n = 8, simplified])
  then show ?thesis by simp
qed

lemma xor_bytes_cancel: "length xs \<le> length ks \<Longrightarrow> xor_bytes (xor_bytes xs ks) ks = xs"
  by (induction xs ks rule: list_induct2') (auto simp: xor_bytes_def)

lemma length_xor_bytes [simp]: "length (xor_bytes xs ks) = min (length xs) (length ks)"
  by (simp add: xor_bytes_def)

section \<open>AES\<close>

definition sbox :: "nat list" where
  "sbox =
     [0x63, 0x7C, 0x77, 0x7B, 0xF2, 0x6B, 0x6F, 0xC5, 0x30, 0x01, 0x67, 0x2B, 0xFE, 0xD7, 0xAB, 0x76,
      0xCA, 0x82, 0xC9, 0x7D, 0xFA, 0x59, 0x47, 0xF0, 0xAD, 0xD4, 0xA2, 0xAF, 0x9C, 0xA4, 0x72, 0xC0,
      0xB7, 0xFD, 0x93, 0x26, 0x36, 0x3F, 0xF7, 0xCC, 0x34, 0xA5, 0xE5, 0xF1, 0x71, 0xD8, 0x31, 0x15,
      0x04, 0xC7, 0x23, 0xC3, 0x18, 0x96, 0x05, 0x9A, 0x07, 0x12, 0x80, 0xE2, 0xEB, 0x27, 0xB2, 0x75,
      0x09, 0x83, 0x2C, 0x1A, 0x1B, 0x6E, 0x5A, 0xA0, 0x52, 0x3B, 0xD6, 0xB3, 0x29, 0xE3, 0x2F, 0x84,
      0x53, 0xD1, 0x00, 0xED, 0x20, 0xFC, 0xB1, 0x5B, 0x6A, 0xCB, 0xBE, 0x39, 0x4A, 0x4C, 0x58, 0xCF,
      0xD0, 0xEF, 0xAA, 0xFB, 0x43, 0x4D, 0x33, 0x85, 0x45, 0xF9, 0x02, 0x7F, 0x50, 0x3C, 0x9F, 0xA8,
      0x51, 0xA3, 0x40, 0x8F, 0x92, 0x9D, 0x38, 0xF5, 0xBC, 0xB6, 0xDA, 0x21, 0x10, 0xFF, 0xF3, 0xD2,
      0xCD, 0x0C, 0x13, 0xEC, 0x5F, 0x97, 0x44, 0x17, 0xC4, 0xA7, 0x7E, 0x3D, 0x64, 0x5D, 0x19, 0x73,
      0x60, 0x81, 0x4F, 0xDC, 0x22, 0x2A, 0x90, 0x88, 0x46, 0xEE, 0xB8, 0x14, 0xDE, 0x5E, 0x0B, 0xDB,
      0xE0, 0x32, 0x3A, 0x0A, 0x49, 0x06, 0x24, 0x5C, 0xC2, 0xD3, 0xAC, 0x62, 0x91, 0x95, 0xE4, 0x79,
      0xE7, 0xC8, 0x37, 0x6D, 0x8D, 0xD5, 0x4E, 0xA9, 0x6C, 0x56, 0xF4, 0xEA, 0x65, 0x7A, 0xAE, 0x08,
      0xBA, 0x78, 0x25, 0x2E, 0x1C, 0xA6, 0xB4, 0xC6, 0xE8, 0xDD, 0x74, 0x1F, 0x4B, 0xBD, 0x8B, 0x8A,
      0x70, 0x3E, 0xB5, 0x66, 0x48, 0x03, 0xF6, 0x0E, 0x61, 0x35, 0x57, 0xB9, 0x86, 0xC1, 0x1D, 0x9E,
      0xE1, 0xF8, 0x98, 0x11, 0x69, 0xD9, 0x8E, 0x94, 0x9B, 0x1E, 0x87, 0xE9, 0xCE, 0x55, 0x28, 0xDF,
      0x8C, 0xA1, 0x89, 0x0D, 0xBF, 0xE6, 0x42, 0x68, 0x41, 0x99, 0x2D, 0x0F, 0xB0, 0x54, 0xBB, 0x16]"

definition sub_byte :: "nat \<Rightarrow> nat" where
  "sub_byte b = sbox ! (b mod 256)"

definition xtime :: "nat \<Rightarrow> nat" where
  "xtime b = (if b < 128 then 2 * b else (2 * b) XOR 0x11B)"

text \<open>A state is 16 bytes, column by column: row \<open>r\<close> of column \<open>c\<close> is at \<open>r + 4 * c\<close>.\<close>

definition sub_bytes :: "nat list \<Rightarrow> nat list" where
  "sub_bytes s = map sub_byte s"

definition shift_rows :: "nat list \<Rightarrow> nat list" where
  "shift_rows s = map (\<lambda>i. s ! (i mod 4 + 4 * ((i div 4 + i mod 4) mod 4))) [0..<16]"

definition mix_columns :: "nat list \<Rightarrow> nat list" where
  "mix_columns s =
     map (\<lambda>i. let c = 4 * (i div 4); r = i mod 4;
                  b0 = s ! (c + r); b1 = s ! (c + (r + 1) mod 4);
                  b2 = s ! (c + (r + 2) mod 4); b3 = s ! (c + (r + 3) mod 4)
              in xtime b0 XOR (xtime b1 XOR b1) XOR b2 XOR b3) [0..<16]"

definition add_round_key :: "nat list \<Rightarrow> nat list \<Rightarrow> nat list" where
  "add_round_key k s = map2 (XOR) s k"

definition rcon :: "nat list" where
  "rcon = [0x01, 0x02, 0x04, 0x08, 0x10, 0x20, 0x40, 0x80, 0x1B, 0x36]"

text \<open>The key schedule: words of four bytes; \<open>nk\<close> is the length of the key in words.\<close>

definition next_word :: "nat \<Rightarrow> nat list list \<Rightarrow> nat list" where
  "next_word nk ws =
     (let i = length ws; t = last ws;
          t' = (if i mod nk = 0 then
                  (case map sub_byte (rotate1 t) of
                     [] \<Rightarrow> [] | b # bs \<Rightarrow> (b XOR rcon ! (i div nk - 1)) # bs)
                else if 6 < nk \<and> i mod nk = 4 then map sub_byte t
                else t)
      in map2 (XOR) (ws ! (i - nk)) t')"

fun key_words :: "nat \<Rightarrow> nat \<Rightarrow> nat list list \<Rightarrow> nat list list" where
  "key_words nk 0 ws = ws"
| "key_words nk (Suc n) ws = key_words nk n (ws @ [next_word nk ws])"

definition round_keys :: "bytes \<Rightarrow> nat list list" where
  "round_keys key =
     (let nk = length key div 4; nr = nk + 6; ks = map of_char key;
          ws = key_words nk (4 * (nr + 1) - nk) (map (\<lambda>i. take 4 (drop (4 * i) ks)) [0..<nk])
      in map (\<lambda>i. concat (take 4 (drop (4 * i) ws))) [0..<nr + 1])"

fun aes_rounds :: "nat list list \<Rightarrow> nat list \<Rightarrow> nat list" where
  "aes_rounds [] s = s"
| "aes_rounds [k] s = add_round_key k (shift_rows (sub_bytes s))"
| "aes_rounds (k # ks) s = aes_rounds ks (add_round_key k (mix_columns (shift_rows (sub_bytes s))))"

definition aes_block :: "bytes \<Rightarrow> bytes \<Rightarrow> bytes" where
  "aes_block key b =
     (let ks = round_keys key;
          s = aes_rounds (tl ks) (add_round_key (hd ks) (map of_char b))
      in map (\<lambda>i. char_of (s ! i)) [0..<16])"

lemma length_aes_block [simp]: "length (aes_block key b) = 16"
  by (simp add: aes_block_def Let_def)

section \<open>GCM\<close>

definition be_nat :: "bytes \<Rightarrow> nat" where
  "be_nat bs = foldl (\<lambda>a b. a * 256 + of_char b) 0 bs"

definition be_bytes :: "nat \<Rightarrow> nat \<Rightarrow> bytes" where
  "be_bytes n v = map (\<lambda>i. char_of (v div 256 ^ (n - 1 - i))) [0..<n]"

lemma length_be_bytes [simp]: "length (be_bytes n v) = n"
  by (simp add: be_bytes_def)

text \<open>Multiplication in the field of 128 bit blocks; the leftmost bit of a block is the coefficient of 1.\<close>

fun gf_mul_loop :: "nat \<Rightarrow> nat \<Rightarrow> nat \<Rightarrow> nat \<Rightarrow> nat" where
  "gf_mul_loop 0 x v z = z"
| "gf_mul_loop (Suc n) x v z =
     gf_mul_loop n x
       (if odd v then (v div 2) XOR 0xE1000000000000000000000000000000 else v div 2)
       (if odd (x div 2 ^ n) then z XOR v else z)"

definition gf_mul :: "nat \<Rightarrow> nat \<Rightarrow> nat" where
  "gf_mul x y = gf_mul_loop 128 x y 0"

fun ghash_blocks :: "nat \<Rightarrow> nat \<Rightarrow> nat \<Rightarrow> bytes \<Rightarrow> nat" where
  "ghash_blocks 0 h y c = y"
| "ghash_blocks (Suc n) h y c =
     ghash_blocks n h (gf_mul (y XOR be_nat (take 16 (take 16 c @ replicate 16 CHR 0x00))) h) (drop 16 c)"

definition ghash :: "nat \<Rightarrow> bytes \<Rightarrow> nat" where
  "ghash h c = gf_mul (ghash_blocks ((length c + 15) div 16) h 0 c XOR 8 * length c) h"

definition gcm_counter :: "bytes \<Rightarrow> nat \<Rightarrow> bytes" where
  "gcm_counter nonce i = nonce @ be_bytes 4 (i mod 2 ^ 32)"

definition keystream :: "bytes \<Rightarrow> bytes \<Rightarrow> nat \<Rightarrow> bytes" where
  "keystream key nonce n =
     concat (map (\<lambda>i. aes_block key (gcm_counter nonce (i + 2))) [0..<(n + 15) div 16])"

definition gcm_tag :: "bytes \<Rightarrow> bytes \<Rightarrow> bytes \<Rightarrow> bytes" where
  "gcm_tag key nonce c =
     xor_bytes (be_bytes 16 (ghash (be_nat (aes_block key (replicate 16 CHR 0x00))) c))
       (aes_block key (gcm_counter nonce 1))"

definition gcm_limit :: nat where
  "gcm_limit = (2 ^ 32 - 2) * 16"

text \<open>\<open>Seal\<close> without its destination prefix; it panics on a message above the limit of GCM.\<close>

definition gcm_seal :: "bytes \<Rightarrow> bytes \<Rightarrow> bytes \<Rightarrow> bytes go" where
  "gcm_seal key nonce m =
     (if gcm_limit < length m then Inl MessageTooLarge
      else let c = xor_bytes m (keystream key nonce (length m)) in Inr (c @ gcm_tag key nonce c))"

definition gcm_open :: "bytes \<Rightarrow> bytes \<Rightarrow> bytes \<Rightarrow> bytes option" where
  "gcm_open key nonce ct =
     (let n = length ct - 16; c = take n ct; tag = drop n ct in
      if length ct < 16 \<or> gcm_limit + 16 < length ct then None
      else if tag = gcm_tag key nonce c then Some (xor_bytes c (keystream key nonce (length c)))
      else None)"

section \<open>The interface\<close>

locale aead =
  fixes seal :: "bytes \<Rightarrow> bytes \<Rightarrow> bytes \<Rightarrow> bytes go"
    and unseal :: "bytes \<Rightarrow> bytes \<Rightarrow> bytes \<Rightarrow> bytes option"
    and limit :: nat
  assumes seal_small: "length m \<le> limit \<Longrightarrow> \<exists>c. seal key nonce m = Inr c"
    and unseal_seal: "seal key nonce m = Inr c \<Longrightarrow> unseal key nonce c = Some m"
    and seal_large: "limit < length m \<Longrightarrow> seal key nonce m = Inl MessageTooLarge"
begin

lemma seal_inj: "seal key nonce m = Inr c \<Longrightarrow> seal key nonce m' = Inr c \<Longrightarrow> m = m'"
  by (metis option.inject unseal_seal)

lemma seal_total:
  "length m \<le> limit \<Longrightarrow> \<exists>c. seal key nonce m = Inr c \<and> unseal key nonce c = Some m"
  using seal_small unseal_seal by blast

end

lemma length_keystream: "n \<le> length (keystream key nonce n)"
proof -
  have "length (keystream key nonce n) = (n + 15) div 16 * 16"
    by (simp add: keystream_def length_concat comp_def sum_list_triv)
  also have "n \<le> \<dots>"
    by linarith
  finally show ?thesis .
qed

lemma length_gcm_tag [simp]: "length (gcm_tag key nonce c) = 16"
  by (simp add: gcm_tag_def)

interpretation gcm: aead gcm_seal gcm_open gcm_limit
proof
  fix key nonce m c
  show "\<exists>c. gcm_seal key nonce m = Inr c" if "length m \<le> gcm_limit"
    using that by (simp add: gcm_seal_def Let_def)
  show "gcm_seal key nonce m = Inl MessageTooLarge" if "gcm_limit < length m"
    using that by (simp add: gcm_seal_def)
  assume "gcm_seal key nonce m = Inr c"
  then have small: "length m \<le> gcm_limit"
    and c: "c = xor_bytes m (keystream key nonce (length m)) @
      gcm_tag key nonce (xor_bytes m (keystream key nonce (length m)))"
    by (auto simp: gcm_seal_def Let_def split: if_splits)
  have "length (xor_bytes m (keystream key nonce (length m))) = length m"
    using length_keystream [of "length m" key nonce] by simp
  then show "gcm_open key nonce c = Some m"
    using small length_keystream [of "length m" key nonce]
    by (simp add: gcm_open_def c Let_def xor_bytes_cancel)
qed

end
