(* ===== verification/Go_P256.thy ===== *)
theory Go_P256
  imports Go_Fmt
begin

text \<open>
  \<open>crypto/elliptic\<close> (curve P-256), \<open>math/big\<close> and the JSON form of a public key, as the crypto
  extension uses them.

  \<open>ScalarMult\<close> is double-and-add on affine coordinates; a nil coordinate panics, and a point that is
  neither on the curve nor the pair \<open>(0, 0)\<close>, which stands for the point at infinity, panics as well.
  That the curve is a commutative group is not proved here: what key exchange needs of it, that the
  two orders of multiplication give the same point, is the predicate \<open>ecdh_agree\<close> on two private
  keys.
\<close>

section \<open>The curve\<close>

definition p256_p :: int where
  "p256_p = 0xFFFFFFFF00000001000000000000000000000000FFFFFFFFFFFFFFFFFFFFFFFF"

definition p256_b :: int where
  "p256_b = 0x5AC635D8AA3A93E7B3EBBD55769886BC651D06B0CC53B0F63BCE3C3E27D2604B"

definition p256_Gx :: int where
  "p256_Gx = 0x6B17D1F2E12C4247F8BCE6E563A440F277037D812DEB33A0F4A13945D898C296"

definition p256_Gy :: int where
  "p256_Gy = 0x4FE342E2FE1A7F9B8EE7EB4A7C0F9E162BCE33576B315ECECBB6406837BF51F5"

datatype point = Infinity | Affine int int

definition on_curve :: "int \<Rightarrow> int \<Rightarrow> bool" where
  "on_curve x y \<longleftrightarrow>
     0 \<le> x \<and> x < p256_p \<and> 0 \<le> y \<and> y < p256_p \<and>
     (y * y) mod p256_p = (x * x * x - 3 * x + p256_b) mod p256_p"

fun pow_mod :: "int \<Rightarrow> nat \<Rightarrow> int \<Rightarrow> int" where
  "pow_mod a n m =
     (if n = 0 then 1 mod m
      else let h = pow_mod (a * a mod m) (n div 2) m in if odd n then a * h mod m else h)"

declare pow_mod.simps [simp del]

definition inv_mod :: "int \<Rightarrow> int" where
  "inv_mod a = pow_mod (a mod p256_p) (nat (p256_p - 2)) p256_p"

definition chord :: "int \<Rightarrow> int \<Rightarrow> int \<Rightarrow> int \<Rightarrow> point" where
  "chord l x1 y1 x2 =
     (let x3 = (l * l - x1 - x2) mod p256_p in Affine x3 ((l * (x1 - x3) - y1) mod p256_p))"

fun ec_add :: "point \<Rightarrow> point \<Rightarrow> point" where
  "ec_add Infinity q = q"
| "ec_add p Infinity = p"
| "ec_add (Affine x1 y1) (Affine x2 y2) =
     (if x1 = x2 then
        (if (y1 + y2) mod p256_p = 0 then Infinity
         else chord ((3 * x1 * x1 - 3) * inv_mod (2 * y1) mod p256_p) x1 y1 x2)
      else chord ((y2 - y1) * inv_mod (x2 - x1) mod p256_p) x1 y1 x2)"

fun ec_mul :: "nat \<Rightarrow> point \<Rightarrow> point" where
  "ec_mul k p =
     (if k = 0 then Infinity
      else let h = ec_mul (k div 2) p; d = ec_add h h in if odd k then ec_add d p else d)"

declare ec_mul.simps [simp del]

section \<open>Big integers\<close>

text \<open>A \<open>*big.Int\<close>: \<open>None\<close> is nil.\<close>

type_synonym bigint = "int option"

text \<open>\<open>Bytes\<close>: the absolute value, big-endian, without leading zero bytes.\<close>

fun nat_bytes :: "nat \<Rightarrow> bytes" where
  "nat_bytes n = (if n = 0 then [] else nat_bytes (n div 256) @ [char_of (n mod 256)])"

declare nat_bytes.simps [simp del]

definition big_Bytes :: "int \<Rightarrow> bytes" where
  "big_Bytes x = nat_bytes (nat \<bar>x\<bar>)"

lemma nat_bytes_length: "length (nat_bytes n) \<le> k \<longleftrightarrow> n < 256 ^ k"
proof (induction n arbitrary: k rule: nat_bytes.induct)
  case (1 n)
  show ?case
  proof (cases "n = 0")
    case True
    then show ?thesis by (simp add: nat_bytes.simps)
  next
    case False
    show ?thesis
    proof (cases k)
      case 0
      then show ?thesis using False by (simp add: nat_bytes.simps [of n])
    next
      case (Suc j)
      have "length (nat_bytes n) \<le> k \<longleftrightarrow> length (nat_bytes (n div 256)) \<le> j"
        using False Suc by (simp add: nat_bytes.simps [of n])
      also have "\<dots> \<longleftrightarrow> n div 256 < 256 ^ j"
        by (rule "1.IH" [OF False])
      also have "\<dots> \<longleftrightarrow> n < 256 ^ k"
        unfolding Suc by (simp add: div_less_iff_less_mult mult.commute)
      finally show ?thesis .
    qed
  qed
qed

section \<open>Scalar multiplication\<close>

definition from_affine :: "int \<Rightarrow> int \<Rightarrow> point option" where
  "from_affine x y =
     (if x = 0 \<and> y = 0 then Some Infinity
      else if on_curve x y then Some (Affine x y) else None)"

definition to_affine :: "point \<Rightarrow> int \<times> int" where
  "to_affine q = (case q of Infinity \<Rightarrow> (0, 0) | Affine x y \<Rightarrow> (x, y))"

definition ScalarMult :: "bigint \<Rightarrow> bigint \<Rightarrow> nat \<Rightarrow> (int \<times> int) go" where
  "ScalarMult bx by' k =
     (case (bx, by') of
        (Some x, Some y) \<Rightarrow>
          (case from_affine x y of
             None \<Rightarrow> Inl NotOnCurve
           | Some q \<Rightarrow> Inr (to_affine (ec_mul k q)))
      | _ \<Rightarrow> Inl NilDeref)"

text \<open>A private key as \<open>ecdsa.GenerateKey\<close> makes it: the scalar and its public point.\<close>

record PrivateKey =
  privD :: nat
  privX :: bigint
  privY :: bigint

definition public_point :: "nat \<Rightarrow> point" where
  "public_point d = ec_mul d (Affine p256_Gx p256_Gy)"

definition private_key :: "nat \<Rightarrow> PrivateKey" where
  "private_key d =
     (let (x, y) = to_affine (public_point d) in \<lparr>privD = d, privX = Some x, privY = Some y\<rparr>)"

text \<open>What Diffie-Hellman needs of two private keys: both public points are points of the curve, and
  multiplying either with the other scalar gives the same point.\<close>

definition ecdh_agree :: "nat \<Rightarrow> nat \<Rightarrow> bool" where
  "ecdh_agree a b \<longleftrightarrow>
     (case (public_point a, public_point b) of
        (Affine xa ya, Affine xb yb) \<Rightarrow>
          on_curve xa ya \<and> on_curve xb yb \<and>
          ec_mul b (public_point a) = ec_mul a (public_point b)
      | _ \<Rightarrow> False)"

lemma ecdh_agree_sym: "ecdh_agree a b \<longleftrightarrow> ecdh_agree b a"
  by (auto simp: ecdh_agree_def split: point.splits)

lemma on_curve_not_zero: "on_curve x y \<Longrightarrow> \<not> (x = 0 \<and> y = 0)"
  by (auto simp: on_curve_def p256_b_def p256_p_def)

lemma from_affine_public:
  assumes "public_point a = Affine x y" and "on_curve x y"
  shows "private_key a = \<lparr>privD = a, privX = Some x, privY = Some y\<rparr>"
    and "from_affine x y = Some (public_point a)"
  using assms on_curve_not_zero [OF assms(2)] by (auto simp: private_key_def to_affine_def from_affine_def)

lemma ecdh_shared:
  assumes "ecdh_agree a b"
  shows "\<exists>s. ScalarMult (privX (private_key a)) (privY (private_key a)) b = Inr s \<and>
    ScalarMult (privX (private_key b)) (privY (private_key b)) a = Inr s"
proof -
  obtain xa ya xb yb where "public_point a = Affine xa ya" "on_curve xa ya"
    "public_point b = Affine xb yb" "on_curve xb yb"
    and same: "ec_mul b (public_point a) = ec_mul a (public_point b)"
    using assms by (auto simp: ecdh_agree_def split: point.splits)
  then show ?thesis
    using from_affine_public [of a xa ya] from_affine_public [of b xb yb]
    by (auto simp: ScalarMult_def)
qed

lemma ec_mul_1: "ec_mul 1 q = q"
  by (simp add: ec_mul.simps [of "Suc 0"] ec_mul.simps [of 0])

lemma base_on_curve: "on_curve p256_Gx p256_Gy"
  by (simp add: on_curve_def p256_Gx_def p256_Gy_def p256_p_def p256_b_def)

text \<open>The condition is satisfiable: it holds of the scalar 1 with itself.\<close>

lemma ecdh_agree_base: "ecdh_agree 1 1"
  unfolding ecdh_agree_def public_point_def ec_mul_1 by (simp add: base_on_curve)

end
