(* ===== verification/Crypto.thy ===== *)
theory Crypto
  imports Pipeline Go_Aes_Gcm Go_P256
begin

text \<open>
  The crypto extension (\<open>src/core/crypto\<close>): the AES helpers, the key store, the transport encryption
  and decryption stages of the data pipelines, the two key-exchange callbacks of the server, and the
  client's side of the exchange.

  The closures of the extension capture the \<open>Crypto\<close> object and read random bytes: these are the
  fields of \<open>CryptoState\<close>, which the state of a server or a client extends. A \<open>*keyStore\<close> is reached
  through the map only, so the map holds the key stores themselves.
\<close>

section \<open>Random bytes\<close>

text \<open>
  The source of random bytes is an oracle: the \<open>n\<close>-th read either fails with an error text or yields
  bytes. \<open>ReadFull\<close> fills the buffer it is given, so its result has the length asked for.
\<close>

record Rand =
  draws :: "nat \<Rightarrow> string + bytes"
  drawn :: nat

definition ReadFull :: "nat \<Rightarrow> Rand \<Rightarrow> (string + bytes) \<times> Rand" where
  "ReadFull n r =
     ((case draws r (drawn r) of
         Inl e \<Rightarrow> Inl e
       | Inr b \<Rightarrow> Inr (take n (b @ replicate n CHR 0x00))),
      r\<lparr>drawn := drawn r + 1\<rparr>)"

section \<open>AES helpers\<close>

definition aes_key_ok :: "bytes \<Rightarrow> bool" where
  "aes_key_ok key \<longleftrightarrow> length key \<in> {16, 24, 32}"

definition key_size_error :: "bytes \<Rightarrow> string" where
  "key_size_error key = ''crypto/aes: invalid key size '' @ dec_nat (length key)"

definition encryptAES :: "bytes \<Rightarrow> bytes \<Rightarrow> Rand \<Rightarrow> (bytes \<times> goerror \<times> Rand) go" where
  "encryptAES key data r =
     (if \<not> aes_key_ok key
      then Inr (data, Some (errorf (''cipher init fail: '' @ key_size_error key)), r)
      else case ReadFull 12 r of
        (Inl e, r') \<Rightarrow> Inr (data, Some (errorf (''nonce gen fail: '' @ e)), r')
      | (Inr nonce, r') \<Rightarrow> gbind (gcm_seal key nonce data) (\<lambda>c. Inr (nonce @ c, None, r')))"

definition decryptAES :: "bytes \<Rightarrow> bytes \<Rightarrow> (bytes \<times> goerror) go" where
  "decryptAES key data =
     (if \<not> aes_key_ok key
      then Inr (data, Some (errorf (''cipher init fail: '' @ key_size_error key)))
      else if length data < 12 then Inl SliceBounds
      else case gcm_open key (take 12 data) (drop 12 data) of
        None \<Rightarrow> Inr (data, Some (errorf (''decrypt fail: '' @ ''cipher: message authentication failed'')))
      | Some decrypted \<Rightarrow> Inr (decrypted, None))"

section \<open>Keys\<close>

record PublicKey =
  pkX :: bigint
  pkY :: bigint

definition big_json :: "bigint \<Rightarrow> bytes" where
  "big_json v = (case v of None \<Rightarrow> ''null'' | Some i \<Rightarrow> dec_int i)"

definition marshalPublicKey :: "PublicKey \<Rightarrow> bytes" where
  "marshalPublicKey pk =
     CHR ''{'' # json_quote ''x'' @ CHR '':'' # big_json (pkX pk) @
     CHR '','' # json_quote ''y'' @ CHR '':'' # big_json (pkY pk) @ ''}''"

text \<open>\<open>big.Int.UnmarshalJSON\<close>: an integer in decimal; \<open>null\<close> makes the pointer nil.\<close>

definition big_parse :: "bytes \<Rightarrow> int option" where
  "big_parse s =
     (let (neg, ds) = (case s of [] \<Rightarrow> (False, s) | c # r \<Rightarrow> if c = CHR ''-'' then (True, r) else (False, s))
      in if ds \<noteq> [] \<and> list_all is_digit ds
         then Some (if neg then - int (dec_val ds) else int (dec_val ds)) else None)"

fun store_big :: "json \<Rightarrow> bigint option" where
  "store_big JNull = Some None"
| "store_big (JNum t) = map_option Some (big_parse t)"
| "store_big _ = None"

fun store_pk :: "(string \<times> json) list \<Rightarrow> PublicKey \<Rightarrow> PublicKey option" where
  "store_pk [] pk = Some pk"
| "store_pk ((key, v) # ms) pk =
     (if is_field ''x'' ''X'' key then
        (case store_big v of None \<Rightarrow> None | Some b \<Rightarrow> store_pk ms (pk\<lparr>pkX := b\<rparr>))
      else if is_field ''y'' ''Y'' key then
        (case store_big v of None \<Rightarrow> None | Some b \<Rightarrow> store_pk ms (pk\<lparr>pkY := b\<rparr>))
      else store_pk ms pk)"

text \<open>\<open>json.Unmarshal\<close> into a zero \<open>PublicKey\<close>; \<open>None\<close> is any error.\<close>

definition unmarshalPublicKey :: "bytes \<Rightarrow> PublicKey option" where
  "unmarshalPublicKey b =
     (case json_parse b of
        Some JNull \<Rightarrow> Some \<lparr>pkX = None, pkY = None\<rparr>
      | Some (JObj ms) \<Rightarrow> store_pk ms \<lparr>pkX = None, pkY = None\<rparr>
      | _ \<Rightarrow> None)"

record keyStore =
  keySent :: bool
  shared :: int
  public :: PublicKey

record Crypto =
  keys :: "string \<rightharpoonup> keyStore"
  privKey :: PrivateKey
  publicKey :: bytes

record CryptoState =
  crypto :: Crypto
  rand :: Rand

text \<open>\<open>NewCrypto\<close>; \<open>gen\<close> is the outcome of \<open>ecdsa.GenerateKey\<close>, called only without a key.\<close>

definition NewCrypto :: "PrivateKey option \<Rightarrow> string + PrivateKey \<Rightarrow> string + Crypto" where
  "NewCrypto key gen =
     (case (case key of Some k \<Rightarrow> Inr k | None \<Rightarrow> gen) of
        Inl e \<Rightarrow> Inl e
      | Inr k \<Rightarrow> Inr \<lparr>keys = Map.empty, privKey = k,
          publicKey = marshalPublicKey \<lparr>pkX = privX k, pkY = privY k\<rparr>\<rparr>)"

definition computeSharedKey :: "Crypto \<Rightarrow> PublicKey \<Rightarrow> int go" where
  "computeSharedKey cr pk =
     gbind (ScalarMult (pkX pk) (pkY pk) (privD (privKey cr))) (\<lambda>(x, y). Inr x)"

definition setKeyStore :: "string \<Rightarrow> keyStore \<Rightarrow> Crypto \<Rightarrow> Crypto" where
  "setKeyStore addr ks cr = cr\<lparr>keys := (keys cr)(addr \<mapsto> ks)\<rparr>"

definition getKeyStore :: "string \<Rightarrow> Crypto \<Rightarrow> keyStore option" where
  "getKeyStore addr cr = keys cr addr"

definition getKeySent :: "keyStore \<Rightarrow> bool" where
  "getKeySent ks = keySent ks"

definition setKeySent :: "bool \<Rightarrow> keyStore \<Rightarrow> keyStore" where
  "setKeySent b ks = ks\<lparr>keySent := b\<rparr>"

definition IsKeyExchanged :: "string \<Rightarrow> Crypto \<Rightarrow> bool" where
  "IsKeyExchanged addr cr \<longleftrightarrow> getKeyStore addr cr \<noteq> None"

section \<open>Transport encryption\<close>

definition KeyNoCrypto :: string where "KeyNoCrypto = ''_no_crypto''"

definition skips_crypto :: "string \<Rightarrow> bool" where
  "skips_crypto v \<longleftrightarrow> v \<in> {''true'', ''t'', ''yes'', ''y'', ''1''}"

definition encryptTransport :: "'z CryptoState_scheme BufferTransform" where
  "encryptTransport ctx b s =
     (case Pkt ctx of
        None \<Rightarrow> Inl NilDeref
      | Some p \<Rightarrow>
          if skips_crypto (MetaGet KeyNoCrypto p) then Inr (ctx, b, s)
          else case getKeyStore (Dest p) (crypto s) of
            None \<Rightarrow> Inr (ctx, b, s)
          | Some k \<Rightarrow>
              if \<not> getKeySent k
              then Inr (ctx, b, s\<lparr>crypto := setKeyStore (Dest p) (setKeySent True k) (crypto s)\<rparr>)
              else gbind (encryptAES (big_Bytes (shared k)) b (rand s)) (\<lambda>(ciphertext, err, r).
                case err of
                  Some e \<Rightarrow>
                    Inr (ctx\<lparr>Stat := CodeStopError, Msg := ''encryption error: '' @ e\<rparr>, b, s\<lparr>rand := r\<rparr>)
                | None \<Rightarrow> Inr (ctx, ciphertext, s\<lparr>rand := r\<rparr>)))"

definition decryptTransport :: "'z CryptoState_scheme BufferTransform" where
  "decryptTransport ctx b s =
     (case getKeyStore (From ctx) (crypto s) of
        None \<Rightarrow> Inr (ctx, b, s)
      | Some k \<Rightarrow>
          gbind (decryptAES (big_Bytes (shared k)) b) (\<lambda>(decrypted, err).
            case err of Some e \<Rightarrow> Inr (ctx, b, s) | None \<Rightarrow> Inr (ctx, decrypted, s)))"

section \<open>Key exchange on the server\<close>

definition TargetKeyExchangeServer :: string where "TargetKeyExchangeServer = ''crypto.kex-cs''"
definition TargetKeyExchangeClient :: string where "TargetKeyExchangeClient = ''crypto.kex-cc''"

definition keyExchangeServer :: "'z CryptoState_scheme TargetCallback" where
  "keyExchangeServer ctx pw s =
     (case Pkt ctx of
        None \<Rightarrow> Inl NilDeref
      | Some p \<Rightarrow>
          (case unmarshalPublicKey (Data p) of
             None \<Rightarrow> Inr (ctx\<lparr>Stat := CodeStopError, Msg := ''malformed packet''\<rparr>, pw, s)
           | Some pk \<Rightarrow>
               gbind (computeSharedKey (crypto s) pk) (\<lambda>k.
               let s' = s\<lparr>crypto := setKeyStore (TargetFrom ctx)
                            \<lparr>keySent = False, shared = k, public = pk\<rparr> (crypto s)\<rparr>
               in gbind (MetaAdd KeyNoCrypto ''true'' pw) (\<lambda>pw'.
                  Inr (ctx\<lparr>Stat := CodeStopCloseSend\<rparr>, Write (publicKey (crypto s')) pw', s')))))"

text \<open>\<open>json.Unmarshal\<close> into \<open>struct { IP string }\<close>; names match without regard to case.\<close>

definition unmarshalIP :: "bytes \<Rightarrow> string option" where
  "unmarshalIP b = unmarshal_string [''ip'', ''Ip'', ''iP'', ''IP''] b"

definition keyExchangeClient :: "'z CryptoState_scheme TargetCallback" where
  "keyExchangeClient ctx pw s =
     (case Pkt ctx of
        None \<Rightarrow> Inl NilDeref
      | Some p \<Rightarrow>
          (case unmarshalIP (Data p) of
             None \<Rightarrow> Inr (ctx\<lparr>Stat := CodeStopError, Msg := ''malformed packet''\<rparr>, pw, s)
           | Some ip \<Rightarrow>
               (case getKeyStore ip (crypto s) of
                  None \<Rightarrow> Inr (ctx\<lparr>Stat := CodeStopError, Msg := ''client non-existent''\<rparr>, pw, s)
                | Some k \<Rightarrow>
                    gbind (MetaAdd KeyNoCrypto ''true'' pw) (\<lambda>pw'.
                      Inr (ctx, Write (marshalPublicKey (public k)) pw', s)))))"

section \<open>Installation\<close>

record 's Processor =
  dataP :: "'s DataPipeline"
  packetP :: "'s PacketPipeline"

definition installOnServer ::
  "'z CryptoState_scheme Processor \<Rightarrow> 'z CryptoState_scheme Processor \<times> goerror" where
  "installOnServer p =
     (p\<lparr>packetP := AddCallback TargetKeyExchangeClient keyExchangeClient
         (AddCallback TargetKeyExchangeServer keyExchangeServer (packetP p))\<rparr>, None)"

definition installOnClient ::
  "'z CryptoState_scheme Processor \<Rightarrow> 'z CryptoState_scheme Processor \<times> goerror" where
  "installOnClient p = (p, None)"

definition Extend ::
  "string \<Rightarrow> 'z CryptoState_scheme Processor \<Rightarrow> 'z CryptoState_scheme Processor \<times> goerror" where
  "Extend kind p =
     (let p1 = p\<lparr>dataP := AddTransform ''_out_'' encryptTransport
                   (AddTransform ''_in_'' decryptTransport (dataP p))\<rparr>
      in if kind = ''server'' then
           (case installOnServer p1 of
              (p2, Some e) \<Rightarrow> (p2, Some (errorf (''error installing on server: '' @ e)))
            | (p2, None) \<Rightarrow> (p2, None))
         else if kind = ''client'' then
           (case installOnClient p1 of
              (p2, Some e) \<Rightarrow> (p2, Some (errorf (''error installing on client: '' @ e)))
            | (p2, None) \<Rightarrow> (p2, None))
         else (p1, Some (errorf (''unknown processor kind: '' @ dquote # kind @ [dquote]))))"

section \<open>The client's side\<close>

definition ConfigureKeyExClientPkt :: "string \<Rightarrow> JSONPkt \<Rightarrow> JSONPkt go" where
  "ConfigureKeyExClientPkt addr pw =
     gbind (MetaAdd KeyTarget TargetKeyExchangeClient (Clear pw)) (\<lambda>pw1.
       Inr (Close (Write (CHR ''{'' # dquote # ''ip'' @ dquote # CHR '':'' # dquote # addr @ dquote # ''}'') pw1)))"

definition ConfigureKeyExServerPkt :: "Crypto \<Rightarrow> JSONPkt \<Rightarrow> JSONPkt go" where
  "ConfigureKeyExServerPkt cr pw =
     gbind (MetaAdd KeyTarget TargetKeyExchangeServer (Clear pw)) (\<lambda>pw1.
       Inr (Close (Write (publicKey cr) pw1)))"

definition EncryptFor :: "string \<Rightarrow> bytes \<Rightarrow> Crypto \<Rightarrow> Rand \<Rightarrow> ((string + bytes) \<times> Rand) go" where
  "EncryptFor addr data cr r =
     (case getKeyStore addr cr of
        None \<Rightarrow> Inr (Inl (errorf ''keys not exchanged''), r)
      | Some ks \<Rightarrow>
          gbind (encryptAES (big_Bytes (shared ks)) data r) (\<lambda>(encrypted, err, r').
            case err of
              Some e \<Rightarrow> Inr (Inl (errorf (''encryption error: '' @ e)), r')
            | None \<Rightarrow> Inr (Inr encrypted, r')))"

definition DecryptFrom :: "string \<Rightarrow> bytes \<Rightarrow> Crypto \<Rightarrow> (string + bytes) go" where
  "DecryptFrom addr data cr =
     (case getKeyStore addr cr of
        None \<Rightarrow> Inr (Inl (errorf ''keys not exchanged''))
      | Some ks \<Rightarrow>
          gbind (decryptAES (big_Bytes (shared ks)) data) (\<lambda>(decrypted, err).
            case err of
              Some e \<Rightarrow> Inr (Inl (errorf (''encryption error: '' @ e)))
            | None \<Rightarrow> Inr (Inr decrypted)))"

definition EncryptE2E :: "string \<Rightarrow> JSONPkt \<Rightarrow> Crypto \<Rightarrow> Rand \<Rightarrow> (goerror \<times> JSONPkt \<times> Rand) go" where
  "EncryptE2E to' pkt cr r =
     gbind (EncryptFor to' (Data pkt) cr r) (\<lambda>(res, r').
       case res of
         Inl e \<Rightarrow> Inr (Some (''e2e encrypt error: '' @ e), pkt, r')
       | Inr encrypted \<Rightarrow> Inr (None, Close (Write encrypted (Clear pkt)), r'))"

definition DecryptE2E :: "string \<Rightarrow> JSONPkt \<Rightarrow> Crypto \<Rightarrow> (goerror \<times> JSONPkt) go" where
  "DecryptE2E sender pkt cr =
     gbind (DecryptFrom sender (Data pkt) cr) (\<lambda>res.
       case res of
         Inl e \<Rightarrow> Inr (Some (''e2e decrypt error: '' @ e), pkt)
       | Inr decrypted \<Rightarrow> Inr (None, Close (Write decrypted (Clear pkt))))"

text \<open>\<open>ProcessKeyExResp\<close>; the text of a decoding error is that of \<open>encoding/json\<close> and is not
  modelled: a decoding error is \<open>Inl ()\<close>.\<close>

definition ProcessKeyExResp :: "string \<Rightarrow> JSONPkt \<Rightarrow> Crypto \<Rightarrow> (unit + Crypto) go" where
  "ProcessKeyExResp addr resp cr =
     (case unmarshalPublicKey (Data resp) of
        None \<Rightarrow> Inr (Inl ())
      | Some pk \<Rightarrow>
          gbind (computeSharedKey cr pk) (\<lambda>k.
            Inr (Inr (setKeyStore addr \<lparr>keySent = True, shared = k, public = pk\<rparr> cr))))"

section \<open>Encrypting and decrypting\<close>

lemma ReadFull_length: "ReadFull n r = (Inr b, r') \<Longrightarrow> length b = n"
  by (auto simp: ReadFull_def split: sum.splits)

lemma decryptAES_encryptAES:
  assumes "encryptAES key data r = Inr (c, None, r')"
  shows "decryptAES key c = Inr (data, None)"
proof -
  obtain nonce ct where ok: "aes_key_ok key" and n: "ReadFull 12 r = (Inr nonce, r')"
    and ct: "gcm_seal key nonce data = Inr ct" and c: "c = nonce @ ct"
    using assms by (auto simp: encryptAES_def go_simps split: if_splits prod.splits sum.splits)
  have "length nonce = 12"
    by (rule ReadFull_length [OF n])
  then show ?thesis
    using ok gcm.unseal_seal [OF ct] by (simp add: decryptAES_def c)
qed

lemma encryptAES_total:
  assumes "aes_key_ok key" and "length data \<le> gcm_limit" and "draws r (drawn r) = Inr b"
  shows "\<exists>c r'. encryptAES key data r = Inr (c, None, r')"
proof -
  obtain nonce r' where "ReadFull 12 r = (Inr nonce, r')"
    using assms(3) by (simp add: ReadFull_def)
  then show ?thesis
    using assms(1) gcm.seal_total [OF assms(2), of key nonce] by (auto simp: encryptAES_def)
qed

lemma aes_key_ok_big_Bytes:
  "0 \<le> k \<Longrightarrow> length (big_Bytes k) \<le> n \<longleftrightarrow> k < 256 ^ n"
  by (simp add: big_Bytes_def nat_bytes_length nat_less_iff)

section \<open>The JSON form of public keys\<close>

lemma is_digit_not_punct:
  "is_digit c \<Longrightarrow> c \<noteq> dquote \<and> c \<noteq> CHR ''{'' \<and> c \<noteq> CHR ''['' \<and> c \<noteq> CHR ''t'' \<and> c \<noteq> CHR ''f'' \<and>
     c \<noteq> CHR ''n'' \<and> c \<noteq> CHR ''-'' \<and> \<not> is_ws c"
  by (auto simp: is_digit_def is_ws_def)

lemma dec_nat_Cons: "\<exists>c r. dec_nat n = c # r \<and> is_digit c"
  using dec_nat_digits [of n] by (cases "dec_nat n") auto

lemma read_number_dec_int:
  assumes "c = CHR '','' \<or> c = CHR ''}''"
  shows "read_number (dec_int i @ c # t) = Some (dec_int i, c # t)"
proof -
  have stop: "c # t = [] \<or> \<not> is_digit (hd (c # t))"
    using assms by (auto simp: is_digit_def)
  have rest: "read_frac (c # t) = Some ([], c # t)" "read_exp (c # t) = Some ([], c # t)"
    using assms by (auto simp: read_frac_def read_exp_def)
  have int: "read_int (dec_nat n @ c # t) = Some (dec_nat n, c # t)" for n
    by (rule read_int_dec_nat [OF stop])
  show ?thesis
  proof (cases "i < 0")
    case True
    then show ?thesis
      by (simp add: read_number_def dec_int_def int rest)
  next
    case False
    obtain e r where "dec_nat (nat i) = e # r" "is_digit e"
      using dec_nat_Cons by blast
    then show ?thesis
      using False int [of "nat i"] is_digit_not_punct [of e]
      by (simp add: read_number_def dec_int_def rest)
  qed
qed

lemma big_parse_dec_int: "big_parse (dec_int i) = Some i"
proof (cases "i < 0")
  case True
  then show ?thesis by (simp add: big_parse_def dec_int_def dec_nat_digits)
next
  case False
  obtain e r where "dec_nat (nat i) = e # r" "is_digit e"
    using dec_nat_Cons by blast
  then show ?thesis
    using False is_digit_not_punct [of e] dec_nat_digits [of "nat i"] dec_val_dec_nat [of "nat i"]
    by (simp add: big_parse_def dec_int_def)
qed

definition big_value :: "bigint \<Rightarrow> json" where
  "big_value v = (case v of None \<Rightarrow> JNull | Some i \<Rightarrow> JNum (dec_int i))"

lemma read_value_number:
  assumes "is_digit e \<or> e = CHR ''-''" and "read_number (e # r) = Some (u, t)"
  shows "read_value d (e # r) = Some (JNum u, t)"
proof -
  have "\<not> is_ws e" and ne: "e \<noteq> dquote" "e \<noteq> CHR ''{''" "e \<noteq> CHR ''[''" "e \<noteq> CHR ''t''"
    "e \<noteq> CHR ''f''" "e \<noteq> CHR ''n''"
    using assms(1) is_digit_not_punct [of e] by (elim disjE; simp add: is_ws_def)+
  then have "skip_ws (e # r) = e # r"
    by simp
  then show ?thesis
    by (subst read_value.simps) (simp only: list.case ne if_False read_literal_def assms(2)
        option.map prod.case)
qed

lemma read_value_big:
  assumes "c = CHR '','' \<or> c = CHR ''}''"
  shows "read_value d (big_json v @ c # t) = Some (big_value v, c # t)"
proof (cases v)
  case None
  then show ?thesis
    using read_value_null [of d "c # t"] by (simp add: big_json_def big_value_def)
next
  case (Some i)
  obtain e r where e: "dec_int i = e # r" "is_digit e \<or> e = CHR ''-''"
    using dec_nat_Cons [of "nat i"] unfolding dec_int_def by (cases "i < 0") auto
  have "read_number (e # r @ c # t) = Some (e # r, c # t)"
    using read_number_dec_int [OF assms, of i t] by (simp only: e(1) append.simps)
  from read_value_number [OF e(2) this] show ?thesis
    by (simp only: Some big_json_def big_value_def option.case e(1) append.simps)
qed

lemma store_big_value: "store_big (big_value v) = Some v"
  by (cases v) (simp_all add: big_value_def big_parse_dec_int)

lemma unmarshal_marshal_PublicKey: "unmarshalPublicKey (marshalPublicKey pk) = Some pk"
proof -
  obtain d where d: "maxNestingDepth = Suc (Suc d)"
    using max_depth_Suc by blast
  have "to_valid ''x'' = ''x''" "to_valid ''y'' = ''y''"
    by (simp_all add: to_valid_ascii)
  then have "json_parse (marshalPublicKey pk) =
      Some (JObj [(''x'', big_value (pkX pk)), (''y'', big_value (pkY pk))])"
    by (simp add: json_parse_def marshalPublicKey_def d read_value_object read_members_one
        read_value_big)
  then show ?thesis
    by (simp add: unmarshalPublicKey_def is_field_def store_big_value)
qed

section \<open>Properties of the crypto extension\<close>

text \<open>Concrete objects for the witnesses: a 256 bit shared key, and sources of random bytes.\<close>

definition demo_shared :: int where
  "demo_shared = 2 ^ 255"

definition demo_rand :: Rand where
  "demo_rand = \<lparr>draws = (\<lambda>n. Inr ''nonce''), drawn = 0\<rparr>"

definition demo_crypto :: "(string \<rightharpoonup> keyStore) \<Rightarrow> Crypto" where
  "demo_crypto ks = \<lparr>keys = ks, privKey = private_key 1,
     publicKey = marshalPublicKey \<lparr>pkX = privX (private_key 1), pkY = privY (private_key 1)\<rparr>\<rparr>"

definition demo_store :: "bool \<Rightarrow> keyStore" where
  "demo_store sent = \<lparr>keySent = sent, shared = demo_shared, public = \<lparr>pkX = Some 1, pkY = Some 1\<rparr>\<rparr>"

lemma demo_shared_key: "aes_key_ok (big_Bytes demo_shared)"
proof -
  have "length (big_Bytes demo_shared) \<le> 32" "\<not> length (big_Bytes demo_shared) \<le> 31"
    unfolding demo_shared_def by (subst aes_key_ok_big_Bytes; simp)+
  then have "length (big_Bytes demo_shared) = 32"
    by linarith
  then show ?thesis by (simp add: aes_key_ok_def)
qed

definition out_ctx :: "JSONPkt \<Rightarrow> TransformContext" where
  "out_ctx p = \<lparr>Pkt = Some p, Stat = 0, Msg = '''', PipelineName = ''_out_'', From = ''''\<rparr>"

text \<open>
  C17: two endpoints that hold the same shared key, of a size AES accepts, understand each other: the
  buffer that the sender's \<open>encryptTransport\<close> puts on the wire for the receiver, the receiver's
  \<open>decryptTransport\<close> turns back into the original buffer, with neither context changed.
\<close>

theorem transport_roundtrip:
  fixes s :: "'a CryptoState_scheme" and t :: "'b CryptoState_scheme"
  assumes "Pkt ctx = Some p" and "\<not> skips_crypto (MetaGet KeyNoCrypto p)"
    and "keys (crypto s) (Dest p) = Some k" and "keySent k"
    and "keys (crypto t) (From ctx') = Some k'" and "shared k' = shared k"
    and "aes_key_ok (big_Bytes (shared k))" and "length b \<le> gcm_limit"
    and "draws (rand s) (drawn (rand s)) = Inr e"
  shows "\<exists>c s'. encryptTransport ctx b s = Inr (ctx, c, s') \<and> decryptTransport ctx' c t = Inr (ctx', b, t)"
proof -
  obtain c r' where c: "encryptAES (big_Bytes (shared k)) b (rand s) = Inr (c, None, r')"
    using encryptAES_total [OF assms(7,8,9)] by blast
  have "encryptTransport ctx b s = Inr (ctx, c, s\<lparr>rand := r'\<rparr>)"
    using assms(1-4) c by (simp add: encryptTransport_def getKeyStore_def getKeySent_def)
  moreover have "decryptTransport ctx' c t = Inr (ctx', b, t)"
    using assms(5,6) decryptAES_encryptAES [OF c]
    by (simp add: decryptTransport_def getKeyStore_def)
  ultimately show ?thesis by blast
qed

theorem transport_roundtrip_witness:
  "\<exists>c s'. encryptTransport (out_ctx (newJSONPkt\<lparr>dest := ''B''\<rparr>)) ''hello''
      \<lparr>crypto = demo_crypto [''B'' \<mapsto> demo_store True], rand = demo_rand\<rparr> =
        Inr (out_ctx (newJSONPkt\<lparr>dest := ''B''\<rparr>), c, s') \<and>
    decryptTransport (demo_tctx\<lparr>From := ''A''\<rparr>) c
      \<lparr>crypto = demo_crypto [''A'' \<mapsto> demo_store False], rand = demo_rand\<rparr> =
        Inr (demo_tctx\<lparr>From := ''A''\<rparr>, ''hello'', \<lparr>crypto = demo_crypto [''A'' \<mapsto> demo_store False], rand = demo_rand\<rparr>)"
  by (rule transport_roundtrip [where p = "newJSONPkt\<lparr>dest := ''B''\<rparr>" and k = "demo_store True"
        and k' = "demo_store False" and e = "''nonce''"])
    (simp_all add: out_ctx_def newJSONPkt_def MetaGet_def KVMeta_Get_def skips_crypto_def Dest_def
      demo_crypto_def demo_store_def demo_shared_key demo_rand_def gcm_limit_def)

text \<open>
  The key exchange with a server gives both sides the same shared secret. The client sends its
  public key, the server's callback stores the shared secret for the sender and writes its own public
  key to the response, and the client stores the secret it computes from the response; when the
  private keys satisfy the Diffie-Hellman condition of the curve, both compute the same number.
\<close>

theorem key_exchange_agrees:
  fixes s :: "'z CryptoState_scheme"
  assumes "ecdh_agree a b"
    and "NewCrypto (Some (private_key a)) gen = Inr client"
    and "NewCrypto (Some (private_key b)) gen' = Inr server"
    and "crypto s = server\<lparr>keys := ks\<rparr>"
    and "Pkt ctx = Some req" and "Data req = publicKey client"
    and "pkt_synced pw" and "Data pw = []"
  shows "\<exists>ctx' resp s' client' sk ck. keyExchangeServer ctx pw s = Inr (ctx', resp, s') \<and>
    Stat ctx' = CodeStopCloseSend \<and>
    ProcessKeyExResp svrAddr resp client = Inr (Inr client') \<and>
    keys (crypto s') (TargetFrom ctx) = Some sk \<and> keys client' svrAddr = Some ck \<and>
    shared sk = shared ck"
proof -
  obtain x y where sh: "ScalarMult (privX (private_key a)) (privY (private_key a)) b = Inr (x, y)"
    "ScalarMult (privX (private_key b)) (privY (private_key b)) a = Inr (x, y)"
    using ecdh_shared [OF assms(1)] by auto
  let ?pk = "\<lambda>d. \<lparr>pkX = privX (private_key d), pkY = privY (private_key d)\<rparr>"
  have d: "privD (private_key a) = a" "privD (private_key b) = b"
    by (simp_all add: private_key_def split: prod.split)
  have cl: "client = \<lparr>keys = Map.empty, privKey = private_key a, publicKey = marshalPublicKey (?pk a)\<rparr>"
    and sv: "server = \<lparr>keys = Map.empty, privKey = private_key b, publicKey = marshalPublicKey (?pk b)\<rparr>"
    using assms(2,3) by (simp_all add: NewCrypto_def)
  obtain pw' where pw': "MetaAdd KeyNoCrypto ''true'' pw = Inr pw'" "buff pw' = []"
    using MetaAdd_synced [OF assms(7), of KeyNoCrypto "''true''"] assms(8) by (auto simp: Data_def)
  have "computeSharedKey (crypto s) (?pk a) = Inr x" "computeSharedKey client (?pk b) = Inr x"
    using sh d by (simp_all add: computeSharedKey_def assms(4) sv cl)
  then show ?thesis
    using assms(4,5,6) pw'
    by (simp add: keyExchangeServer_def ProcessKeyExResp_def unmarshal_marshal_PublicKey cl sv
        Write_def Data_def setKeyStore_def Let_def)
qed

definition demo_server :: CryptoState where
  "demo_server = \<lparr>crypto = demo_crypto Map.empty, rand = demo_rand\<rparr>"

lemma NewCrypto_demo: "NewCrypto (Some (private_key 1)) gen = Inr (demo_crypto Map.empty)"
  by (simp add: NewCrypto_def demo_crypto_def)

theorem key_exchange_agrees_witness:
  "\<exists>ctx' resp s' client' sk ck.
    keyExchangeServer (demo_ctx\<lparr>Pkt := Some (newJSONPkt\<lparr>buff := publicKey (demo_crypto Map.empty)\<rparr>)\<rparr>)
      newJSONPkt demo_server = Inr (ctx', resp, s') \<and>
    ProcessKeyExResp ''server'' resp (demo_crypto Map.empty) = Inr (Inr client') \<and>
    keys (crypto s') ''10.0.0.1:9'' = Some sk \<and> keys client' ''server'' = Some ck \<and>
    shared sk = shared ck"
proof -
  let ?ctx = "demo_ctx\<lparr>Pkt := Some (newJSONPkt\<lparr>buff := publicKey (demo_crypto Map.empty)\<rparr>)\<rparr>"
  have "crypto demo_server = (demo_crypto Map.empty)\<lparr>keys := Map.empty\<rparr>"
    by (simp add: demo_server_def demo_crypto_def)
  moreover have "Pkt ?ctx = Some (newJSONPkt\<lparr>buff := publicKey (demo_crypto Map.empty)\<rparr>)"
    "TargetFrom ?ctx = ''10.0.0.1:9''" "Data newJSONPkt = []"
    by (simp_all add: demo_ctx_def newJSONPkt_def Data_def)
  ultimately show ?thesis
    using key_exchange_agrees [OF ecdh_agree_base NewCrypto_demo NewCrypto_demo, of demo_server Map.empty
        ?ctx "newJSONPkt\<lparr>buff := publicKey (demo_crypto Map.empty)\<rparr>" newJSONPkt "''server''"]
    by (fastforce simp: Data_def)
qed

lemma json_quote_plain: "list_all html_safe t \<Longrightarrow> json_quote t = dquote # t @ [dquote]"
proof -
  assume "list_all html_safe t"
  then have "json_escape t = t"
    by (induction t) (simp_all add: json_escape.simps html_safe_def escape_ascii_def)
  then show ?thesis
    by (simp add: json_quote_def)
qed

text \<open>
  C38: after a key exchange the server does not encrypt its first ordinary reply. The response of the
  exchange is marked as exempt from encryption, so it leaves the \<open>keySent\<close> flag unset; the next packet
  for that peer is taken for the key, goes out as it is, and only then is the flag set.
\<close>

theorem first_reply_in_plaintext:
  fixes s :: "'z CryptoState_scheme"
  assumes "keyExchangeServer ctx pw s = Inr (ctx', resp, s')" and "Stat ctx' = CodeStopCloseSend"
    and "pkt_synced pw" and "Pkt octx = Some (Close resp)"
    and "Pkt octx2 = Some p" and "Dest p = TargetFrom ctx" and "MetaGet KeyNoCrypto p = ''''"
    and "Stat ctx \<noteq> CodeStopCloseSend"
  shows "encryptTransport octx b s' = Inr (octx, b, s') \<and>
    (\<exists>s'' k. encryptTransport octx2 b2 s' = Inr (octx2, b2, s'') \<and>
       keys (crypto s') (TargetFrom ctx) = Some k \<and> \<not> keySent k \<and>
       keys (crypto s'') (TargetFrom ctx) = Some (setKeySent True k))"
proof -
  obtain rp pk sk pw' where s': "s' = s\<lparr>crypto := setKeyStore (TargetFrom ctx)
      \<lparr>keySent = False, shared = sk, public = pk\<rparr> (crypto s)\<rparr>"
    and pw': "MetaAdd KeyNoCrypto ''true'' pw = Inr pw'" and resp: "resp = Write rp pw'"
    using assms(1,2,8) by (auto simp: keyExchangeServer_def go_simps Let_def code_defs split: option.splits)
  have "MetaGet KeyNoCrypto pw' = ''true''"
    using MetaAdd_synced [OF assms(3), of KeyNoCrypto "''true''"] MetaMap_ok [OF assms(3)] pw'
    by (auto simp: MetaGet_MetaMap gm_simps)
  then have "MetaGet KeyNoCrypto (Close resp) = ''true''"
    by (simp add: resp MetaGet_MetaMap Write_def Close_def)
  then show ?thesis
    using assms(4-7) by (simp add: encryptTransport_def skips_crypto_def s' getKeyStore_def
        setKeyStore_def getKeySent_def setKeySent_def)
qed

lemma demo_exchange:
  "\<exists>ctx' resp s'. keyExchangeServer (demo_ctx\<lparr>Pkt := Some (newJSONPkt\<lparr>buff := publicKey (demo_crypto Map.empty)\<rparr>)\<rparr>)
     newJSONPkt demo_server = Inr (ctx', resp, s') \<and> Stat ctx' = CodeStopCloseSend"
proof -
  obtain x y where "ScalarMult (privX (private_key 1)) (privY (private_key 1)) 1 = Inr (x, y)"
    using ecdh_shared [OF ecdh_agree_base] by auto
  moreover have "privD (private_key 1) = 1"
    by (simp add: private_key_def split: prod.split)
  moreover obtain pw' where "MetaAdd KeyNoCrypto ''true'' newJSONPkt = Inr pw'"
    using MetaAdd_synced [of newJSONPkt KeyNoCrypto "''true''"] by auto
  ultimately show ?thesis
    by (simp add: keyExchangeServer_def Data_def demo_server_def demo_crypto_def
        unmarshal_marshal_PublicKey computeSharedKey_def Let_def)
qed

theorem first_reply_in_plaintext_witness:
  "\<exists>ctx' resp s' s''. keyExchangeServer (demo_ctx\<lparr>Pkt := Some (newJSONPkt\<lparr>buff := publicKey (demo_crypto Map.empty)\<rparr>)\<rparr>)
      newJSONPkt demo_server = Inr (ctx', resp, s') \<and>
    encryptTransport (out_ctx (newJSONPkt\<lparr>dest := ''10.0.0.1:9''\<rparr>)) ''secret'' s' =
      Inr (out_ctx (newJSONPkt\<lparr>dest := ''10.0.0.1:9''\<rparr>), ''secret'', s'')"
proof -
  let ?ctx = "demo_ctx\<lparr>Pkt := Some (newJSONPkt\<lparr>buff := publicKey (demo_crypto Map.empty)\<rparr>)\<rparr>"
  obtain ctx' resp s' where kx: "keyExchangeServer ?ctx newJSONPkt demo_server = Inr (ctx', resp, s')"
    "Stat ctx' = CodeStopCloseSend"
    using demo_exchange by blast
  have "Stat ?ctx \<noteq> CodeStopCloseSend" "TargetFrom ?ctx = ''10.0.0.1:9''"
    by (simp_all add: demo_ctx_def code_defs)
  then show ?thesis
    using first_reply_in_plaintext [OF kx newJSONPkt_synced, of "out_ctx (Close resp)"
        "out_ctx (newJSONPkt\<lparr>dest := ''10.0.0.1:9''\<rparr>)" "newJSONPkt\<lparr>dest := ''10.0.0.1:9''\<rparr>"] kx
    by (fastforce simp: out_ctx_def newJSONPkt_def MetaGet_def KVMeta_Get_def Dest_def)
qed

text \<open>
  C39: a shared secret below $2^{248}$ (one key pair in 256) loses its leading zero bytes on the way to
  AES. Unless the truncated length happens to be 16 or 24 bytes, nothing can be sent to that peer: the
  outgoing stage stops with an error and \<open>EncryptFor\<close> refuses.
\<close>

theorem short_secret_cannot_encrypt:
  fixes s :: "'z CryptoState_scheme"
  assumes "keys (crypto s) (Dest p) = Some k" and "keySent k"
    and "256 ^ 24 \<le> shared k" and "shared k < 256 ^ 31"
    and "Pkt ctx = Some p" and "\<not> skips_crypto (MetaGet KeyNoCrypto p)"
  shows "\<exists>e. encryptTransport ctx b s =
      Inr (ctx\<lparr>Stat := CodeStopError, Msg := ''encryption error: '' @ e\<rparr>, b, s) \<and>
    EncryptFor (Dest p) b (crypto s) (rand s) = Inr (Inl (errorf (''encryption error: '' @ e)), rand s)"
proof -
  have "0 \<le> shared k"
    using assms(3) by (rule order.trans [rotated]) simp
  then have "length (big_Bytes (shared k)) \<le> 31" "\<not> length (big_Bytes (shared k)) \<le> 24"
    using assms(3,4) by (simp_all only: aes_key_ok_big_Bytes not_less)
  then have "\<not> aes_key_ok (big_Bytes (shared k))"
    by (auto simp: aes_key_ok_def)
  then show ?thesis
    using assms(1,2,5,6)
    by (intro exI [of _ "errorf (''cipher init fail: '' @ key_size_error (big_Bytes (shared k)))"])
      (simp add: encryptTransport_def EncryptFor_def getKeyStore_def getKeySent_def encryptAES_def)
qed

theorem short_secret_cannot_encrypt_witness:
  "\<exists>e. encryptTransport (out_ctx (newJSONPkt\<lparr>dest := ''B''\<rparr>)) ''hello''
      \<lparr>crypto = demo_crypto [''B'' \<mapsto> (demo_store True)\<lparr>shared := 2 ^ 240\<rparr>], rand = demo_rand\<rparr> =
    Inr ((out_ctx (newJSONPkt\<lparr>dest := ''B''\<rparr>))\<lparr>Stat := CodeStopError, Msg := ''encryption error: '' @ e\<rparr>, ''hello'',
      \<lparr>crypto = demo_crypto [''B'' \<mapsto> (demo_store True)\<lparr>shared := 2 ^ 240\<rparr>], rand = demo_rand\<rparr>)"
  using short_secret_cannot_encrypt [of "\<lparr>crypto = demo_crypto [''B'' \<mapsto> (demo_store True)\<lparr>shared := 2 ^ 240\<rparr>],
      rand = demo_rand\<rparr>" "newJSONPkt\<lparr>dest := ''B''\<rparr>" "(demo_store True)\<lparr>shared := 2 ^ 240\<rparr>"
      "out_ctx (newJSONPkt\<lparr>dest := ''B''\<rparr>)" "''hello''"]
  by (auto simp: out_ctx_def newJSONPkt_def MetaGet_def KVMeta_Get_def skips_crypto_def Dest_def
      demo_crypto_def demo_store_def)

text \<open>
  C40: a key-exchange request whose key lacks a coordinate is accepted by the decoder and makes the
  callback dereference a nil pointer: one packet from anybody stops the server.
\<close>

theorem null_coordinate_panics:
  fixes s :: "'z CryptoState_scheme"
  assumes "Pkt ctx = Some p" and "Data p = marshalPublicKey pk" and "pkX pk = None \<or> pkY pk = None"
  shows "keyExchangeServer ctx pw s = Inl NilDeref"
  using assms by (auto simp: keyExchangeServer_def unmarshal_marshal_PublicKey computeSharedKey_def
      ScalarMult_def split: option.split)

theorem null_coordinate_panics_witness:
  "keyExchangeServer (demo_ctx\<lparr>Pkt := Some (newJSONPkt\<lparr>buff := ''{\"x\":null,\"y\":null}''\<rparr>)\<rparr>)
     newJSONPkt demo_server = Inl NilDeref"
proof -
  have "marshalPublicKey \<lparr>pkX = None, pkY = None\<rparr> = ''{\"x\":null,\"y\":null}''"
    by (simp add: marshalPublicKey_def big_json_def json_quote_plain html_safe_def)
  then show ?thesis
    by (intro null_coordinate_panics [where pk = "\<lparr>pkX = None, pkY = None\<rparr>" and
          p = "newJSONPkt\<lparr>buff := ''{\"x\":null,\"y\":null}''\<rparr>"]) (simp_all add: Data_def)
qed

text \<open>
  C18: end-to-end encryption round trip. When the sender holds for the recipient the secret that the
  recipient holds for the sender, of a size AES accepts, \<open>EncryptE2E\<close> succeeds, \<open>DecryptE2E\<close> on the
  recipient gives a packet with the original data, and neither changes the packet's metadata.
\<close>

theorem e2e_roundtrip:
  assumes "keys crA b = Some k" and "keys crB a = Some k'" and "shared k' = shared k"
    and "aes_key_ok (big_Bytes (shared k))" and "length (Data pkt) \<le> gcm_limit"
    and "draws r (drawn r) = Inr e"
  shows "\<exists>enc r' dec. EncryptE2E b pkt crA r = Inr (None, enc, r') \<and>
    DecryptE2E a enc crB = Inr (None, dec) \<and> Data dec = Data pkt \<and>
    MetaMap enc = MetaMap pkt \<and> MetaMap dec = MetaMap pkt"
proof -
  obtain c r' where c: "encryptAES (big_Bytes (shared k)) (Data pkt) r = Inr (c, None, r')"
    using encryptAES_total [OF assms(4,5,6)] by blast
  have meta: "MetaMap (Close (Write x (Clear q))) = MetaMap q" and
    data: "Data (Close (Write x (Clear q))) = x" for x and q :: JSONPkt
    by (simp_all add: Close_def Write_def Clear_def Data_def)
  show ?thesis
    using assms(1-3) c decryptAES_encryptAES [OF c]
    by (simp add: EncryptE2E_def DecryptE2E_def EncryptFor_def DecryptFrom_def getKeyStore_def meta data)
qed

theorem e2e_roundtrip_witness:
  "\<exists>enc r' dec. EncryptE2E ''B'' (newJSONPkt\<lparr>buff := ''hello''\<rparr>) (demo_crypto [''B'' \<mapsto> demo_store True]) demo_rand =
      Inr (None, enc, r') \<and>
    DecryptE2E ''A'' enc (demo_crypto [''A'' \<mapsto> demo_store True]) = Inr (None, dec) \<and> Data dec = ''hello''"
proof -
  have "Data (newJSONPkt\<lparr>buff := ''hello''\<rparr>) = ''hello''"
    by (simp add: Data_def)
  then show ?thesis
    using e2e_roundtrip [of "demo_crypto [''B'' \<mapsto> demo_store True]" "''B''" "demo_store True"
        "demo_crypto [''A'' \<mapsto> demo_store True]" "''A''" "demo_store True"
        "newJSONPkt\<lparr>buff := ''hello''\<rparr>" demo_rand "''nonce''"]
    by (auto simp: demo_crypto_def demo_store_def demo_shared_key demo_rand_def gcm_limit_def)
qed

section \<open>Key exchange between clients\<close>

lemma unmarshalIP_request:
  assumes "list_all html_safe addr"
  shows "unmarshalIP (CHR ''{'' # dquote # ''ip'' @ dquote # CHR '':'' # dquote # addr @ dquote # ''}'') = Some addr"
proof -
  have q: "json_quote ''ip'' = dquote # ''ip'' @ [dquote]" "json_quote addr = dquote # addr @ [dquote]"
    using assms by (simp_all add: json_quote_plain html_safe_def)
  have "list_all (\<lambda>c. (of_char c :: nat) < 0x80) addr"
    using assms by (rule list.pred_mono_strong) (simp add: html_safe_def)
  then have v: "to_valid addr = addr" "to_valid ''ip'' = ''ip''"
    by (simp_all add: to_valid_ascii)
  have "json_parse (CHR ''{'' # dquote # ''ip'' @ dquote # CHR '':'' # dquote # addr @ dquote # ''}'') =
      Some (JObj [(''ip'', JStr addr)])"
    using json_parse_string_member [OF v(2,1)] by (simp add: q)
  then show ?thesis
    by (simp add: unmarshalIP_def unmarshal_string_def)
qed

text \<open>One client asks the server for the key of another: the answer is the key the server stored.\<close>

lemma client_key_request:
  fixes s :: "'z CryptoState_scheme"
  assumes "list_all html_safe addr" and "pkt_synced pkt" and "pkt_synced pw" and "Data pw = []"
    and "keys (crypto s) addr = Some k"
  shows "\<exists>req resp. ConfigureKeyExClientPkt addr pkt = Inr req \<and>
    (\<forall>ctx. Pkt ctx = Some req \<longrightarrow> keyExchangeClient ctx pw s = Inr (ctx, resp, s)) \<and>
    Data resp = marshalPublicKey (public k)"
proof -
  have "pkt_synced (Clear pkt)"
    using assms(2) by (simp add: Clear_def)
  from MetaAdd_synced [OF this, of KeyTarget TargetKeyExchangeClient]
  obtain p1 where p1: "MetaAdd KeyTarget TargetKeyExchangeClient (Clear pkt) = Inr p1" "buff p1 = []"
    by (auto simp: Clear_def)
  obtain pw' where pw': "MetaAdd KeyNoCrypto ''true'' pw = Inr pw'" "buff pw' = []"
    using MetaAdd_synced [OF assms(3), of KeyNoCrypto "''true''"] assms(4) by (auto simp: Data_def)
  let ?body = "CHR ''{'' # dquote # ''ip'' @ dquote # CHR '':'' # dquote # addr @ dquote # ''}''"
  have "ConfigureKeyExClientPkt addr pkt = Inr (Close (Write ?body p1))"
    by (simp add: ConfigureKeyExClientPkt_def p1(1))
  moreover have "keyExchangeClient ctx pw s = Inr (ctx, Write (marshalPublicKey (public k)) pw', s)"
    if "Pkt ctx = Some (Close (Write ?body p1))" for ctx
    using that p1(2) pw'(1) unmarshalIP_request [OF assms(1)] assms(5)
    by (simp add: keyExchangeClient_def Data_def Close_def Write_def getKeyStore_def)
  moreover have "Data (Write (marshalPublicKey (public k)) pw') = marshalPublicKey (public k)"
    by (simp add: Data_def Write_def pw'(2))
  ultimately show ?thesis
    by blast
qed

text \<open>
  Two clients that both exchanged keys with the server obtain the same secret from it. Each sends
  the request for the other's address, the server's callback answers with the public key it stored
  for that address, and the secrets that \<open>ProcessKeyExResp\<close> stores on the two sides are equal when the
  private keys satisfy the Diffie-Hellman condition of the curve.
\<close>

theorem client_exchange_agrees:
  fixes s :: "'z CryptoState_scheme"
  assumes "ecdh_agree a b"
    and "NewCrypto (Some (private_key a)) gen = Inr crA" and "NewCrypto (Some (private_key b)) gen' = Inr crB"
    and "keys (crypto s) addrA = Some kA" and "marshalPublicKey (public kA) = publicKey crA"
    and "keys (crypto s) addrB = Some kB" and "marshalPublicKey (public kB) = publicKey crB"
    and "list_all html_safe addrA" and "list_all html_safe addrB"
    and "pkt_synced pkt" and "pkt_synced pw" and "Data pw = []"
  shows "\<exists>reqA reqB respA respB crA' crB' ksA ksB.
    ConfigureKeyExClientPkt addrB pkt = Inr reqA \<and> ConfigureKeyExClientPkt addrA pkt = Inr reqB \<and>
    (\<forall>ctx. Pkt ctx = Some reqA \<longrightarrow> keyExchangeClient ctx pw s = Inr (ctx, respA, s)) \<and>
    (\<forall>ctx. Pkt ctx = Some reqB \<longrightarrow> keyExchangeClient ctx pw s = Inr (ctx, respB, s)) \<and>
    ProcessKeyExResp addrB respA crA = Inr (Inr crA') \<and> ProcessKeyExResp addrA respB crB = Inr (Inr crB') \<and>
    keys crA' addrB = Some ksA \<and> keys crB' addrA = Some ksB \<and> shared ksA = shared ksB"
proof -
  obtain reqA respA where A: "ConfigureKeyExClientPkt addrB pkt = Inr reqA"
    "\<forall>ctx. Pkt ctx = Some reqA \<longrightarrow> keyExchangeClient ctx pw s = Inr (ctx, respA, s)"
    "Data respA = publicKey crB"
    using client_key_request [OF assms(9,10,11,12,6)] assms(7) by auto
  obtain reqB respB where B: "ConfigureKeyExClientPkt addrA pkt = Inr reqB"
    "\<forall>ctx. Pkt ctx = Some reqB \<longrightarrow> keyExchangeClient ctx pw s = Inr (ctx, respB, s)"
    "Data respB = publicKey crA"
    using client_key_request [OF assms(8,10,11,12,4)] assms(5) by auto
  obtain x y where "ScalarMult (privX (private_key a)) (privY (private_key a)) b = Inr (x, y)"
    "ScalarMult (privX (private_key b)) (privY (private_key b)) a = Inr (x, y)"
    using ecdh_shared [OF assms(1)] by auto
  moreover have "privD (private_key a) = a" "privD (private_key b) = b"
    by (simp_all add: private_key_def split: prod.split)
  ultimately have "\<exists>crA' ks. ProcessKeyExResp addrB respA crA = Inr (Inr crA') \<and> keys crA' addrB = Some ks \<and> shared ks = x"
    "\<exists>crB' ks. ProcessKeyExResp addrA respB crB = Inr (Inr crB') \<and> keys crB' addrA = Some ks \<and> shared ks = x"
    using assms(2,3) A(3) B(3)
    by (auto simp: NewCrypto_def ProcessKeyExResp_def unmarshal_marshal_PublicKey computeSharedKey_def setKeyStore_def)
  then show ?thesis
    using A(1,2) B(1,2) by metis
qed

definition demo_peers :: CryptoState where
  "demo_peers = demo_server\<lparr>crypto := demo_crypto
     [''10.0.0.1:9'' \<mapsto> (demo_store True)\<lparr>public := \<lparr>pkX = privX (private_key 1), pkY = privY (private_key 1)\<rparr>\<rparr>]\<rparr>"

theorem client_exchange_agrees_witness:
  "\<exists>req resp cr' ks. ConfigureKeyExClientPkt ''10.0.0.1:9'' newJSONPkt = Inr req \<and>
    (\<forall>ctx. Pkt ctx = Some req \<longrightarrow> keyExchangeClient ctx newJSONPkt demo_peers = Inr (ctx, resp, demo_peers)) \<and>
    ProcessKeyExResp ''10.0.0.1:9'' resp (demo_crypto Map.empty) = Inr (Inr cr') \<and>
    keys cr' ''10.0.0.1:9'' = Some ks"
proof -
  let ?k = "(demo_store True)\<lparr>public := \<lparr>pkX = privX (private_key 1), pkY = privY (private_key 1)\<rparr>\<rparr>"
  have k: "keys (crypto demo_peers) ''10.0.0.1:9'' = Some ?k"
    "marshalPublicKey (public ?k) = publicKey (demo_crypto Map.empty)"
    by (simp_all add: demo_peers_def demo_crypto_def)
  have "list_all html_safe ''10.0.0.1:9''" "Data newJSONPkt = []"
    by (simp_all add: html_safe_def newJSONPkt_def Data_def)
  from client_exchange_agrees [OF ecdh_agree_base NewCrypto_demo NewCrypto_demo k k this(1) this(1)
      newJSONPkt_synced newJSONPkt_synced this(2)]
  show ?thesis by blast
qed

section \<open>Installation\<close>

text \<open>
  C24: \<open>Extend\<close> puts the decryption stage at the end of the incoming pipeline and the encryption stage
  at the end of the outgoing one for every kind, and leaves the other pipelines alone; it adds the two
  key-exchange callbacks for a server only; and it reports an error exactly for an unknown kind, for
  which the stages nevertheless stay installed.
\<close>

theorem Extend_installs:
  fixes p :: "'z CryptoState_scheme Processor"
  assumes "Extend kind p = (p', err)"
  shows "stages_of (pipelines (dataP p')) ''_in_'' = stages_of (pipelines (dataP p)) ''_in_'' @ [decryptTransport] \<and>
    stages_of (pipelines (dataP p')) ''_out_'' = stages_of (pipelines (dataP p)) ''_out_'' @ [encryptTransport] \<and>
    (\<forall>name. name \<notin> {''_in_'', ''_out_''} \<longrightarrow> pipelines (dataP p') name = pipelines (dataP p) name) \<and>
    (kind \<noteq> ''server'' \<longrightarrow> packetP p' = packetP p) \<and>
    (kind = ''server'' \<longrightarrow>
       stages_of (callbackQueues (packetP p')) TargetKeyExchangeServer =
         stages_of (callbackQueues (packetP p)) TargetKeyExchangeServer @ [keyExchangeServer] \<and>
       stages_of (callbackQueues (packetP p')) TargetKeyExchangeClient =
         stages_of (callbackQueues (packetP p)) TargetKeyExchangeClient @ [keyExchangeClient]) \<and>
    (err \<noteq> None \<longleftrightarrow> kind \<notin> {''server'', ''client''})"
  using assms
  by (auto simp: Extend_def Let_def AddTransform_def installOnServer_def installOnClient_def AddCallback_def
      TargetKeyExchangeServer_def TargetKeyExchangeClient_def split: if_splits)

theorem Extend_installs_witness:
  "\<exists>p' :: unit CryptoState_scheme Processor. \<exists>err.
    Extend ''proxy'' \<lparr>dataP = NewDataPipeline, packetP = NewPacketPipeline\<rparr> = (p', err) \<and>
    stages_of (pipelines (dataP p')) ''_out_'' = [encryptTransport] \<and> err \<noteq> None"
proof -
  obtain p' :: "unit CryptoState_scheme Processor" and err where
    e: "Extend ''proxy'' \<lparr>dataP = NewDataPipeline, packetP = NewPacketPipeline\<rparr> = (p', err)"
    by (metis surj_pair)
  show ?thesis
    using Extend_installs [OF e] e by (auto simp: NewDataPipeline_def stages_of_def)
qed

end
