(* ===== verification/Throttle.thy ===== *)
theory Throttle
  imports Go_Fmt "HOL-Library.Word"
begin

text \<open>
  The UDP throttle (\<open>src/core/throttle\<close>): the rate and the time per operation at their widths of 64
  bits, and the throttle's goroutines as a transition system.

  A step of the system is one action of one goroutine: the reader and the writer between two points
  at which they can block, a caller of \<open>ReadFrom\<close>, \<open>WriteTo\<close> or \<open>Shutdown\<close>, or the passing of time. An
  action that cannot proceed is \<open>None\<close>. The clock counts nanoseconds. The state carries, next to the
  fields of \<open>UDPThrottle\<close>, the position of each goroutine and the history of what was started,
  received and delivered; no action depends on the history.
\<close>

section \<open>Rates\<close>

type_synonym Rate = "64 word"
type_synonym int64 = "64 word"

definition Rate1h :: Rate where "Rate1h = 100"
definition Rate1k :: Rate where "Rate1k = 1000"
definition Rate10k :: Rate where "Rate10k = 10000"
definition Rate100K :: Rate where "Rate100K = 100000"

definition sec :: int where "sec = 1000000000"

text \<open>Go's division of \<open>int64\<close> values truncates and panics on a zero divisor.\<close>

definition quo :: "int \<Rightarrow> int \<Rightarrow> int64 go" where
  "quo a b = (if b = 0 then Inl DivideByZero else Inr (word_of_int (sgn a * sgn b * (\<bar>a\<bar> div \<bar>b\<bar>))))"

definition tpo_of :: "Rate \<Rightarrow> int64 go" where
  "tpo_of r = quo sec (sint r)"

section \<open>The throttle\<close>

record readPkt =
  rdata :: bytes
  rsender :: "string option"
  rerr :: "string option"

record writePkt =
  wdata :: bytes
  wto :: string
  respCh :: nat   \<comment> \<open>the identity of the response channel\<close>

record writeStatus =
  written :: nat
  werr :: "string option"

record UDPThrottle =
  rate :: Rate
  tpo :: int64
  rbuffSize :: nat
  recv :: "readPkt list"
  send :: "writePkt list"
  done_made :: bool   \<comment> \<open>whether \<open>done\<close> is a channel; otherwise it is nil\<close>
  activeRoutines :: nat

definition chan_cap :: nat where "chan_cap = 100"

definition NewUDPThrottle :: "Rate \<Rightarrow> nat \<Rightarrow> UDPThrottle go" where
  "NewUDPThrottle initialRate readBuffSize =
     gbind (tpo_of initialRate) (\<lambda>t.
       Inr \<lparr>rate = initialRate, tpo = t, rbuffSize = readBuffSize, recv = [], send = [],
            done_made = False, activeRoutines = 2\<rparr>)"

definition Throughput :: "UDPThrottle \<Rightarrow> Rate" where
  "Throughput th = rate th"

definition SetThroughput :: "Rate \<Rightarrow> UDPThrottle \<Rightarrow> UDPThrottle go" where
  "SetThroughput r th = gbind (tpo_of r) (\<lambda>t. Inr (th\<lparr>rate := r, tpo := t\<rparr>))"

definition ScaleThroughput :: "8 word \<Rightarrow> UDPThrottle \<Rightarrow> UDPThrottle go" where
  "ScaleThroughput f th =
     (let r = rate th * ucast f in gbind (tpo_of r) (\<lambda>t. Inr (th\<lparr>rate := r, tpo := t\<rparr>)))"

text \<open>\<open>time.Time.Sub\<close> saturates.\<close>

definition time_Sub :: "int \<Rightarrow> int \<Rightarrow> int64" where
  "time_Sub t u = word_of_int (max (- (2 ^ 63)) (min (2 ^ 63 - 1) (t - u)))"

text \<open>\<open>time.ParseDuration\<close> on an unsigned whole number followed by one unit.\<close>

definition duration_unit :: "string \<Rightarrow> int option" where
  "duration_unit u =
     (if u = ''ns'' then Some 1 else if u = ''us'' then Some 1000 else if u = ''ms'' then Some 1000000
      else if u = ''s'' then Some 1000000000 else if u = ''m'' then Some 60000000000
      else if u = ''h'' then Some 3600000000000 else None)"

definition ParseDuration :: "string \<Rightarrow> int option" where
  "ParseDuration s =
     (let ds = takeWhile is_digit s; v = int (dec_val ds) in
      if ds = [] \<or> v \<ge> 2 ^ 63 then None
      else case duration_unit (dropWhile is_digit s) of
        None \<Rightarrow> None
      | Some u \<Rightarrow> if v > (2 ^ 63 - 1) div u then None else Some (v * u))"

text \<open>\<open>throttleOperation\<close>: the time it sleeps, in nanoseconds.\<close>

definition throttleOperation :: "UDPThrottle \<Rightarrow> int64 \<Rightarrow> int" where
  "throttleOperation th dur =
     (let remainingTime = tpo th - dur in
      if 0 < sint remainingTime
      then (case ParseDuration (dec_int (sint remainingTime) @ ''ns'') of None \<Rightarrow> 0 | Some d \<Rightarrow> d)
      else 0)"

section \<open>The goroutines\<close>

text \<open>
  Where a routine is: at the top of its loop, inside the operation on the connection it started at a
  given time, blocked on handing out the result of that operation, asleep until a given time, or
  returned.
\<close>

datatype ('o, 'r) routine = Top | Op int 'o | Out int 'r | Asleep int | Returned

record ThState =
  th :: UDPThrottle
  clock :: int
  reader :: "(unit, readPkt) routine"
  writer :: "(writePkt, writePkt \<times> writeStatus) routine"
  shutting :: "nat option"   \<comment> \<open>a call of \<open>Shutdown\<close>: how many signals it sent\<close>
  shut :: bool               \<comment> \<open>whether \<open>Shutdown\<close> returned\<close>
  rstarts :: "int list"
  wstarts :: "int list"
  arrived :: "readPkt list"
  taken :: "readPkt list"
  submitted :: "writePkt list"
  answered :: "(writePkt \<times> writeStatus) list"

definition th_init :: "UDPThrottle \<Rightarrow> int \<Rightarrow> ThState" where
  "th_init t now = \<lparr>th = t, clock = now, reader = Top, writer = Top, shutting = None, shut = False,
     rstarts = [], wstarts = [], arrived = [], taken = [], submitted = [], answered = []\<rparr>"

definition elapse :: "nat \<Rightarrow> ThState \<Rightarrow> ThState option" where
  "elapse d m = Some (m\<lparr>clock := clock m + int d\<rparr>)"

text \<open>\<open>read\<close>: the default case of its \<open>select\<close> is taken whenever nobody sends on \<open>done\<close>.\<close>

definition done_ready :: "ThState \<Rightarrow> bool" where
  "done_ready m \<longleftrightarrow>
     (case shutting m of None \<Rightarrow> False | Some i \<Rightarrow> i < activeRoutines (th m) \<and> done_made (th m))"

definition read_start :: "ThState \<Rightarrow> ThState option" where
  "read_start m =
     (case reader m of
        Top \<Rightarrow>
          if done_ready m then None
          else Some (m\<lparr>reader := Op (clock m) (), rstarts := rstarts m @ [clock m]\<rparr>)
      | _ \<Rightarrow> None)"

text \<open>\<open>ReadFromUDP\<close> returns an error or a datagram cut off at the size of the buffer.\<close>

definition read_conn :: "string + (bytes \<times> string) \<Rightarrow> ThState \<Rightarrow> ThState option" where
  "read_conn res m =
     (case reader m of
        Op start () \<Rightarrow>
          (let pkt = (case res of
                Inl e \<Rightarrow> \<lparr>rdata = [], rsender = None, rerr = Some e\<rparr>
              | Inr (d, addr) \<Rightarrow> \<lparr>rdata = take (rbuffSize (th m)) d, rsender = Some addr, rerr = None\<rparr>)
           in Some (m\<lparr>reader := Out start pkt, arrived := arrived m @ [pkt]\<rparr>))
      | _ \<Rightarrow> None)"

definition read_send :: "ThState \<Rightarrow> ThState option" where
  "read_send m =
     (case reader m of
        Out start pkt \<Rightarrow>
          if length (recv (th m)) < chan_cap
          then Some (m\<lparr>th := (th m)\<lparr>recv := recv (th m) @ [pkt]\<rparr>,
                 reader := Asleep (clock m + throttleOperation (th m) (time_Sub (clock m) start))\<rparr>)
          else None
      | _ \<Rightarrow> None)"

definition read_wake :: "ThState \<Rightarrow> ThState option" where
  "read_wake m =
     (case reader m of
        Asleep until \<Rightarrow> if until \<le> clock m then Some (m\<lparr>reader := Top\<rparr>) else None
      | _ \<Rightarrow> None)"

definition ReadFrom :: "ThState \<Rightarrow> (readPkt \<times> ThState) option" where
  "ReadFrom m =
     (case recv (th m) of
        [] \<Rightarrow> None
      | pkt # pkts \<Rightarrow> Some (pkt, m\<lparr>th := (th m)\<lparr>recv := pkts\<rparr>, taken := taken m @ [pkt]\<rparr>))"

text \<open>\<open>WriteTo\<close>: the caller makes its response channel, queues the packet and then waits on that
  channel, so the writer's answer is never blocked.\<close>

definition WriteTo :: "bytes \<Rightarrow> string \<Rightarrow> ThState \<Rightarrow> ThState option" where
  "WriteTo data addr m =
     (if length (send (th m)) < chan_cap
      then let pkt = \<lparr>wdata = data, wto = addr, respCh = length (submitted m)\<rparr>
           in Some (m\<lparr>th := (th m)\<lparr>send := send (th m) @ [pkt]\<rparr>, submitted := submitted m @ [pkt]\<rparr>)
      else None)"

definition write_start :: "ThState \<Rightarrow> ThState option" where
  "write_start m =
     (case (writer m, send (th m)) of
        (Top, pkt # pkts) \<Rightarrow>
          Some (m\<lparr>th := (th m)\<lparr>send := pkts\<rparr>, writer := Op (clock m) pkt,
             wstarts := wstarts m @ [clock m]\<rparr>)
      | _ \<Rightarrow> None)"

definition write_conn :: "writeStatus \<Rightarrow> ThState \<Rightarrow> ThState option" where
  "write_conn st m =
     (case writer m of
        Op start pkt \<Rightarrow> Some (m\<lparr>writer := Out start (pkt, st)\<rparr>)
      | _ \<Rightarrow> None)"

definition write_reply :: "ThState \<Rightarrow> ThState option" where
  "write_reply m =
     (case writer m of
        Out start ans \<Rightarrow>
          Some (m\<lparr>writer := Asleep (clock m + throttleOperation (th m) (time_Sub (clock m) start)),
             answered := answered m @ [ans]\<rparr>)
      | _ \<Rightarrow> None)"

definition write_wake :: "ThState \<Rightarrow> ThState option" where
  "write_wake m =
     (case writer m of
        Asleep until \<Rightarrow> if until \<le> clock m then Some (m\<lparr>writer := Top\<rparr>) else None
      | _ \<Rightarrow> None)"

text \<open>\<open>Shutdown\<close> sends once per routine on \<open>done\<close>; a send on a nil channel never proceeds, and a
  send on a channel meets a routine at its \<open>select\<close>, which then returns.\<close>

definition Shutdown_call :: "ThState \<Rightarrow> ThState option" where
  "Shutdown_call m = (if shutting m = None then Some (m\<lparr>shutting := Some 0\<rparr>) else None)"

definition Shutdown_stop_reader :: "ThState \<Rightarrow> ThState option" where
  "Shutdown_stop_reader m =
     (if done_ready m \<and> reader m = Top
      then Some (m\<lparr>shutting := map_option Suc (shutting m), reader := Returned\<rparr>) else None)"

definition Shutdown_stop_writer :: "ThState \<Rightarrow> ThState option" where
  "Shutdown_stop_writer m =
     (if done_ready m \<and> writer m = Top
      then Some (m\<lparr>shutting := map_option Suc (shutting m), writer := Returned\<rparr>) else None)"

definition Shutdown_return :: "ThState \<Rightarrow> ThState option" where
  "Shutdown_return m =
     (case shutting m of
        Some i \<Rightarrow> if i < activeRoutines (th m) then None else Some (m\<lparr>shutting := None, shut := True\<rparr>)
      | None \<Rightarrow> None)"

text \<open>The status the writer sent on a response channel.\<close>

definition write_status :: "nat \<Rightarrow> ThState \<Rightarrow> writeStatus option" where
  "write_status i t = map_option snd (find (\<lambda>(p, st). respCh p = i) (answered t))"

text \<open>The actions at a constant rate, and all actions.\<close>

inductive run_step :: "ThState \<Rightarrow> ThState \<Rightarrow> bool" where
  rs_elapse: "elapse d m = Some m' \<Longrightarrow> run_step m m'"
| rs_read_start: "read_start m = Some m' \<Longrightarrow> run_step m m'"
| rs_read_conn: "read_conn res m = Some m' \<Longrightarrow> run_step m m'"
| rs_read_send: "read_send m = Some m' \<Longrightarrow> run_step m m'"
| rs_read_wake: "read_wake m = Some m' \<Longrightarrow> run_step m m'"
| rs_ReadFrom: "ReadFrom m = Some (pkt, m') \<Longrightarrow> run_step m m'"
| rs_WriteTo: "WriteTo data addr m = Some m' \<Longrightarrow> run_step m m'"
| rs_write_start: "write_start m = Some m' \<Longrightarrow> run_step m m'"
| rs_write_conn: "write_conn st m = Some m' \<Longrightarrow> run_step m m'"
| rs_write_reply: "write_reply m = Some m' \<Longrightarrow> run_step m m'"
| rs_write_wake: "write_wake m = Some m' \<Longrightarrow> run_step m m'"
| rs_Shutdown_call: "Shutdown_call m = Some m' \<Longrightarrow> run_step m m'"
| rs_stop_reader: "Shutdown_stop_reader m = Some m' \<Longrightarrow> run_step m m'"
| rs_stop_writer: "Shutdown_stop_writer m = Some m' \<Longrightarrow> run_step m m'"
| rs_Shutdown_return: "Shutdown_return m = Some m' \<Longrightarrow> run_step m m'"

inductive th_step :: "ThState \<Rightarrow> ThState \<Rightarrow> bool" where
  ts_run: "run_step m m' \<Longrightarrow> th_step m m'"
| ts_set: "SetThroughput r (th m) = Inr t \<Longrightarrow> th_step m (m\<lparr>th := t\<rparr>)"
| ts_scale: "ScaleThroughput f (th m) = Inr t \<Longrightarrow> th_step m (m\<lparr>th := t\<rparr>)"

text \<open>A step of the throttle that is none of a caller's. A client or a server is the only caller of its
  throttle.\<close>

definition own_step :: "ThState \<Rightarrow> ThState \<Rightarrow> bool" where
  "own_step t t' \<longleftrightarrow>
     taken t' = taken t \<and> submitted t' = submitted t \<and> (shutting t = None \<longrightarrow> shutting t' = None)"

section \<open>The time per operation\<close>

lemma sint_word_of_int64: "- (2 ^ 63) \<le> x \<Longrightarrow> x < 2 ^ 63 \<Longrightarrow> sint (word_of_int x :: 64 word) = x"
  by (simp add: signed_take_bit_int_eq_self sint_sbintrunc')

lemma tpo_of_zero [simp]: "tpo_of 0 = Inl DivideByZero"
  by (simp add: tpo_of_def quo_def)

lemma tpo_of_pos:
  assumes "0 < sint r"
  shows "\<exists>t. tpo_of r = Inr t \<and> sint t = sec div sint r"
proof -
  have "0 \<le> sec div sint r"
    using assms by (simp add: sec_def pos_imp_zdiv_nonneg_iff)
  moreover have "sec div sint r \<le> sec div 1"
    using assms by (intro zdiv_mono2) (simp_all add: sec_def)
  ultimately have "sint (word_of_int (sec div sint r) :: 64 word) = sec div sint r"
    by (intro sint_word_of_int64) (simp_all add: sec_def)
  then show ?thesis
    using assms by (simp add: tpo_of_def quo_def sec_def)
qed

lemma ParseDuration_ns:
  assumes "0 \<le> n" and "n < 2 ^ 63"
  shows "ParseDuration (dec_int n @ ''ns'') = Some n"
proof -
  have "list_all is_digit (dec_nat (nat n))"
    by (rule dec_nat_digits)
  then have "takeWhile is_digit (dec_nat (nat n) @ ''ns'') = dec_nat (nat n)"
    "dropWhile is_digit (dec_nat (nat n) @ ''ns'') = ''ns''"
    by (simp_all add: list_all_iff is_digit_def)
  then show ?thesis
    using assms by (simp add: ParseDuration_def dec_int_def duration_unit_def)
qed

text \<open>An operation that took \<open>dur\<close> is followed by the sleep that completes it to \<open>tpo\<close>.\<close>

lemma throttleOperation_eq:
  assumes "0 \<le> sint (tpo t)" and "0 \<le> sint dur"
  shows "throttleOperation t dur = max 0 (sint (tpo t) - sint dur)"
proof -
  have "sint (tpo t) < 2 ^ 63" "sint dur < 2 ^ 63"
    using sint_lt [of "tpo t"] sint_lt [of dur] by simp_all
  then have "sint (tpo t - dur) = sint (tpo t) - sint dur"
    using assms by (simp add: sint_word_diff signed_take_bit_int_eq_self)
  then show ?thesis
    using assms ParseDuration_ns [of "sint (tpo t) - sint dur"] \<open>sint (tpo t) < 2 ^ 63\<close>
    by (simp add: throttleOperation_def Let_def)
qed

lemma time_Sub_nonneg: "u \<le> t \<Longrightarrow> sint (time_Sub t u) = min (2 ^ 63 - 1) (t - u)"
  unfolding time_Sub_def by (subst sint_word_of_int64) auto

lemma throttled_until:
  assumes "0 \<le> sint (tpo t)" and "start \<le> now"
  shows "start + sint (tpo t) \<le> now + throttleOperation t (time_Sub now start)"
proof -
  have "sint (tpo t) < 2 ^ 63"
    using sint_lt [of "tpo t"] by simp
  then show ?thesis
    using assms by (simp add: time_Sub_nonneg throttleOperation_eq)
qed

section \<open>What each action does\<close>

lemma read_start_effect:
  "read_start m = Some m' \<Longrightarrow> reader m = Top \<and> \<not> done_ready m \<and>
     m' = m\<lparr>reader := Op (clock m) (), rstarts := rstarts m @ [clock m]\<rparr>"
  by (cases "reader m"; cases "done_ready m") (simp_all add: read_start_def)

lemma read_conn_effect:
  "read_conn res m = Some m' \<Longrightarrow>
     \<exists>s pkt. reader m = Op s () \<and> m' = m\<lparr>reader := Out s pkt, arrived := arrived m @ [pkt]\<rparr>"
  by (cases "reader m") (auto simp: read_conn_def Let_def)

lemma read_send_effect:
  "read_send m = Some m' \<Longrightarrow>
     \<exists>s pkt. reader m = Out s pkt \<and> length (recv (th m)) < chan_cap \<and>
       m' = m\<lparr>th := (th m)\<lparr>recv := recv (th m) @ [pkt]\<rparr>,
              reader := Asleep (clock m + throttleOperation (th m) (time_Sub (clock m) s))\<rparr>"
  by (cases "reader m"; cases "length (recv (th m)) < chan_cap") (simp_all add: read_send_def)

lemma read_wake_effect:
  "read_wake m = Some m' \<Longrightarrow> \<exists>u. reader m = Asleep u \<and> u \<le> clock m \<and> m' = m\<lparr>reader := Top\<rparr>"
  by (cases "reader m") (simp_all add: read_wake_def split: if_splits)

lemma ReadFrom_effect:
  "ReadFrom m = Some (pkt, m') \<Longrightarrow>
     \<exists>pkts. recv (th m) = pkt # pkts \<and> m' = m\<lparr>th := (th m)\<lparr>recv := pkts\<rparr>, taken := taken m @ [pkt]\<rparr>"
  by (cases "recv (th m)") (simp_all add: ReadFrom_def)

lemma WriteTo_effect:
  "WriteTo data addr m = Some m' \<Longrightarrow> length (send (th m)) < chan_cap \<and>
     (let pkt = \<lparr>wdata = data, wto = addr, respCh = length (submitted m)\<rparr>
      in m' = m\<lparr>th := (th m)\<lparr>send := send (th m) @ [pkt]\<rparr>, submitted := submitted m @ [pkt]\<rparr>)"
  by (cases "length (send (th m)) < chan_cap") (auto simp: WriteTo_def Let_def)

lemma write_start_effect:
  "write_start m = Some m' \<Longrightarrow>
     \<exists>pkt pkts. writer m = Top \<and> send (th m) = pkt # pkts \<and>
       m' = m\<lparr>th := (th m)\<lparr>send := pkts\<rparr>, writer := Op (clock m) pkt, wstarts := wstarts m @ [clock m]\<rparr>"
  by (cases "writer m"; cases "send (th m)") (simp_all add: write_start_def)

lemma write_conn_effect:
  "write_conn st m = Some m' \<Longrightarrow>
     \<exists>s pkt. writer m = Op s pkt \<and> m' = m\<lparr>writer := Out s (pkt, st)\<rparr>"
  by (cases "writer m") (simp_all add: write_conn_def)

lemma write_reply_effect:
  "write_reply m = Some m' \<Longrightarrow>
     \<exists>s ans. writer m = Out s ans \<and>
       m' = m\<lparr>writer := Asleep (clock m + throttleOperation (th m) (time_Sub (clock m) s)),
              answered := answered m @ [ans]\<rparr>"
  by (cases "writer m") (simp_all add: write_reply_def)

lemma write_wake_effect:
  "write_wake m = Some m' \<Longrightarrow> \<exists>u. writer m = Asleep u \<and> u \<le> clock m \<and> m' = m\<lparr>writer := Top\<rparr>"
  by (cases "writer m") (simp_all add: write_wake_def split: if_splits)

lemma stop_reader_effect:
  "Shutdown_stop_reader m = Some m' \<Longrightarrow> done_ready m \<and> reader m = Top \<and>
     m' = m\<lparr>shutting := map_option Suc (shutting m), reader := Returned\<rparr>"
  by (simp add: Shutdown_stop_reader_def split: if_splits)

lemma stop_writer_effect:
  "Shutdown_stop_writer m = Some m' \<Longrightarrow> done_ready m \<and> writer m = Top \<and>
     m' = m\<lparr>shutting := map_option Suc (shutting m), writer := Returned\<rparr>"
  by (simp add: Shutdown_stop_writer_def split: if_splits)

lemma Shutdown_call_effect:
  "Shutdown_call m = Some m' \<Longrightarrow> shutting m = None \<and> m' = m\<lparr>shutting := Some 0\<rparr>"
  by (simp add: Shutdown_call_def split: if_splits)

lemma Shutdown_return_effect:
  "Shutdown_return m = Some m' \<Longrightarrow>
     \<exists>i. shutting m = Some i \<and> activeRoutines (th m) \<le> i \<and> m' = m\<lparr>shutting := None, shut := True\<rparr>"
  by (cases "shutting m") (simp_all add: Shutdown_return_def split: if_splits)

lemmas idle_effects = ReadFrom_effect WriteTo_effect Shutdown_call_effect Shutdown_return_effect

section \<open>Pacing\<close>

text \<open>\<open>paced T now starts r\<close>: the operations of a routine started at least \<open>T\<close> apart, and the routine
  is in a position from which the next one will be, too.\<close>

definition gaps :: "int \<Rightarrow> int list \<Rightarrow> bool" where
  "gaps T starts \<longleftrightarrow> sorted_wrt (\<lambda>x y. x + T \<le> y) starts"

definition busy :: "int \<Rightarrow> int \<Rightarrow> int list \<Rightarrow> int \<Rightarrow> bool" where
  "busy T now starts s \<longleftrightarrow> gaps T starts \<and> s \<le> now \<and> (\<forall>x \<in> set starts. x + T \<le> s \<or> x = s)"

definition rested :: "int \<Rightarrow> int \<Rightarrow> int list \<Rightarrow> bool" where
  "rested T u starts \<longleftrightarrow> gaps T starts \<and> (\<forall>x \<in> set starts. x + T \<le> u)"

fun paced :: "int \<Rightarrow> int \<Rightarrow> int list \<Rightarrow> ('o, 'r) routine \<Rightarrow> bool" where
  "paced T now starts Top = rested T now starts"
| "paced T now starts (Op s x) = busy T now starts s"
| "paced T now starts (Out s y) = busy T now starts s"
| "paced T now starts (Asleep u) = rested T u starts"
| "paced T now starts Returned = gaps T starts"

lemma rested_mono: "rested T u starts \<Longrightarrow> u \<le> v \<Longrightarrow> rested T v starts"
  by (fastforce simp: rested_def)

lemma rested_gaps: "rested T u starts \<Longrightarrow> gaps T starts"
  by (simp add: rested_def)

lemma rested_start: "rested T now starts \<Longrightarrow> busy T now (starts @ [now]) now"
  by (auto simp: rested_def busy_def gaps_def sorted_wrt_append)

lemma paced_elapse: "paced T now starts r \<Longrightarrow> paced T (now + int d) starts r"
  by (cases r) (auto simp: busy_def intro: rested_mono)

lemma paced_gaps: "paced T now starts r \<Longrightarrow> gaps T starts"
  by (cases r) (auto simp: busy_def rested_def)

lemma busy_throttled:
  assumes "busy (sint (tpo t)) now starts s" and "0 \<le> sint (tpo t)"
  shows "rested (sint (tpo t)) (now + throttleOperation t (time_Sub now s)) starts"
proof -
  have "s + sint (tpo t) \<le> now + throttleOperation t (time_Sub now s)"
    using assms by (simp add: busy_def throttled_until)
  then show ?thesis
    using assms by (fastforce simp: busy_def rested_def)
qed

lemma gaps_nth:
  assumes "gaps T starts" and "i \<le> j" and "j < length starts"
  shows "int (j - i) * T \<le> starts ! j - starts ! i"
  using assms(2,3)
proof (induction j)
  case (Suc j)
  show ?case
  proof (cases "i = Suc j")
    case False
    then have "int (j - i) * T \<le> starts ! j - starts ! i"
      using Suc by simp
    moreover have "starts ! j + T \<le> starts ! Suc j"
      using assms(1) Suc.prems sorted_wrt_nth_less [of "\<lambda>x y. x + T \<le> y" starts j "Suc j"]
      by (simp add: gaps_def)
    ultimately show ?thesis
      using False Suc.prems by (simp add: Suc_diff_le algebra_simps)
  qed simp
qed simp

definition pace_inv :: "int \<Rightarrow> ThState \<Rightarrow> bool" where
  "pace_inv T m \<longleftrightarrow> 0 \<le> T \<and> sint (tpo (th m)) = T \<and>
     paced T (clock m) (rstarts m) (reader m) \<and> paced T (clock m) (wstarts m) (writer m)"

lemma pace_inv_step:
  assumes "run_step m m'" and "pace_inv T m"
  shows "pace_inv T m'"
  using assms
proof cases
  case (rs_elapse d)
  then show ?thesis
    using assms(2) by (auto simp: pace_inv_def elapse_def paced_elapse)
next
  case rs_read_start
  then show ?thesis
    using assms(2) by (auto simp: pace_inv_def rested_start dest!: read_start_effect)
next
  case (rs_read_conn res)
  then show ?thesis
    using assms(2) by (auto simp: pace_inv_def dest!: read_conn_effect)
next
  case rs_read_send
  then show ?thesis
    using assms(2) by (auto simp: pace_inv_def busy_throttled dest!: read_send_effect)
next
  case rs_read_wake
  then show ?thesis
    using assms(2) rested_mono [of T _ "rstarts m"] by (auto simp: pace_inv_def dest!: read_wake_effect)
next
  case rs_write_start
  then show ?thesis
    using assms(2) by (auto simp: pace_inv_def rested_start dest!: write_start_effect)
next
  case (rs_write_conn st)
  then show ?thesis
    using assms(2) by (auto simp: pace_inv_def dest!: write_conn_effect)
next
  case rs_write_reply
  then show ?thesis
    using assms(2) by (auto simp: pace_inv_def busy_throttled dest!: write_reply_effect)
next
  case rs_write_wake
  then show ?thesis
    using assms(2) rested_mono [of T _ "wstarts m"] by (auto simp: pace_inv_def dest!: write_wake_effect)
next
  case rs_stop_reader
  then show ?thesis
    using assms(2) by (auto simp: pace_inv_def rested_gaps dest!: stop_reader_effect)
next
  case rs_stop_writer
  then show ?thesis
    using assms(2) by (auto simp: pace_inv_def rested_gaps dest!: stop_writer_effect)
qed (use assms(2) in \<open>auto simp: pace_inv_def Let_def dest!: idle_effects\<close>)

interpretation pace: transition_invariant "pace_inv T" run_step "pace_inv T" for T
  by unfold_locales (auto intro: pace_inv_step)


text \<open>
  How many operations fit into a period: the starts lie between the time the throttle was made and now,
  every packet that arrived belongs to a started read, and every answer to a started write.
\<close>

fun in_op :: "('o, 'r) routine \<Rightarrow> nat" where
  "in_op (Op s x) = 1"
| "in_op _ = 0"

fun in_out :: "('o, 'r) routine \<Rightarrow> nat" where
  "in_out (Out s y) = 1"
| "in_out _ = 0"

definition within :: "int \<Rightarrow> int \<Rightarrow> int list \<Rightarrow> bool" where
  "within since now starts \<longleftrightarrow> (\<forall>x \<in> set starts. since \<le> x \<and> x \<le> now)"

definition count_inv :: "int \<Rightarrow> ThState \<Rightarrow> bool" where
  "count_inv since m \<longleftrightarrow> since \<le> clock m \<and> within since (clock m) (rstarts m) \<and> within since (clock m) (wstarts m) \<and>
     length (rstarts m) = length (arrived m) + in_op (reader m) \<and>
     length (wstarts m) = length (answered m) + in_op (writer m) + in_out (writer m)"

lemma count_inv_step:
  assumes "run_step m m'" and "count_inv since m"
  shows "count_inv since m'"
  using assms
proof cases
  case (rs_elapse d)
  then show ?thesis
    using assms(2) by (fastforce simp: count_inv_def within_def elapse_def)
qed (use assms(2) in \<open>auto simp: count_inv_def within_def Let_def dest!: read_start_effect read_conn_effect
  read_send_effect read_wake_effect write_start_effect write_conn_effect write_reply_effect
  write_wake_effect stop_reader_effect stop_writer_effect idle_effects\<close>)

lemma gaps_count:
  assumes "gaps T starts" and "within since now starts" and "since \<le> now" and "0 \<le> T"
  shows "int (length starts) * T \<le> now - since + T"
proof (cases starts)
  case (Cons x xs)
  let ?j = "length starts - 1"
  have "int (?j - 0) * T \<le> starts ! ?j - starts ! 0"
    by (rule gaps_nth [OF assms(1)]) (simp_all add: Cons)
  moreover have "starts ! ?j \<le> now" "since \<le> starts ! 0"
    using assms(2) nth_mem [of ?j starts] by (auto simp: within_def Cons)
  ultimately show ?thesis
    by (simp add: Cons algebra_simps)
qed (use assms in simp)

section \<open>Queues\<close>

definition reading :: "(unit, readPkt) routine \<Rightarrow> readPkt list" where
  "reading r = (case r of Out s pkt \<Rightarrow> [pkt] | _ \<Rightarrow> [])"

definition writing :: "(writePkt, writePkt \<times> writeStatus) routine \<Rightarrow> writePkt list" where
  "writing r = (case r of Op s pkt \<Rightarrow> [pkt] | Out s ans \<Rightarrow> [fst ans] | _ \<Rightarrow> [])"

lemma reading_simps [simp]:
  "reading Top = []" "reading (Op s u) = []" "reading (Out s pkt) = [pkt]" "reading (Asleep t) = []"
  "reading Returned = []"
  by (simp_all add: reading_def)

lemma writing_simps [simp]:
  "writing Top = []" "writing (Op s pkt) = [pkt]" "writing (Out s ans) = [fst ans]"
  "writing (Asleep t) = []" "writing Returned = []"
  by (simp_all add: writing_def)

text \<open>
  The channels stay within their capacity; what arrived is what was taken, then what is queued, then
  what the reader holds; what was submitted is what was answered, then what the writer holds, then
  what is queued; and every submission has a response channel of its own.
\<close>

definition queue_inv :: "ThState \<Rightarrow> bool" where
  "queue_inv m \<longleftrightarrow>
     length (recv (th m)) \<le> chan_cap \<and> length (send (th m)) \<le> chan_cap \<and>
     arrived m = taken m @ recv (th m) @ reading (reader m) \<and>
     submitted m = map fst (answered m) @ writing (writer m) @ send (th m) \<and>
     map respCh (submitted m) = [0..<length (submitted m)]"

text \<open>Nothing makes the channel \<open>done\<close>, so no call of \<open>Shutdown\<close> gets past its first send.\<close>

definition stuck_inv :: "ThState \<Rightarrow> bool" where
  "stuck_inv m \<longleftrightarrow>
     \<not> done_made (th m) \<and> activeRoutines (th m) = 2 \<and> shutting m \<in> {None, Some 0} \<and> \<not> shut m \<and>
     reader m \<noteq> Returned \<and> writer m \<noteq> Returned"

lemma stuck_not_ready: "stuck_inv m \<Longrightarrow> \<not> done_ready m"
  by (auto simp: stuck_inv_def done_ready_def)

lemma SetThroughput_frame:
  "SetThroughput r t = Inr t' \<Longrightarrow> \<exists>r' p. t' = t\<lparr>rate := r', tpo := p\<rparr>"
  by (auto simp: SetThroughput_def go_simps)

lemma ScaleThroughput_frame:
  "ScaleThroughput f t = Inr t' \<Longrightarrow> \<exists>r' p. t' = t\<lparr>rate := r', tpo := p\<rparr>"
  by (auto simp: ScaleThroughput_def Let_def go_simps)

lemma queue_inv_run:
  assumes "run_step m m'" and "queue_inv m"
  shows "queue_inv m'"
  using assms
proof cases
  case (rs_elapse d)
  then show ?thesis
    using assms(2) by (auto simp: queue_inv_def elapse_def)
qed (use assms(2) in \<open>auto simp: queue_inv_def Let_def dest!: read_start_effect read_conn_effect
  read_send_effect read_wake_effect write_start_effect write_conn_effect write_reply_effect
  write_wake_effect stop_reader_effect stop_writer_effect idle_effects\<close>)

lemma stuck_inv_run:
  assumes "run_step m m'" and "stuck_inv m"
  shows "stuck_inv m'"
  using assms
proof cases
  case (rs_elapse d)
  then show ?thesis
    using assms(2) by (auto simp: stuck_inv_def elapse_def)
qed (use assms(2) stuck_not_ready [OF assms(2)] in \<open>auto simp: stuck_inv_def Let_def dest!: read_start_effect
  read_conn_effect read_send_effect read_wake_effect write_start_effect write_conn_effect
  write_reply_effect write_wake_effect stop_reader_effect stop_writer_effect idle_effects\<close>)

lemma queue_inv_step: "queue_inv m \<Longrightarrow> th_step m m' \<Longrightarrow> queue_inv m'"
  by (erule th_step.cases)
    (simp add: queue_inv_run, (auto simp: queue_inv_def dest!: SetThroughput_frame ScaleThroughput_frame))

lemma stuck_inv_step: "stuck_inv m \<Longrightarrow> th_step m m' \<Longrightarrow> stuck_inv m'"
  by (erule th_step.cases)
    (simp add: stuck_inv_run, (auto simp: stuck_inv_def dest!: SetThroughput_frame ScaleThroughput_frame))

text \<open>At most one operation of each kind per time per operation, and one more.\<close>

lemma throughput_bounded:
  assumes "pace_inv T m" and "count_inv since m" and "queue_inv m"
  shows "int (length (taken m)) * T \<le> clock m - since + T" and "int (length (answered m)) * T \<le> clock m - since + T"
proof -
  have T: "0 \<le> T" and "gaps T (rstarts m)" "gaps T (wstarts m)"
    using assms(1) by (auto simp: pace_inv_def dest: paced_gaps)
  then have "int (length (rstarts m)) * T \<le> clock m - since + T" "int (length (wstarts m)) * T \<le> clock m - since + T"
    using assms(2) gaps_count unfolding count_inv_def by blast+
  moreover have "length (taken m) \<le> length (rstarts m)" "length (answered m) \<le> length (wstarts m)"
    using assms(2,3) by (simp_all add: count_inv_def queue_inv_def)
  then have "int (length (taken m)) * T \<le> int (length (rstarts m)) * T"
    "int (length (answered m)) * T \<le> int (length (wstarts m)) * T"
    using T by (simp_all add: mult_right_mono)
  ultimately show "int (length (taken m)) * T \<le> clock m - since + T" "int (length (answered m)) * T \<le> clock m - since + T"
    by linarith+
qed

lemma new_throttle_paced:
  assumes "NewUDPThrottle r sz = Inr t" and "0 < sint r"
  shows "pace_inv (sec div sint r) (th_init t now) \<and> count_inv now (th_init t now) \<and> queue_inv (th_init t now)"
proof -
  have "sint (tpo t) = sec div sint r" "0 \<le> sec div sint r" "recv t = []" "send t = []"
    using assms tpo_of_pos [OF assms(2)]
    by (auto simp: NewUDPThrottle_def go_simps sec_def pos_imp_zdiv_nonneg_iff)
  then show ?thesis
    by (simp add: pace_inv_def count_inv_def queue_inv_def within_def th_init_def rested_def gaps_def)
qed

interpretation counted: transition_invariant
  "\<lambda>m. pace_inv T m \<and> count_inv since m \<and> queue_inv m" run_step "\<lambda>m. pace_inv T m \<and> count_inv since m \<and> queue_inv m"
  for T since
  by unfold_locales (auto intro: pace_inv_step count_inv_step queue_inv_run)

text \<open>A throttle that was just made.\<close>

definition th_start :: "ThState \<Rightarrow> bool" where
  "th_start m \<longleftrightarrow> (\<exists>r sz t now. NewUDPThrottle r sz = Inr t \<and> m = th_init t now)"

lemma th_start_inv: "th_start m \<Longrightarrow> queue_inv m \<and> stuck_inv m"
  by (auto simp: th_start_def NewUDPThrottle_def go_simps th_init_def queue_inv_def stuck_inv_def)

interpretation thq: transition_invariant th_start th_step "\<lambda>m. queue_inv m \<and> stuck_inv m"
  by unfold_locales (auto intro: queue_inv_step stuck_inv_step dest: th_start_inv)


section \<open>The writer answers\<close>

lemma asleep_wakes:
  assumes "writer m = Asleep u"
  shows "\<exists>m'. run_step\<^sup>*\<^sup>* m m' \<and> writer m' = Top \<and> send (th m') = send (th m) \<and> answered m' = answered m"
proof -
  let ?m1 = "m\<lparr>clock := clock m + int (nat (u - clock m))\<rparr>"
  have "run_step m ?m1"
    by (rule rs_elapse [of "nat (u - clock m)"]) (simp add: elapse_def)
  moreover have "run_step ?m1 (?m1\<lparr>writer := Top\<rparr>)"
    by (rule rs_write_wake) (simp add: write_wake_def assms)
  ultimately have "run_step\<^sup>*\<^sup>* m (?m1\<lparr>writer := Top\<rparr>)"
    by (meson converse_rtranclp_into_rtranclp r_into_rtranclp)
  then show ?thesis
    by (intro exI [of _ "?m1\<lparr>writer := Top\<rparr>"]) simp
qed

lemma out_answers:
  assumes "writer m = Out s ans"
  shows "\<exists>m'. run_step\<^sup>*\<^sup>* m m' \<and> writer m' = Top \<and> send (th m') = send (th m) \<and>
    answered m' = answered m @ [ans]"
proof -
  define u where "u = clock m + throttleOperation (th m) (time_Sub (clock m) s)"
  let ?m1 = "m\<lparr>writer := Asleep u, answered := answered m @ [ans]\<rparr>"
  have step: "run_step m ?m1"
    by (rule rs_write_reply) (simp add: write_reply_def assms u_def)
  obtain m' where "run_step\<^sup>*\<^sup>* ?m1 m'" "writer m' = Top" "send (th m') = send (th m)"
    "answered m' = answered m @ [ans]"
    using asleep_wakes [of ?m1 u] by auto
  then show ?thesis
    using converse_rtranclp_into_rtranclp [of run_step, OF step] by blast
qed

lemma writer_gets_idle:
  assumes "writer m \<noteq> Returned"
  shows "\<exists>m'. run_step\<^sup>*\<^sup>* m m' \<and> writer m' = Top \<and> send (th m') = send (th m) \<and>
    map fst (answered m') = map fst (answered m) @ writing (writer m)"
proof (cases "writer m")
  case (Op s pkt)
  let ?st = "\<lparr>written = 0, werr = None\<rparr>"
  let ?m1 = "m\<lparr>writer := Out s (pkt, ?st)\<rparr>"
  have step: "run_step m ?m1"
    by (rule rs_write_conn [of ?st]) (simp add: write_conn_def Op)
  obtain m' where "run_step\<^sup>*\<^sup>* ?m1 m'" "writer m' = Top" "send (th m') = send (th m)"
    "answered m' = answered m @ [(pkt, ?st)]"
    using out_answers [of ?m1 s "(pkt, ?st)"] by auto
  then show ?thesis
    using converse_rtranclp_into_rtranclp [of run_step, OF step] Op by fastforce
next
  case (Out s ans)
  then show ?thesis
    using out_answers [OF Out] by fastforce
next
  case (Asleep u)
  then show ?thesis
    using asleep_wakes [OF Asleep] by fastforce
qed (use assms in auto)

lemma writer_drains:
  "send (th m) = pkts \<Longrightarrow> writer m = Top \<Longrightarrow>
     \<exists>m'. run_step\<^sup>*\<^sup>* m m' \<and> map fst (answered m') = map fst (answered m) @ pkts"
proof (induction pkts arbitrary: m)
  case Nil
  then show ?case by force
next
  case (Cons pkt pkts)
  let ?m1 = "m\<lparr>th := (th m)\<lparr>send := pkts\<rparr>, writer := Op (clock m) pkt, wstarts := wstarts m @ [clock m]\<rparr>"
  have step: "run_step m ?m1"
    using Cons.prems by (intro rs_write_start) (simp add: write_start_def)
  obtain m2 where m2: "run_step\<^sup>*\<^sup>* ?m1 m2" "writer m2 = Top" "send (th m2) = pkts"
    "map fst (answered m2) = map fst (answered m) @ [pkt]"
    using writer_gets_idle [of ?m1] by auto
  obtain m' where "run_step\<^sup>*\<^sup>* m2 m'" "map fst (answered m') = map fst (answered m2) @ pkts"
    using Cons.IH [OF m2(3,2)] by blast
  moreover have "run_step\<^sup>*\<^sup>* m m'"
    using step m2(1) \<open>run_step\<^sup>*\<^sup>* m2 m'\<close> by (meson converse_rtranclp_into_rtranclp rtranclp_trans)
  ultimately show ?case
    using m2(4) by auto
qed

section \<open>Properties of the throttle\<close>

text \<open>A run of concrete actions, for the witnesses.\<close>

fun run_ops :: "(ThState \<Rightarrow> ThState option) list \<Rightarrow> ThState \<Rightarrow> ThState option" where
  "run_ops [] m = Some m"
| "run_ops (f # fs) m = (case f m of None \<Rightarrow> None | Some m' \<Rightarrow> run_ops fs m')"

lemma run_ops_steps:
  "run_ops fs m = Some m' \<Longrightarrow> (\<And>f a b. f \<in> set fs \<Longrightarrow> f a = Some b \<Longrightarrow> run_step a b) \<Longrightarrow> run_step\<^sup>*\<^sup>* m m'"
proof (induction fs arbitrary: m)
  case (Cons f fs)
  then obtain m1 where "f m = Some m1" "run_ops fs m1 = Some m'"
    by (auto split: option.splits)
  moreover from this have "run_step m m1"
    using Cons.prems(2) [of f m m1] by simp
  moreover have "run_step\<^sup>*\<^sup>* m1 m'"
    by (rule Cons.IH [OF \<open>run_ops fs m1 = Some m'\<close>]) (use Cons.prems(2) in auto)
  ultimately show ?case
    by (blast intro: converse_rtranclp_into_rtranclp)
qed simp

definition demo_throttle :: UDPThrottle where
  "demo_throttle = \<lparr>rate = Rate1k, tpo = 1000000, rbuffSize = 4096, recv = [], send = [],
     done_made = False, activeRoutines = 2\<rparr>"

definition demo_ops :: "(ThState \<Rightarrow> ThState option) list" where
  "demo_ops = [read_start, read_conn (Inr (''hello'', ''10.0.0.1:9'')), read_send, elapse 1000000, read_wake,
     read_start, WriteTo ''hi'' ''10.0.0.1:9'']"

lemma demo_throttle_new: "NewUDPThrottle Rate1k 4096 = Inr demo_throttle"
  by (simp add: NewUDPThrottle_def tpo_of_def quo_def Rate1k_def sec_def demo_throttle_def)

lemma demo_run:
  "\<exists>m. run_step\<^sup>*\<^sup>* (th_init demo_throttle 0) m \<and> rstarts m = [0, 1000000] \<and> recv (th m) \<noteq> [] \<and>
     submitted m = [\<lparr>wdata = ''hi'', wto = ''10.0.0.1:9'', respCh = 0\<rparr>]"
proof -
  have "throttleOperation (demo_throttle\<lparr>recv := q\<rparr>) (time_Sub 0 0) = 1000000" for q
    by (subst throttleOperation_eq) (simp_all add: demo_throttle_def time_Sub_def)
  from this [of "[]"] have "throttleOperation demo_throttle (time_Sub 0 0) = 1000000"
    by (simp add: demo_throttle_def)
  then have "\<exists>m. run_ops demo_ops (th_init demo_throttle 0) = Some m \<and> rstarts m = [0, 1000000] \<and>
      recv (th m) \<noteq> [] \<and> submitted m = [\<lparr>wdata = ''hi'', wto = ''10.0.0.1:9'', respCh = 0\<rparr>]"
    by (simp add: demo_ops_def th_init_def read_start_def read_conn_def read_send_def elapse_def read_wake_def
        WriteTo_def done_ready_def chan_cap_def Let_def) (simp add: demo_throttle_def)
  moreover have "run_step a b" if "f \<in> set demo_ops" and "f a = Some b" for f a b
    using that by (auto simp: demo_ops_def intro: run_step.intros)
  ultimately show ?thesis
    using run_ops_steps by blast
qed

text \<open>
  C15: the throttle keeps its rate. While the rate is not changed, the operations of the reader start at
  least the integer quotient of a second and the rate apart, and so do those of the writer, so that
  \<open>n\<close> further operations take at least \<open>n\<close> times that long; this holds in every interleaving of the
  two routines with the callers, for every behaviour of the connection.
\<close>

theorem operations_spaced:
  assumes "NewUDPThrottle r sz = Inr t" and "0 < sint r" and "run_step\<^sup>*\<^sup>* (th_init t now) m"
  shows "(\<forall>i j. i \<le> j \<and> j < length (rstarts m) \<longrightarrow>
      int (j - i) * (sec div sint r) \<le> rstarts m ! j - rstarts m ! i) \<and>
    (\<forall>i j. i \<le> j \<and> j < length (wstarts m) \<longrightarrow>
      int (j - i) * (sec div sint r) \<le> wstarts m ! j - wstarts m ! i)"
proof -
  have "pace_inv (sec div sint r) (th_init t now)"
    using new_throttle_paced [OF assms(1,2)] by blast
  then have "pace_inv (sec div sint r) m"
    by (rule pace.reachable_inv [OF _ assms(3)])
  then have "gaps (sec div sint r) (rstarts m)" "gaps (sec div sint r) (wstarts m)"
    by (auto simp: pace_inv_def dest: paced_gaps)
  then show ?thesis
    using gaps_nth by blast
qed

theorem operations_spaced_witness:
  "\<exists>m. run_step\<^sup>*\<^sup>* (th_init demo_throttle 0) m \<and> length (rstarts m) = 2 \<and>
     1000000 \<le> rstarts m ! 1 - rstarts m ! 0"
proof -
  obtain m where m: "run_step\<^sup>*\<^sup>* (th_init demo_throttle 0) m" "rstarts m = [0, 1000000]"
    using demo_run by blast
  have "0 < sint Rate1k" "sec div sint Rate1k = 1000000"
    by (simp_all add: Rate1k_def sec_def)
  then have "1000000 \<le> rstarts m ! 1 - rstarts m ! 0"
    using operations_spaced [OF demo_throttle_new _ m(1)] m(2) by (auto dest: spec [of _ 0])
  then show ?thesis
    using m by auto
qed


text \<open>
  C16: the throttle's queues lose nothing, duplicate nothing and keep the order. In every reachable
  state, also under changes of the rate, the packets handed to callers of \<open>ReadFrom\<close> are a prefix of
  the packets read from the connection, the writes that were answered are a prefix of the writes
  submitted, each with a response channel of its own, and neither channel holds more than 100 packets.
\<close>

theorem queues_in_order:
  assumes "NewUDPThrottle r sz = Inr t" and "th_step\<^sup>*\<^sup>* (th_init t now) m"
  shows "\<exists>pending unanswered. arrived m = taken m @ pending \<and> length pending \<le> 101 \<and>
    submitted m = map fst (answered m) @ unanswered \<and> length unanswered \<le> 101 \<and>
    distinct (map respCh (submitted m))"
proof -
  have "th_start (th_init t now)"
    using assms(1) by (auto simp: th_start_def)
  then have inv: "queue_inv m"
    using thq.reachable_inv assms(2) by blast
  have "length (reading r) \<le> 1" "length (writing w) \<le> 1" for r w
    by (cases r; cases w; simp)+
  then have "length (recv (th m) @ reading (reader m)) \<le> 101" "length (writing (writer m) @ send (th m)) \<le> 101"
    using inv add_mono [of "length (recv (th m))" 100 "length (reading (reader m))" 1]
      add_mono [of "length (writing (writer m))" 1 "length (send (th m))" 100]
    by (simp_all add: queue_inv_def chan_cap_def)
  moreover have "distinct (map respCh (submitted m))"
    using inv unfolding queue_inv_def by (metis distinct_upt)
  ultimately show ?thesis
    using inv unfolding queue_inv_def by metis
qed

lemma run_steps_th: "run_step\<^sup>*\<^sup>* m m' \<Longrightarrow> th_step\<^sup>*\<^sup>* m m'"
  by (rule mono_rtranclp [rule_format]) (auto intro: ts_run)

theorem queues_in_order_witness:
  "\<exists>m pending unanswered. th_step\<^sup>*\<^sup>* (th_init demo_throttle 0) m \<and> arrived m = taken m @ pending \<and>
     submitted m = map fst (answered m) @ unanswered \<and> length unanswered \<le> 101 \<and> submitted m \<noteq> []"
proof -
  obtain m where m: "run_step\<^sup>*\<^sup>* (th_init demo_throttle 0) m"
    "submitted m = [\<lparr>wdata = ''hi'', wto = ''10.0.0.1:9'', respCh = 0\<rparr>]"
    using demo_run by blast
  then have "submitted m \<noteq> []"
    by simp
  then show ?thesis
    using queues_in_order [OF demo_throttle_new run_steps_th [OF m(1)]] run_steps_th [OF m(1)] by blast
qed

text \<open>
  C23: a write is never stuck in the throttle. From every reachable state in which a write was
  submitted, the throttle has a continuation of its own steps after which that write was answered.
\<close>

theorem writes_can_be_answered:
  assumes "NewUDPThrottle r sz = Inr t" and "th_step\<^sup>*\<^sup>* (th_init t now) m" and "pkt \<in> set (submitted m)"
  shows "\<exists>m' st. run_step\<^sup>*\<^sup>* m m' \<and> (pkt, st) \<in> set (answered m')"
proof -
  have "th_start (th_init t now)"
    using assms(1) by (auto simp: th_start_def)
  then have inv: "queue_inv m" "stuck_inv m"
    using thq.reachable_inv assms(2) by blast+
  then obtain m1 where m1: "run_step\<^sup>*\<^sup>* m m1" "writer m1 = Top" "send (th m1) = send (th m)"
    "map fst (answered m1) = map fst (answered m) @ writing (writer m)"
    using writer_gets_idle [of m] by (auto simp: stuck_inv_def)
  obtain m' where m': "run_step\<^sup>*\<^sup>* m1 m'" "map fst (answered m') = map fst (answered m1) @ send (th m)"
    using writer_drains [OF m1(3,2)] by blast
  have "submitted m = map fst (answered m')"
    using inv(1) m1(4) m'(2) by (simp add: queue_inv_def)
  then have "\<exists>st. (pkt, st) \<in> set (answered m')"
    using assms(3) by auto
  then show ?thesis
    using m1(1) m'(1) by (meson rtranclp_trans)
qed

theorem writes_can_be_answered_witness:
  "\<exists>m m' st. th_step\<^sup>*\<^sup>* (th_init demo_throttle 0) m \<and> run_step\<^sup>*\<^sup>* m m' \<and>
     (\<lparr>wdata = ''hi'', wto = ''10.0.0.1:9'', respCh = 0\<rparr>, st) \<in> set (answered m')"
proof -
  obtain m where m: "run_step\<^sup>*\<^sup>* (th_init demo_throttle 0) m"
    "submitted m = [\<lparr>wdata = ''hi'', wto = ''10.0.0.1:9'', respCh = 0\<rparr>]"
    using demo_run by blast
  then show ?thesis
    using writes_can_be_answered [OF demo_throttle_new run_steps_th [OF m(1)],
        of "\<lparr>wdata = ''hi'', wto = ''10.0.0.1:9'', respCh = 0\<rparr>"] run_steps_th [OF m(1)]
    by auto
qed

text \<open>
  C35: \<open>Shutdown\<close> never returns and stops nothing. The channel it signals on is never made, so in every
  reachable state its send cannot proceed, neither routine has ended, and no call has come back.
\<close>

theorem Shutdown_never_returns:
  assumes "NewUDPThrottle r sz = Inr t" and "th_step\<^sup>*\<^sup>* (th_init t now) m"
  shows "\<not> shut m \<and> reader m \<noteq> Returned \<and> writer m \<noteq> Returned \<and>
    Shutdown_stop_reader m = None \<and> Shutdown_stop_writer m = None \<and> Shutdown_return m = None"
proof -
  have "th_start (th_init t now)"
    using assms(1) by (auto simp: th_start_def)
  then have inv: "stuck_inv m"
    using thq.reachable_inv assms(2) by blast
  then show ?thesis
    using stuck_not_ready [OF inv]
    by (auto simp: stuck_inv_def Shutdown_stop_reader_def Shutdown_stop_writer_def Shutdown_return_def)
qed

theorem Shutdown_never_returns_witness:
  "\<exists>m. Shutdown_call (th_init demo_throttle 0) = Some m \<and> Shutdown_stop_reader m = None \<and>
     Shutdown_stop_writer m = None \<and> Shutdown_return m = None"
proof -
  let ?m = "(th_init demo_throttle 0)\<lparr>shutting := Some 0\<rparr>"
  have call: "Shutdown_call (th_init demo_throttle 0) = Some ?m"
    by (simp add: Shutdown_call_def th_init_def)
  then have "th_step\<^sup>*\<^sup>* (th_init demo_throttle 0) ?m"
    by (intro r_into_rtranclp ts_run rs_Shutdown_call)
  then show ?thesis
    using Shutdown_never_returns [OF demo_throttle_new] call by blast
qed

text \<open>
  Setting a positive rate sets the time per operation to the exact integer quotient: that many
  nanoseconds times the rate is at most a second, and one nanosecond more would exceed it. A rate of
  zero panics.
\<close>

theorem SetThroughput_exact:
  assumes "0 < sint r"
  shows "\<exists>t'. SetThroughput r t = Inr t' \<and> Throughput t' = r \<and>
    sint (tpo t') * sint r \<le> sec \<and> sec < (sint (tpo t') + 1) * sint r \<and>
    SetThroughput 0 t = Inl DivideByZero"
proof -
  obtain p where p: "tpo_of r = Inr p" "sint p = sec div sint r"
    using tpo_of_pos [OF assms] by blast
  have "(sec div sint r) * sint r \<le> sec" "sec < (sec div sint r + 1) * sint r"
    using div_mult_mod_eq [of sec "sint r"] pos_mod_bound [OF assms, of sec] pos_mod_sign [OF assms, of sec]
    unfolding distrib_right by linarith+
  then show ?thesis
    using p by (simp add: SetThroughput_def Throughput_def)
qed

theorem SetThroughput_exact_witness:
  "\<exists>t'. SetThroughput 600000000 demo_throttle = Inr t' \<and> sint (tpo t') * 600000000 \<le> sec \<and>
     sec < (sint (tpo t') + 1) * 600000000"
  using SetThroughput_exact [of 600000000 demo_throttle] by auto

text \<open>
  Scaling multiplies the rate, and with a whole factor it can only keep or raise it: unless the
  product wraps around, the new rate is the product of the old rate and the factor, never below the
  old one. The factor zero panics.
\<close>

theorem ScaleThroughput_never_slows:
  assumes "uint (rate t) * uint f < 2 ^ 64" and "ScaleThroughput f t = Inr t'"
  shows "uint (Throughput t') = uint (Throughput t) * uint f \<and>
    uint (Throughput t) \<le> uint (Throughput t') \<and> ScaleThroughput 0 t = Inl DivideByZero"
proof -
  have f: "uint (ucast f :: 64 word) = uint f"
    by (simp add: uint_up_ucast is_up)
  have r: "rate t' = rate t * ucast f" and "f \<noteq> 0"
    using assms(2) by (auto simp: ScaleThroughput_def Let_def go_simps)
  then have "1 \<le> uint f"
    using uint_0_iff [of f] uint_ge_0 [of f] by linarith
  moreover have "uint (rate t * ucast f) = uint (rate t) * uint f"
    using assms(1) by (simp add: uint_word_ariths f)
  ultimately show ?thesis
    using mult_left_mono [of 1 "uint f" "uint (rate t)"]
    by (simp add: Throughput_def r ScaleThroughput_def)
qed

theorem ScaleThroughput_never_slows_witness:
  "\<exists>t'. ScaleThroughput 2 demo_throttle = Inr t' \<and> uint (Throughput t') = 2000"
proof -
  obtain t' where t': "ScaleThroughput 2 demo_throttle = Inr t'"
    by (simp add: ScaleThroughput_def demo_throttle_def Rate1k_def tpo_of_def quo_def)
  then show ?thesis
    using ScaleThroughput_never_slows [OF _ t'] by (simp add: demo_throttle_def Rate1k_def Throughput_def)
qed

end
