(* ===== verification/Go_Panics.thy ===== *)
theory Go_Panics
  imports Pipeline
begin

text \<open>
  Reasoning about code that may panic: \<open>yields E Q m\<close> says that \<open>m\<close> either panics with one of \<open>E\<close> or
  returns a value with \<open>Q\<close>. The rules follow the structure of the code; the facts about the packet
  operations and about runs of the two pipelines are collected in \<open>yields_intros\<close>.
\<close>

named_theorems yields_intros \<open>postconditions of operations that may panic\<close>

definition yields :: "panic set \<Rightarrow> ('a \<Rightarrow> bool) \<Rightarrow> 'a go \<Rightarrow> bool" where
  "yields E Q m \<longleftrightarrow> (case m of Inl p \<Rightarrow> p \<in> E | Inr x \<Rightarrow> Q x)"

lemma yields_simps [simp]:
  "yields E Q (Inl p) \<longleftrightarrow> p \<in> E" "yields E Q (Inr x) \<longleftrightarrow> Q x"
  by (simp_all add: yields_def)

lemma yields_bind:
  assumes "yields E Q m" and "\<And>x. Q x \<Longrightarrow> yields E R (f x)"
  shows "yields E R (gbind m f)"
  using assms by (cases m) simp_all

lemma yields_mono:
  "yields E Q m \<Longrightarrow> E \<subseteq> F \<Longrightarrow> (\<And>x. Q x \<Longrightarrow> R x) \<Longrightarrow> yields F R m"
  by (cases m) auto

lemma yields_Inr: "yields E Q m \<Longrightarrow> m = Inr x \<Longrightarrow> Q x"
  by simp

lemma yields_Inl: "yields E Q m \<Longrightarrow> m = Inl p \<Longrightarrow> p \<in> E"
  by simp

section \<open>Packets\<close>

definition pool_wf :: "JSONPktCreator \<Rightarrow> bool" where
  "pool_wf pc \<longleftrightarrow> list_all pkt_wf (pool pc)"

lemma pool_ok_wf: "pool_ok pc \<Longrightarrow> pool_wf pc"
  by (auto simp: pool_ok_def pool_wf_def pkt_synced_def list_all_iff)

lemma pkt_wf_frame [simp]:
  "pkt_wf (p\<lparr>buff := b\<rparr>) = pkt_wf p" "pkt_wf (p\<lparr>dest := d\<rparr>) = pkt_wf p"
  "pkt_wf (p\<lparr>jData := t\<rparr>) = pkt_wf p"
  by (simp_all add: pkt_wf_def)

lemma pkt_wf_ops [simp]:
  "pkt_wf (Write b p) = pkt_wf p" "pkt_wf (Close p) = pkt_wf p" "pkt_wf (Clear p) = pkt_wf p"
  "pkt_wf (SetDest d p) = pkt_wf p"
  by (simp_all add: Write_def Close_def Clear_def SetDest_def)

lemma pkt_synced_ops [simp]:
  "pkt_synced (Write b p) = pkt_synced p" "pkt_synced (Close p) = pkt_synced p"
  "pkt_synced (Clear p) = pkt_synced p" "pkt_synced (SetDest d p) = pkt_synced p"
  by (simp_all add: Write_def Close_def Clear_def SetDest_def)

lemma MetaAdd_yields [yields_intros]: "pkt_wf p \<Longrightarrow> yields {NilMapWrite} pkt_wf (MetaAdd k v p)"
  by (cases "meta p")
    (auto simp: MetaAdd_def KVMeta_Add_def pkt_wf_def ref_ok_def list_all_nth
      intro!: list_all_update split: option.splits)

lemma MetaClear_wf: "pkt_wf p \<Longrightarrow> pkt_wf (MetaClear p)"
  by (cases "meta p")
    (auto simp: MetaClear_def KVMeta_Clear_def KVMeta_Clear_empties pkt_wf_def ref_ok_def
      intro!: list_all_update split: option.splits)

lemma newJSONPkt_wf [simp]: "pkt_wf newJSONPkt"
  using newJSONPkt_synced by (simp add: pkt_synced_def)

lemma pool_Get_wf: "pool_wf pc \<Longrightarrow> pkt_wf (fst (pool_Get pc)) \<and> pool_wf (snd (pool_Get pc))"
  by (auto simp: pool_Get_def pool_wf_def list_all_remove_at list_all_nth split: list.splits)

lemma PutBack_wf [simp]: "pool_wf pc \<Longrightarrow> pkt_wf p \<Longrightarrow> pool_wf (PutBack p pc)"
  by (simp add: pool_wf_def PutBack_def pool_Put_def)

lemma PutBack_ok [simp]: "pool_ok pc \<Longrightarrow> pkt_synced p \<Longrightarrow> pool_ok (PutBack p pc)"
  by (simp add: PutBack_def)

lemma NewPkt_yields [yields_intros]:
  assumes "pool_wf pc"
  shows "yields {NilMapWrite} (\<lambda>(p, pc'). pkt_wf p \<and> pool_wf pc') (NewPkt ref d pc)"
proof -
  obtain q pc' where get: "pool_Get pc = (q, pc')"
    by fastforce
  then have "pkt_wf ((MetaClear q)\<lparr>buff := [], dest := d\<rparr>)" "pool_wf pc'"
    using pool_Get_wf [OF assms] by (simp_all add: MetaClear_wf)
  then show ?thesis
    unfolding NewPkt_def get Let_def prod.case by (intro yields_bind [OF MetaAdd_yields]) simp_all
qed

lemma NewErrPkt_yields [yields_intros]:
  assumes "pool_wf pc"
  shows "yields {NilMapWrite} (\<lambda>(p, pc'). pkt_wf p \<and> pool_wf pc') (NewErrPkt ref d msg pc)"
  unfolding NewErrPkt_def
  by (rule yields_bind [OF NewPkt_yields [OF assms]])
    (auto intro!: yields_bind [OF MetaAdd_yields] split: prod.split)

section \<open>Pipelines\<close>

lemma run_callbacks_yields:
  assumes "\<And>cb ctx pw s. cb \<in> set cbs \<Longrightarrow> I (ctx, pw, s) \<Longrightarrow> yields E I (cb ctx pw s)"
  shows "I st \<Longrightarrow> yields E (\<lambda>(err, st'). I st') (run_callbacks cbs st)"
  using assms
proof (induction cbs arbitrary: st)
  case (Cons cb cbs)
  obtain ctx pw s where st: "st = (ctx, pw, s)"
    by (metis prod_cases3)
  have "yields E I (cb ctx pw s)"
    using Cons.prems st by simp
  moreover have "I st' \<Longrightarrow> yields E (\<lambda>(err, st'). I st') (run_callbacks cbs st')" for st'
    by (rule Cons.IH) (use Cons.prems(2) in auto)
  ultimately show ?case
    unfolding st run_callbacks.simps by (elim yields_bind) (auto split: prod.split)
qed simp

lemma run_transforms_yields:
  assumes "\<And>f ctx b s. f \<in> set fs \<Longrightarrow> I (ctx, b, s) \<Longrightarrow> yields E I (f ctx b s)"
  shows "I st \<Longrightarrow> yields E (\<lambda>(err, st'). I st') (run_transforms fs st)"
  using assms
proof (induction fs arbitrary: st)
  case (Cons f fs)
  obtain ctx b s where st: "st = (ctx, b, s)"
    by (metis prod_cases3)
  have "yields E I (f ctx b s)"
    using Cons.prems st by simp
  moreover have "I st' \<Longrightarrow> yields E (\<lambda>(err, st'). I st') (run_transforms fs st')" for st'
    by (rule Cons.IH) (use Cons.prems(2) in auto)
  ultimately show ?case
    unfolding st run_transforms.simps by (elim yields_bind) (auto split: prod.split)
qed simp

lemma ProcessPacket_yields:
  assumes "\<And>cb ctx pw s. cb \<in> set (stages_of (callbackQueues pp) name) \<Longrightarrow> I (ctx, pw, s) \<Longrightarrow>
      yields E I (cb ctx pw s)"
    and "I (ctx, pw, s)" and "TargetName ctx = name"
  shows "yields E (\<lambda>(err, st'). I st') (ProcessPacket pp ctx pw s)"
  using assms run_callbacks_yields [of _ I E "(ctx, pw, s)"]
  by (auto simp: ProcessPacket_def stages_of_def split: option.split)

lemma ProcessData_none [simp]:
  "stages_of (pipelines d) (PipelineName ctx) = [] \<Longrightarrow> ProcessData d ctx data s = Inr (None, ctx, data, s)"
  by (simp add: ProcessData_def)

lemma stages_of_empty [simp]: "stages_of Map.empty name = []"
  by (simp add: stages_of_def)

end
