(* ===== verification/Udp_Server.thy ===== *)
theory Udp_Server
  imports Crypto Throttle Go_Panics
begin

text \<open>
  The UDP server (\<open>src/server/server.go\<close>, \<open>src/server/udp_server.go\<close>).

  What the server's goroutines share is a record that extends the state of the crypto extension: the
  packet creator and the two streams. An application adds its own state as a further extension of the
  record. The pipelines are closures over that state and stand next to it, in \<open>UDPServer\<close>.

  A value sent on \<open>sendStream\<close> is taken at once by \<open>sendPkts\<close>, which starts a goroutine for it: the
  list \<open>sendStream\<close> holds the packets of the goroutines that have not run yet. The list \<open>writeStream\<close>
  holds the packets offered to \<open>writePkts\<close>. Sending on a closed channel panics.

  The goroutine that processes a packet is one step. A callback changes the packet it is given in
  place; it does not put another packet into its context. Name resolution is a parameter \<open>resolve\<close>.
\<close>

definition TargetRelay :: string where "TargetRelay = ''svr.relay''"
definition KeyRelayFrom :: string where "KeyRelayFrom = ''_relay_src''"
definition KeyRelayTo :: string where "KeyRelayTo = ''_relay_dst''"

lemmas relay_keys = KeyRelayFrom_def KeyRelayTo_def

record writePacket =
  wpData :: bytes
  wpAddr :: string

record ServerState = CryptoState +
  pc :: JSONPktCreator
  sendStream :: "JSONPkt list"
  writeStream :: "writePacket list"
  streamsClosed :: bool

record 's UDPServer =
  addr :: string
  throttle :: UDPThrottle
  procs :: "'s Processor"
  rBuffSize :: nat

definition svr_send :: "JSONPkt \<Rightarrow> 'z ServerState_scheme \<Rightarrow> 'z ServerState_scheme go" where
  "svr_send p s =
     (if streamsClosed s then Inl ClosedChannel else Inr (s\<lparr>sendStream := sendStream s @ [p]\<rparr>))"

definition svr_dist :: "writePacket \<Rightarrow> 'z ServerState_scheme \<Rightarrow> 'z ServerState_scheme go" where
  "svr_dist w s =
     (if streamsClosed s then Inl ClosedChannel else Inr (s\<lparr>writeStream := writeStream s @ [w]\<rparr>))"

definition svr_PutBack :: "JSONPkt \<Rightarrow> 'z ServerState_scheme \<Rightarrow> 'z ServerState_scheme" where
  "svr_PutBack p s = s\<lparr>pc := PutBack p (pc s)\<rparr>"

text \<open>\<open>sendStream <- svr.pc.NewErrPkt(ref, dest, msg)\<close>\<close>

definition svr_send_err :: "string \<Rightarrow> string \<Rightarrow> string \<Rightarrow> 'z ServerState_scheme \<Rightarrow> 'z ServerState_scheme go" where
  "svr_send_err ref d msg s =
     gbind (NewErrPkt ref d msg (pc s)) (\<lambda>(e, pc'). svr_send e (s\<lparr>pc := pc'\<rparr>))"

definition relayCallback :: "'z ServerState_scheme TargetCallback" where
  "relayCallback ctx pw s =
     (case Pkt ctx of
        None \<Rightarrow> Inl NilDeref
      | Some p \<Rightarrow>
          let ref = MetaGet KeyRef p; relayAddr = MetaGet KeyRelayTo p in
          gbind (NewPkt ref relayAddr (pc s)) (\<lambda>(fwd, pc').
          gbind (MetaAdd KeyRelayFrom (TargetFrom ctx) fwd) (\<lambda>fwd1.
          gbind (svr_send (Close (Write (Data p) fwd1)) (s\<lparr>pc := pc'\<rparr>)) (\<lambda>s'.
            Inr (ctx\<lparr>Stat := CodeStopNoop, Msg := ''packet forwarded''\<rparr>, pw, s')))))"

text \<open>\<open>NewUDPServer\<close>; \<open>listen\<close> is the error of \<open>net.ListenUDP\<close>, if any.\<close>

definition NewUDPServer ::
  "string option \<Rightarrow> string \<Rightarrow> nat \<Rightarrow> Rate \<Rightarrow> (string + 'z ServerState_scheme UDPServer) go" where
  "NewUDPServer listen a bsize throttleRate =
     (case listen of
        Some e \<Rightarrow> Inr (Inl e)
      | None \<Rightarrow>
          gbind (NewUDPThrottle throttleRate bsize) (\<lambda>t.
            Inr (Inr \<lparr>addr = a, throttle = t,
              procs = \<lparr>dataP = NewDataPipeline,
                       packetP = AddCallback TargetRelay relayCallback NewPacketPipeline\<rparr>,
              rBuffSize = bsize\<rparr>)))"

text \<open>What \<open>processIncoming\<close> does with the response of a callback queue that ended without error.\<close>

definition respond :: "TargetCtx \<Rightarrow> JSONPkt \<Rightarrow> 'z ServerState_scheme \<Rightarrow> 'z ServerState_scheme go" where
  "respond ctx resp s =
     (if Stat ctx = CodeStopNoop then Inr (svr_PutBack resp s)
      else if Stat ctx = CodeRelay then
        (let relayAddr = MetaGet KeyRelayTo resp in
         if relayAddr \<noteq> '''' then
           gbind (MetaAdd KeyRelayFrom (TargetFrom ctx) (SetDest relayAddr resp)) (\<lambda>resp1.
             svr_send (Close resp1) s)
         else Inr (svr_PutBack resp s))
      else svr_send (Close resp) s)"

text \<open>Running the callback queue of a decoded packet; the decoded packet goes back to the pool at the
  end, on every path that does not panic.\<close>

definition run_target ::
  "'z ServerState_scheme PacketPipeline \<Rightarrow> JSONPkt \<Rightarrow> string \<Rightarrow> 'z ServerState_scheme \<Rightarrow> 'z ServerState_scheme go" where
  "run_target pp pkt sender s =
     (let ref = MetaGet KeyRef pkt in
      gbind (NewPkt ref sender (pc s)) (\<lambda>(resp, pc').
      let ctx = \<lparr>Pkt = Some pkt, Stat = 0, Msg = '''', TargetName = MetaGet KeyTarget pkt,
                 TargetFrom = sender\<rparr>
      in gbind (ProcessPacket pp ctx resp (s\<lparr>pc := pc'\<rparr>)) (\<lambda>(err, ctx', resp', s1).
         gbind (case err of
            Some e \<Rightarrow> svr_send_err ref sender (''packet pipeline error: '' @ e) (svr_PutBack resp' s1)
          | None \<Rightarrow> respond ctx' resp' s1) (\<lambda>s2.
         Inr (svr_PutBack (case Pkt ctx' of Some q \<Rightarrow> q | None \<Rightarrow> pkt) s2)))))"

definition UDPServer_processIncoming ::
  "'z ServerState_scheme UDPServer \<Rightarrow> bytes \<Rightarrow> string \<Rightarrow> 'z ServerState_scheme \<Rightarrow> 'z ServerState_scheme go" where
  "UDPServer_processIncoming svr data sender s =
     (let tctx = \<lparr>Pkt = None, Stat = 0, Msg = '''', PipelineName = ''_in_'', From = sender\<rparr> in
      gbind (ProcessData (dataP (procs svr)) tctx data s) (\<lambda>(err, tctx', data', s1).
      case err of
        Some e \<Rightarrow> svr_send_err '''' sender (''data pipeline error: '' @ e) s1
      | None \<Rightarrow>
          if Stat tctx' = CodeStopNoop then Inr s1
          else gbind (NewPkt '''' '''' (pc s1)) (\<lambda>(pkt, pc').
            case Unmarshal data' pkt of
              (pkt', Some e) \<Rightarrow>
                gbind (svr_send_err '''' sender ''malformed packet'' (s1\<lparr>pc := pc'\<rparr>)) (\<lambda>s2.
                  Inr (svr_PutBack pkt' s2))
            | (pkt', None) \<Rightarrow> run_target (packetP (procs svr)) pkt' sender (s1\<lparr>pc := pc'\<rparr>))))"

definition UDPServer_processOutgoing ::
  "'z ServerState_scheme UDPServer \<Rightarrow> (string \<Rightarrow> string option) \<Rightarrow> JSONPkt \<Rightarrow> 'z ServerState_scheme \<Rightarrow>
     'z ServerState_scheme go" where
  "UDPServer_processOutgoing svr resolve pkt s =
     (case Marshal pkt of
        None \<Rightarrow> Inr (svr_PutBack pkt s)
      | Some bin \<Rightarrow>
          (case resolve (Dest pkt) of
             None \<Rightarrow> Inr (svr_PutBack pkt s)
           | Some a \<Rightarrow>
               (let tctx = \<lparr>Pkt = Some pkt, Stat = 0, Msg = '''', PipelineName = ''_out_'', From = ''''\<rparr> in
                gbind (ProcessData (dataP (procs svr)) tctx bin s) (\<lambda>(err, tctx', bin', s1).
                let pkt' = (case Pkt tctx' of Some q \<Rightarrow> q | None \<Rightarrow> pkt) in
                gbind (case err of
                   Some e \<Rightarrow> svr_send_err (MetaGet KeyRef pkt') (Dest pkt') (''pipeline error: '' @ e) s1
                 | None \<Rightarrow> if Stat tctx' \<noteq> CodeStopNoop then svr_dist \<lparr>wpData = bin', wpAddr = a\<rparr> s1 else Inr s1)
                  (\<lambda>s2. Inr (svr_PutBack pkt' s2))))))"

section \<open>Serving\<close>

text \<open>
  \<open>Serve\<close> starts \<open>sendPkts\<close>, \<open>writePkts\<close> and five readers and waits for the readers; a reader ends at
  a read error. When all have ended it closes the streams and returns; a goroutine that is blocked on
  sending to a stream panics when the stream is closed. A panic in any goroutine ends the program.

  The readers and \<open>writePkts\<close> work on the throttle, whose own goroutines run since the server was
  made. The list \<open>incoming\<close> holds the datagrams of the goroutines the readers started that have not run
  yet; \<open>swriter\<close> is the write whose status \<open>writePkts\<close> waits for.
\<close>

datatype serve_phase = Serving nat | ServeReturned | Crashed panic

record 'w ServeState =
  world :: 'w
  sth :: ThState
  phase :: serve_phase
  incoming :: "(bytes \<times> string) list"
  swriter :: "nat option"

definition numReaders :: nat where "numReaders = 5"

definition Serve_start ::
  "'z ServerState_scheme UDPServer \<Rightarrow> ThState \<Rightarrow> 'w \<Rightarrow> 'z ServerState_scheme UDPServer \<times> 'w ServeState" where
  "Serve_start svr t w =
     (svr\<lparr>procs := (procs svr)\<lparr>dataP := Lock (dataP (procs svr))\<rparr>\<rparr>,
      \<lparr>world = w, sth = t, phase = Serving numReaders, incoming = [], swriter = None\<rparr>)"

definition running :: "'w ServeState \<Rightarrow> bool" where
  "running m \<longleftrightarrow> (case phase m of Crashed p \<Rightarrow> False | _ \<Rightarrow> True)"

definition outcome :: "'w go \<Rightarrow> 'w ServeState \<Rightarrow> 'w ServeState" where
  "outcome r m = (case r of Inl p \<Rightarrow> m\<lparr>phase := Crashed p\<rparr> | Inr w \<Rightarrow> m\<lparr>world := w\<rparr>)"

text \<open>\<open>net.Addr\<close>'s \<open>String\<close> on a \<open>*UDPAddr\<close>, which may be nil.\<close>

definition addr_String :: "string option \<Rightarrow> string" where
  "addr_String a = (case a of None \<Rightarrow> ''<nil>'' | Some s \<Rightarrow> s)"

text \<open>\<open>readPkts\<close>: a datagram, for which it starts a goroutine, or an error that ends the reader.\<close>

definition readPkts :: "'w ServeState \<Rightarrow> 'w ServeState option" where
  "readPkts m =
     (case phase m of
        Serving (Suc n) \<Rightarrow>
          (case ReadFrom (sth m) of
             None \<Rightarrow> None
           | Some (rp, t) \<Rightarrow>
               (case rerr rp of
                  Some e \<Rightarrow> Some (m\<lparr>sth := t, phase := Serving n\<rparr>)
                | None \<Rightarrow> Some (m\<lparr>sth := t, incoming := incoming m @ [(rdata rp, addr_String (rsender rp))]\<rparr>)))
      | _ \<Rightarrow> None)"

text \<open>The goroutines started by \<open>readPkts\<close> run in any order, also after \<open>Serve\<close> returned.\<close>

definition process_next ::
  "'z ServerState_scheme UDPServer \<Rightarrow> nat \<Rightarrow> 'z ServerState_scheme ServeState \<Rightarrow> 'z ServerState_scheme ServeState option" where
  "process_next svr i m =
     (if i < length (incoming m) \<and> running m
      then let (data, sender) = incoming m ! i in
           Some (outcome (UDPServer_processIncoming svr data sender (world m)) (m\<lparr>incoming := remove_at i (incoming m)\<rparr>))
      else None)"

text \<open>\<open>sendPkts\<close>: the goroutines it started run in any order, also after \<open>Serve\<close> returned.\<close>

definition sendPkts ::
  "'z ServerState_scheme UDPServer \<Rightarrow> (string \<Rightarrow> string option) \<Rightarrow> nat \<Rightarrow> 'z ServerState_scheme ServeState \<Rightarrow>
     'z ServerState_scheme ServeState option" where
  "sendPkts svr resolve i m =
     (let q = sendStream (world m) in
      if i < length q \<and> running m
      then Some (outcome (UDPServer_processOutgoing svr resolve (q ! i) ((world m)\<lparr>sendStream := remove_at i q\<rparr>)) m)
      else None)"

text \<open>\<open>writePkts\<close>: taking a packet and calling the throttle, and the end of that call.\<close>

definition writePkts :: "'z ServerState_scheme ServeState \<Rightarrow> 'z ServerState_scheme ServeState option" where
  "writePkts m =
     (case (phase m, swriter m, writeStream (world m)) of
        (Serving n, None, w # ws) \<Rightarrow>
          (case WriteTo (wpData w) (wpAddr w) (sth m) of
             None \<Rightarrow> None
           | Some t \<Rightarrow>
               Some (m\<lparr>world := (world m)\<lparr>writeStream := ws\<rparr>, sth := t, swriter := Some (length (submitted (sth m)))\<rparr>))
      | _ \<Rightarrow> None)"

definition writePkts_next :: "'w ServeState \<Rightarrow> 'w ServeState option" where
  "writePkts_next m =
     (case swriter m of
        None \<Rightarrow> None
      | Some i \<Rightarrow>
          if running m \<and> write_status i (sth m) \<noteq> None then Some (m\<lparr>swriter := None\<rparr>) else None)"

text \<open>The end of \<open>Serve\<close>, with its error \<open>server error - read fail\<close>.\<close>

definition Serve_return :: "'z ServerState_scheme ServeState \<Rightarrow> 'z ServerState_scheme ServeState option" where
  "Serve_return m =
     (case phase m of
        Serving 0 \<Rightarrow>
          Some (m\<lparr>world := (world m)\<lparr>streamsClosed := True\<rparr>,
                  phase := (if writeStream (world m) = [] then ServeReturned else Crashed ClosedChannel)\<rparr>)
      | _ \<Rightarrow> None)"

inductive serve_step ::
  "'z ServerState_scheme UDPServer \<Rightarrow> (string \<Rightarrow> string option) \<Rightarrow> 'z ServerState_scheme ServeState \<Rightarrow>
     'z ServerState_scheme ServeState \<Rightarrow> bool" for svr resolve where
  ss_throttle: "running m \<Longrightarrow> run_step (sth m) t \<Longrightarrow> own_step (sth m) t \<Longrightarrow> serve_step svr resolve m (m\<lparr>sth := t\<rparr>)"
| ss_read: "readPkts m = Some m' \<Longrightarrow> serve_step svr resolve m m'"
| ss_process: "process_next svr i m = Some m' \<Longrightarrow> serve_step svr resolve m m'"
| ss_send: "sendPkts svr resolve i m = Some m' \<Longrightarrow> serve_step svr resolve m m'"
| ss_write: "writePkts m = Some m' \<Longrightarrow> serve_step svr resolve m m'"
| ss_written: "writePkts_next m = Some m' \<Longrightarrow> serve_step svr resolve m m'"
| ss_return: "Serve_return m = Some m' \<Longrightarrow> serve_step svr resolve m m'"

section \<open>What the server's operations do on sound state\<close>

abbreviation open_ok :: "'z ServerState_scheme \<Rightarrow> bool" where
  "open_ok s \<equiv> pool_ok (pc s) \<and> \<not> streamsClosed s"

lemma svr_send_err_ok:
  fixes s :: "'z ServerState_scheme"
  assumes "open_ok s"
  shows "\<exists>e pc'. svr_send_err ref d msg s = Inr (s\<lparr>pc := pc', sendStream := sendStream s @ [e]\<rparr>) \<and>
    pool_ok pc' \<and> pkt_synced e \<and> Dest e = d \<and>
    MetaMap e = [(KeySvrMsg, msg), (KeyRef, ref), (KeySvrStatus, ''-1'')]"
proof -
  obtain e pc' where "NewErrPkt ref d msg (pc s) = Inr (e, pc')" "pool_ok pc'" "pkt_synced e" "Dest e = d"
    "MetaMap e = [(KeySvrMsg, msg), (KeyRef, ref), (KeySvrStatus, ''-1'')]"
    using NewErrPkt_synced [of "pc s" ref d msg] assms by blast
  then show ?thesis
    using assms by (intro exI [of _ e] exI [of _ pc']) (simp add: svr_send_err_def svr_send_def)
qed

lemma relayCallback_ok:
  fixes s :: "'z ServerState_scheme"
  assumes "open_ok s" and "Pkt ctx = Some p"
  shows "\<exists>fwd pc'. relayCallback ctx pw s =
      Inr (ctx\<lparr>Stat := CodeStopNoop, Msg := ''packet forwarded''\<rparr>, pw,
           s\<lparr>pc := pc', sendStream := sendStream s @ [fwd]\<rparr>) \<and>
    pool_ok pc' \<and> pkt_synced fwd \<and> Dest fwd = MetaGet KeyRelayTo p \<and> Data fwd = Data p \<and>
    jData fwd = b64_encode (Data p) \<and>
    MetaMap fwd = [(KeyRef, MetaGet KeyRef p), (KeyRelayFrom, TargetFrom ctx)]"
proof -
  obtain q pc' where q: "NewPkt (MetaGet KeyRef p) (MetaGet KeyRelayTo p) (pc s) = Inr (q, pc')"
    "pkt_synced q" "pool_ok pc'" "MetaMap q = [(KeyRef, MetaGet KeyRef p)]" "Data q = []"
    "Dest q = MetaGet KeyRelayTo p"
    using NewPkt_synced [of "pc s" "MetaGet KeyRef p" "MetaGet KeyRelayTo p"] assms by blast
  obtain q1 where q1: "MetaAdd KeyRelayFrom (TargetFrom ctx) q = Inr q1" "pkt_synced q1"
    "MetaMap q1 = gm_put KeyRelayFrom (TargetFrom ctx) (MetaMap q)" "buff q1 = buff q" "dest q1 = dest q"
    using MetaAdd_synced [OF q(2)] by blast
  have "MetaMap q1 = [(KeyRef, MetaGet KeyRef p), (KeyRelayFrom, TargetFrom ctx)]"
    by (simp add: q1(3) q(4) key_defs relay_keys)
  then show ?thesis
    using q(1,3,5,6) q1(1,2,4,5) assms
    by (intro exI [of _ "Close (Write (Data p) q1)"] exI [of _ pc'])
      (simp add: relayCallback_def svr_send_def Let_def Close_def Write_def Data_def Dest_def)
qed

text \<open>A packet for the relay target is forwarded and answered with nothing.\<close>

lemma run_target_relay:
  fixes s :: "'z ServerState_scheme"
  assumes "callbackQueues pp TargetRelay = Some [relayCallback]" and "open_ok s" and "pkt_synced pkt"
    and "MetaGet KeyTarget pkt = TargetRelay"
  shows "\<exists>fwd pc'. run_target pp pkt sender s = Inr (s\<lparr>pc := pc', sendStream := sendStream s @ [fwd]\<rparr>) \<and>
    pool_ok pc' \<and> pkt_synced fwd \<and> Dest fwd = MetaGet KeyRelayTo pkt \<and> Data fwd = Data pkt \<and>
    jData fwd = b64_encode (Data pkt) \<and> MetaMap fwd = [(KeyRef, MetaGet KeyRef pkt), (KeyRelayFrom, sender)]"
proof -
  let ?ref = "MetaGet KeyRef pkt"
  obtain resp pc1 where resp: "NewPkt ?ref sender (pc s) = Inr (resp, pc1)" "pkt_synced resp" "pool_ok pc1"
    using NewPkt_synced [of "pc s" ?ref sender] assms(2) by blast
  let ?s1 = "s\<lparr>pc := pc1\<rparr>"
  let ?ctx = "\<lparr>Pkt = Some pkt, Stat = 0, Msg = '''', TargetName = MetaGet KeyTarget pkt, TargetFrom = sender\<rparr>"
  obtain fwd pc2 where fwd: "relayCallback ?ctx resp ?s1 =
      Inr (?ctx\<lparr>Stat := CodeStopNoop, Msg := ''packet forwarded''\<rparr>, resp,
           ?s1\<lparr>pc := pc2, sendStream := sendStream ?s1 @ [fwd]\<rparr>)"
    "pool_ok pc2" "pkt_synced fwd" "Dest fwd = MetaGet KeyRelayTo pkt" "Data fwd = Data pkt"
    "jData fwd = b64_encode (Data pkt)" "MetaMap fwd = [(KeyRef, ?ref), (KeyRelayFrom, sender)]"
    using relayCallback_ok [of ?s1 ?ctx pkt resp] resp(3) assms(2) by auto
  have "ProcessPacket pp ?ctx resp ?s1 =
      Inr (None, ?ctx\<lparr>Stat := CodeStopNoop, Msg := ''packet forwarded''\<rparr>, resp,
           s\<lparr>pc := pc2, sendStream := sendStream s @ [fwd]\<rparr>)"
    using fwd(1) assms(1,4) by (simp add: ProcessPacket_def code_defs)
  then show ?thesis
    using resp fwd(2-) assms(3)
    by (intro exI [of _ fwd] exI [of _ "PutBack pkt (PutBack resp pc2)"])
      (simp add: run_target_def respond_def svr_PutBack_def Let_def)
qed

section \<open>A server without extensions\<close>

text \<open>
  What the protocol says a server that knows the relay target only sends for a datagram: an error to
  the sender, or the data to the address named in the metadata. \<open>reply_of\<close> reads a queued packet as
  such a reply; the data are those that marshalling puts on the wire.
\<close>

datatype reply = ErrorTo string string string | ForwardTo string string string "bytes option"

definition reply_of :: "JSONPkt \<Rightarrow> reply" where
  "reply_of p =
     (if MetaGet KeySvrStatus p = ''-1'' then ErrorTo (Dest p) (MetaGet KeyRef p) (MetaGet KeySvrMsg p)
      else ForwardTo (Dest p) (MetaGet KeyRef p) (MetaGet KeyRelayFrom p) (b64_decode (jData p)))"

fun serve_spec :: "string \<Rightarrow> ((string \<Rightarrow> string) \<times> bytes) option \<Rightarrow> reply" where
  "serve_spec sender None = ErrorTo sender '''' ''malformed packet''"
| "serve_spec sender (Some (mget, data)) =
     (if mget KeyTarget = TargetRelay
      then ForwardTo (mget KeyRelayTo) (mget KeyRef) sender (Some data)
      else ErrorTo sender (mget KeyRef) ''packet pipeline error: target not found'')"

definition decoded :: "JSONPkt \<times> unmarshal_error option \<Rightarrow> ((string \<Rightarrow> string) \<times> bytes) option" where
  "decoded r = (case r of (p, None) \<Rightarrow> Some (\<lambda>k. MetaGet k p, Data p) | (p, Some e) \<Rightarrow> None)"

definition plain :: "'z ServerState_scheme UDPServer \<Rightarrow> bool" where
  "plain svr \<longleftrightarrow> pipelines (dataP (procs svr)) = Map.empty \<and>
     packetP (procs svr) = AddCallback TargetRelay relayCallback NewPacketPipeline"

lemma NewUDPServer_plain: "NewUDPServer None a sz r = Inr (Inr svr) \<Longrightarrow> plain svr"
  by (auto simp: NewUDPServer_def go_simps plain_def NewDataPipeline_def)

lemma Serve_start_plain:
  "plain svr \<Longrightarrow> Serve_start svr t w = (svr', m) \<Longrightarrow>
     plain svr' \<and> world m = w \<and> phase m = Serving numReaders"
  by (auto simp: Serve_start_def plain_def Lock_def)

lemma plain_data [simp]: "plain svr \<Longrightarrow> stages_of (pipelines (dataP (procs svr))) name = []"
  by (simp add: plain_def)

lemma plain_ProcessPacket:
  "plain svr \<Longrightarrow> ProcessPacket (packetP (procs svr)) ctx pw s =
     (if TargetName ctx = TargetRelay then run_callbacks [relayCallback] (ctx, pw, s)
      else Inr (Some ''target not found'', ctx, pw, s))"
  by (simp add: plain_def ProcessPacket_def AddCallback_def NewPacketPipeline_def)

lemma reply_of_error:
  "MetaMap e = [(KeySvrMsg, msg), (KeyRef, ref), (KeySvrStatus, ''-1'')] \<Longrightarrow>
     reply_of e = ErrorTo (Dest e) ref msg"
  by (simp add: reply_of_def MetaGet_MetaMap gm_str_def key_defs)

lemma reply_of_forward:
  "MetaMap p = [(KeyRef, ref), (KeyRelayFrom, src)] \<Longrightarrow> jData p = b64_encode d \<Longrightarrow>
     reply_of p = ForwardTo (Dest p) ref src (Some d)"
  by (simp add: reply_of_def MetaGet_MetaMap gm_str_def key_defs relay_keys b64.dec_enc)

lemma run_target_unknown:
  fixes s :: "'z ServerState_scheme"
  assumes "plain svr" and "open_ok s" and "pkt_synced pkt" and "MetaGet KeyTarget pkt \<noteq> TargetRelay"
  shows "\<exists>s' e. run_target (packetP (procs svr)) pkt sender s = Inr s' \<and> open_ok s' \<and>
    sendStream s' = sendStream s @ [e] \<and> pkt_synced e \<and> writeStream s' = writeStream s \<and> Dest e = sender \<and>
    MetaMap e = [(KeySvrMsg, ''packet pipeline error: target not found''), (KeyRef, MetaGet KeyRef pkt), (KeySvrStatus, ''-1'')]"
proof -
  let ?ref = "MetaGet KeyRef pkt"
  obtain resp pc1 where resp: "NewPkt ?ref sender (pc s) = Inr (resp, pc1)" "pkt_synced resp" "pool_ok pc1"
    using NewPkt_synced [of "pc s" ?ref sender] assms(2) by blast
  let ?s1 = "s\<lparr>pc := pc1\<rparr>"
  let ?ctx = "\<lparr>Pkt = Some pkt, Stat = 0, Msg = '''', TargetName = MetaGet KeyTarget pkt, TargetFrom = sender\<rparr>"
  have open1: "open_ok (svr_PutBack resp ?s1)"
    using resp assms(2) by (simp add: svr_PutBack_def)
  obtain e pc2 where e: "svr_send_err ?ref sender ''packet pipeline error: target not found'' (svr_PutBack resp ?s1) =
      Inr ((svr_PutBack resp ?s1)\<lparr>pc := pc2, sendStream := sendStream (svr_PutBack resp ?s1) @ [e]\<rparr>)"
    "pool_ok pc2" "pkt_synced e" "Dest e = sender"
    "MetaMap e = [(KeySvrMsg, ''packet pipeline error: target not found''), (KeyRef, ?ref), (KeySvrStatus, ''-1'')]"
    using svr_send_err_ok [OF open1] by blast
  have "ProcessPacket (packetP (procs svr)) ?ctx resp ?s1 = Inr (Some ''target not found'', ?ctx, resp, ?s1)"
    using assms(4) by (simp add: plain_ProcessPacket [OF assms(1)])
  then show ?thesis
    using resp e assms(2,3) by (simp add: run_target_def svr_PutBack_def Let_def)
qed

lemma run_target_plain:
  fixes s :: "'z ServerState_scheme"
  assumes "plain svr" and "open_ok s" and "pkt_synced pkt"
  shows "\<exists>s' p. run_target (packetP (procs svr)) pkt sender s = Inr s' \<and> open_ok s' \<and>
    sendStream s' = sendStream s @ [p] \<and> pkt_synced p \<and>
    writeStream s' = writeStream s \<and>
    reply_of p = serve_spec sender (Some (\<lambda>k. MetaGet k pkt, Data pkt))"
proof -
  let ?ref = "MetaGet KeyRef pkt"
  show ?thesis
  proof (cases "MetaGet KeyTarget pkt = TargetRelay")
    case True
    have "callbackQueues (packetP (procs svr)) TargetRelay = Some [relayCallback]"
      using assms(1) by (simp add: plain_def AddCallback_def NewPacketPipeline_def)
    then obtain fwd pc' where fwd: "run_target (packetP (procs svr)) pkt sender s =
        Inr (s\<lparr>pc := pc', sendStream := sendStream s @ [fwd]\<rparr>)"
      "pool_ok pc'" "pkt_synced fwd" "Dest fwd = MetaGet KeyRelayTo pkt" "jData fwd = b64_encode (Data pkt)"
      "MetaMap fwd = [(KeyRef, ?ref), (KeyRelayFrom, sender)]"
      using run_target_relay [OF _ assms(2,3) True] by blast
    then show ?thesis
      using assms(2) True reply_of_forward [OF fwd(6,5)] by simp
  next
    case False
    obtain s' e where "run_target (packetP (procs svr)) pkt sender s = Inr s'" "open_ok s'"
      "sendStream s' = sendStream s @ [e]" "pkt_synced e" "writeStream s' = writeStream s" "Dest e = sender"
      "MetaMap e = [(KeySvrMsg, ''packet pipeline error: target not found''), (KeyRef, ?ref), (KeySvrStatus, ''-1'')]"
      using run_target_unknown [OF assms False] by blast
    then show ?thesis
      using False reply_of_error [of e] by simp
  qed
qed

lemma processIncoming_plain:
  fixes s :: "'z ServerState_scheme"
  assumes "plain svr" and "open_ok s"
    and "\<nexists>ms. json_parse data = Some (JObj ms) \<and> nulls_meta ms"
    and "NewPkt '''' '''' (pc s) = Inr (pkt, pc')"
  shows "\<exists>s' p. UDPServer_processIncoming svr data sender s = Inr s' \<and> open_ok s' \<and>
    sendStream s' = sendStream s @ [p] \<and> pkt_synced p \<and> writeStream s' = writeStream s \<and>
    reply_of p = serve_spec sender (decoded (Unmarshal data pkt))"
proof -
  have new: "pkt_synced pkt" "pool_ok pc'"
    using NewPkt_synced [of "pc s" "''''" "''''"] assms(2,4) by auto
  obtain q err where u: "Unmarshal data pkt = (q, err)"
    by fastforce
  have q: "pkt_synced q"
    using Unmarshal_synced [OF new(1), of data] assms(3) u by auto
  let ?s1 = "s\<lparr>pc := pc'\<rparr>"
  have open1: "open_ok ?s1"
    using assms(2) new(2) by simp
  show ?thesis
  proof (cases err)
    case None
    then have "UDPServer_processIncoming svr data sender s = run_target (packetP (procs svr)) q sender ?s1"
      by (simp add: UDPServer_processIncoming_def assms(1,4) u code_defs)
    then show ?thesis
      using run_target_plain [OF assms(1) open1 q, of sender] None
      by (simp add: decoded_def u)
  next
    case (Some x)
    obtain e pc2 where e: "svr_send_err '''' sender ''malformed packet'' ?s1 =
        Inr (?s1\<lparr>pc := pc2, sendStream := sendStream ?s1 @ [e]\<rparr>)"
      "pool_ok pc2" "pkt_synced e" "Dest e = sender"
      "MetaMap e = [(KeySvrMsg, ''malformed packet''), (KeyRef, ''''), (KeySvrStatus, ''-1'')]"
      using svr_send_err_ok [OF open1] by blast
    then show ?thesis
      using Some assms(2) q reply_of_error [OF e(5)]
      by (simp add: UDPServer_processIncoming_def assms(1,4) u code_defs svr_PutBack_def decoded_def)
  qed
qed


text \<open>A server, and a state in which nothing happened yet.\<close>

definition demo_svr :: "ServerState UDPServer" where
  "demo_svr = \<lparr>addr = ''0.0.0.0:10000'', throttle = demo_throttle,
     procs = \<lparr>dataP = NewDataPipeline,
              packetP = AddCallback TargetRelay relayCallback NewPacketPipeline\<rparr>, rBuffSize = 4096\<rparr>"

definition demo_world :: "nat list \<Rightarrow> (string \<rightharpoonup> keyStore) \<Rightarrow> ServerState" where
  "demo_world oracle ks = \<lparr>crypto = demo_crypto ks, rand = demo_rand, pc = \<lparr>pool = [], picks = oracle\<rparr>,
     sendStream = [], writeStream = [], streamsClosed = False\<rparr>"

lemma demo_svr_new: "NewUDPServer None ''0.0.0.0:10000'' 4096 Rate1k = Inr (Inr demo_svr)"
  by (simp add: NewUDPServer_def demo_throttle_new demo_svr_def)

lemma demo_world_ok [simp]:
  "pool_ok (pc (demo_world oracle ks))" "\<not> streamsClosed (demo_world oracle ks)"
  by (simp_all add: demo_world_def pool_ok_def)


section \<open>Sending\<close>

lemma processOutgoing_plain:
  fixes s :: "'z ServerState_scheme"
  assumes "stages_of (pipelines (dataP (procs svr))) ''_out_'' = []" and "\<not> streamsClosed s"
    and "resolve (Dest p) = Some a" and "Marshal p = Some b"
  shows "UDPServer_processOutgoing svr resolve p s =
    Inr (svr_PutBack p (s\<lparr>writeStream := writeStream s @ [\<lparr>wpData = b, wpAddr = a\<rparr>]\<rparr>))"
  using assms by (simp add: UDPServer_processOutgoing_def svr_dist_def code_defs)

section \<open>The crypto extension on a server\<close>

definition secured :: "'z ServerState_scheme UDPServer \<Rightarrow> bool" where
  "secured svr \<longleftrightarrow>
     stages_of (pipelines (dataP (procs svr))) ''_in_'' = [decryptTransport] \<and>
     stages_of (pipelines (dataP (procs svr))) ''_out_'' = [encryptTransport]"

lemma Extend_secured:
  assumes "plain svr" and "Extend ''server'' (procs svr) = (p, err)"
  shows "secured (svr\<lparr>procs := p\<rparr>)"
  using assms
  by (auto simp: secured_def Extend_def Let_def AddTransform_def installOnServer_def
      split: prod.splits option.splits)

text \<open>
  C26: a datagram of fewer than 12 bytes from the address of a peer that exchanged keys stops a server
  with the crypto extension: decryption slices off a nonce without looking at the length.
\<close>

theorem short_datagram_crashes_server:
  fixes svr :: "'z ServerState_scheme UDPServer"
  assumes "NewUDPServer None a sz r = Inr (Inr svr)" and "Extend ''server'' (procs svr) = (p, None)"
    and "keys (crypto s) sender = Some k" and "aes_key_ok (big_Bytes (shared k))" and "length data < 12"
  shows "UDPServer_processIncoming (svr\<lparr>procs := p\<rparr>) data sender s = Inl SliceBounds"
  using Extend_secured [OF NewUDPServer_plain [OF assms(1)] assms(2)] assms(3-5)
  by (simp add: UDPServer_processIncoming_def ProcessData_def secured_def decryptTransport_def getKeyStore_def
      decryptAES_def)

definition demo_secure :: "ServerState Processor" where
  "demo_secure = fst (Extend ''server'' (procs demo_svr))"

lemma demo_secure_extend: "Extend ''server'' (procs demo_svr) = (demo_secure, None)"
  by (simp add: demo_secure_def Extend_def installOnServer_def Let_def)

theorem short_datagram_crashes_server_witness:
  "UDPServer_processIncoming (demo_svr\<lparr>procs := demo_secure\<rparr>) ''hello'' ''10.0.0.1:9''
     (demo_world [] [''10.0.0.1:9'' \<mapsto> demo_store True]) = Inl SliceBounds"
  by (rule short_datagram_crashes_server [OF demo_svr_new demo_secure_extend, where k = "demo_store True"])
    (simp_all add: demo_world_def demo_crypto_def demo_store_def demo_shared_key)

lemma processOutgoing_short_secret:
  fixes s :: "'z ServerState_scheme"
  assumes "secured svr" and "open_ok s" and "resolve d = Some a" and "Dest p = d"
    and "MetaGet KeyNoCrypto p = ''''"
    and "keys (crypto s) d = Some k" and "keySent k" and "\<not> aes_key_ok (big_Bytes (shared k))"
    and "pkt_synced p"
  shows "\<exists>e pc'. UDPServer_processOutgoing svr resolve p s =
      Inr (s\<lparr>pc := pc', sendStream := sendStream s @ [e]\<rparr>) \<and>
    pool_ok pc' \<and> Dest e = d \<and> MetaGet KeyNoCrypto e = '''' \<and> pkt_synced e"
proof -
  obtain b where b: "Marshal p = Some b"
    by (simp add: Marshal_def)
  let ?ctx = "\<lparr>Pkt = Some p, Stat = 0, Msg = '''', PipelineName = ''_out_'', From = ''''\<rparr>"
  obtain msg where enc: "encryptTransport ?ctx b s = Inr (?ctx\<lparr>Stat := CodeStopError, Msg := msg\<rparr>, b, s)"
    using assms(4-8)
    by (simp add: encryptTransport_def skips_crypto_def getKeyStore_def getKeySent_def encryptAES_def)
  obtain e pc' where e: "svr_send_err (MetaGet KeyRef p) d (''pipeline error: '' @ errorf (''pipeline terminated: '' @ msg)) s =
      Inr (s\<lparr>pc := pc', sendStream := sendStream s @ [e]\<rparr>)" "pool_ok pc'" "pkt_synced e" "Dest e = d"
    "MetaMap e = [(KeySvrMsg, ''pipeline error: '' @ errorf (''pipeline terminated: '' @ msg)),
       (KeyRef, MetaGet KeyRef p), (KeySvrStatus, ''-1'')]"
    using svr_send_err_ok [OF assms(2)] by blast
  have "MetaGet KeyNoCrypto e = ''''"
    by (simp add: MetaGet_MetaMap e(5) gm_str_def key_defs KeyNoCrypto_def)
  moreover have "ProcessData (dataP (procs svr)) ?ctx b s =
      Inr (Some (errorf (''pipeline terminated: '' @ msg)), ?ctx\<lparr>Stat := CodeStopError, Msg := msg\<rparr>, b, s)"
    using assms(1) enc by (simp add: ProcessData_def secured_def)
  ultimately show ?thesis
    using e(1-4) assms(3,4,9) b
    by (intro exI [of _ e] exI [of _ "PutBack p pc'"])
      (simp add: UDPServer_processOutgoing_def svr_PutBack_def)
qed


definition demo_stuck :: "ServerState ServeState" where
  "demo_stuck = \<lparr>world = (demo_world [] [''B'' \<mapsto> (demo_store True)\<lparr>shared := 1\<rparr>])
       \<lparr>sendStream := [newJSONPkt\<lparr>dest := ''B''\<rparr>]\<rparr>,
     sth = th_init demo_throttle 0, phase = Serving 5, incoming = [], swriter = None\<rparr>"


section \<open>Stopping\<close>

text \<open>
  C29: when the readers have ended, \<open>Serve\<close> closes the streams under the goroutines that still hold
  responses: a response that was queued before \<open>Serve\<close> returns makes its goroutine send on a closed
  channel, and the program panics.
\<close>

theorem pending_response_crashes_after_Serve:
  fixes m :: "'z ServerState_scheme ServeState"
  assumes "NewUDPServer None a sz r = Inr (Inr svr)" and "phase m = Serving 0"
    and "sendStream (world m) = p # ps" and "writeStream (world m) = []" and "resolve (Dest p) = Some x"
  shows "\<exists>m1 m2. Serve_return m = Some m1 \<and> phase m1 = ServeReturned \<and>
    sendPkts svr resolve 0 m1 = Some m2 \<and> phase m2 = Crashed ClosedChannel"
proof -
  obtain b where b: "Marshal p = Some b"
    by (simp add: Marshal_def)
  let ?m1 = "m\<lparr>world := (world m)\<lparr>streamsClosed := True\<rparr>, phase := ServeReturned\<rparr>"
  have "Serve_return m = Some ?m1"
    using assms(2,4) by (simp add: Serve_return_def)
  moreover have "UDPServer_processOutgoing svr resolve p ((world ?m1)\<lparr>sendStream := ps\<rparr>) = Inl ClosedChannel"
    using NewUDPServer_plain [OF assms(1)] assms(5) b
    by (simp add: UDPServer_processOutgoing_def svr_dist_def code_defs)
  ultimately show ?thesis
    using assms(3) by (simp add: sendPkts_def outcome_def running_def)
qed

theorem pending_response_crashes_after_Serve_witness:
  "\<exists>m1 m2. Serve_return (demo_stuck\<lparr>phase := Serving 0\<rparr>) = Some m1 \<and>
     sendPkts demo_svr Some 0 m1 = Some m2 \<and> phase m2 = Crashed ClosedChannel"
  using pending_response_crashes_after_Serve [OF demo_svr_new, of "demo_stuck\<lparr>phase := Serving 0\<rparr>"
      "newJSONPkt\<lparr>dest := ''B''\<rparr>" "[]" Some "''B''"]
  by (fastforce simp: demo_stuck_def demo_world_def Dest_def newJSONPkt_def)

section \<open>How a server without extensions can crash\<close>

text \<open>A pool that has no packet at the index the next pick asks for makes a new one.\<close>

lemma NewPkt_fresh:
  assumes "picks c = i # is" and "length (pool c) \<le> i"
  shows "\<exists>p. NewPkt ref d c = Inr (p, c\<lparr>picks := is\<rparr>) \<and> pkt_synced p \<and> jData p = '''' \<and>
    MetaMap p = [(KeyRef, ref)]"
proof -
  have "NewPkt ref d c = gbind (NewPkt ref d \<lparr>pool = [], picks = []\<rparr>) (\<lambda>(p, c'). Inr (p, c\<lparr>picks := is\<rparr>))"
    using assms by (simp add: NewPkt_def pool_Get_def gbind_assoc)
  then show ?thesis
    using NewPkt_synced [OF empty_pool_ok, of ref d]
    by (auto simp: pool_Get_def newJSONPkt_def)
qed

lemma NewErrPkt_fresh:
  assumes "picks c = i # is" and "length (pool c) \<le> i"
  shows "\<exists>p. NewErrPkt ref d msg c = Inr (p, c\<lparr>picks := is\<rparr>)"
proof -
  obtain p where p: "NewPkt ref d c = Inr (p, c\<lparr>picks := is\<rparr>)" "pkt_synced p"
    using NewPkt_fresh [OF assms] by blast
  obtain p1 where p1: "MetaAdd KeySvrStatus ''-1'' p = Inr p1" "pkt_synced p1"
    using MetaAdd_synced [OF p(2)] by blast
  obtain p2 where "MetaAdd KeySvrMsg msg p1 = Inr p2"
    using MetaAdd_synced [OF p1(2)] by blast
  then show ?thesis
    by (simp add: NewErrPkt_def p p1)
qed

text \<open>
  C25: two datagrams from anybody crash a server without extensions. Whatever its pool holds, when the
  first sets the metadata to null and the pool hands the packet it was decoded into to the goroutine
  of the second, the second, whatever it contains, panics by writing to a nil map.
\<close>

theorem null_metadata_crashes_server:
  fixes s :: "'z ServerState_scheme"
  assumes "NewUDPServer None a sz r = Inr (Inr svr)" and "\<not> streamsClosed s"
    and "picks (pc s) = length (pool (pc s)) # length (pool (pc s)) # Suc (length (pool (pc s))) #
           Suc (length (pool (pc s))) # is"
  shows "gbind (UDPServer_processIncoming svr null_meta_doc sender s)
    (UDPServer_processIncoming svr data sender') = Inl NilMapWrite"
proof -
  have plain: "plain svr"
    by (rule NewUDPServer_plain [OF assms(1)])
  let ?n = "length (pool (pc s))"
  let ?c1 = "(pc s)\<lparr>picks := ?n # Suc ?n # Suc ?n # is\<rparr>"
  let ?c2 = "(pc s)\<lparr>picks := Suc ?n # Suc ?n # is\<rparr>"
  obtain p where p: "NewPkt '''' '''' (pc s) = Inr (p, ?c1)" "jData p = ''''"
    using NewPkt_fresh [of "pc s", OF assms(3), of "''''" "''''"] by auto
  obtain q e where u: "Unmarshal null_meta_doc p = (q, e)"
    by fastforce
  then have q: "e = None" "meta q = None"
    using Unmarshal_null_meta [OF _ u] p(2) by (auto simp: b64_decode_def)
  have get: "MetaGet k q = ''''" for k
    by (simp add: MetaGet_def KVMeta_Get_def q(2))
  obtain resp where resp: "NewPkt '''' sender ?c1 = Inr (resp, ?c2)"
    using NewPkt_fresh [of ?c1 ?n "Suc ?n # Suc ?n # is" "''''" sender] by auto
  obtain x where x: "NewErrPkt '''' sender ''packet pipeline error: target not found'' (PutBack resp ?c2) =
      Inr (x, (PutBack resp ?c2)\<lparr>picks := Suc ?n # is\<rparr>)"
    using NewErrPkt_fresh [of "PutBack resp ?c2" "Suc ?n" "Suc ?n # is" "''''" sender
        "''packet pipeline error: target not found''"]
    by (auto simp: PutBack_def pool_Put_def)
  let ?c3 = "PutBack q ((PutBack resp ?c2)\<lparr>picks := Suc ?n # is\<rparr>)"
  have "UDPServer_processIncoming svr null_meta_doc sender s =
      Inr (s\<lparr>pc := ?c3, sendStream := sendStream s @ [x]\<rparr>)"
    using p resp x u q(1) assms(2)
    by (simp add: UDPServer_processIncoming_def run_target_def plain plain_ProcessPacket [OF plain] get
        TargetRelay_def svr_send_err_def svr_send_def svr_PutBack_def code_defs Let_def)
  moreover have "NewPkt '''' '''' ?c3 = Inl NilMapWrite"
    by (rule NewPkt_nil_meta [of _ "Suc ?n" "is"])
      (simp_all add: PutBack_def pool_Put_def nth_append q(2))
  ultimately show ?thesis
    by (simp add: UDPServer_processIncoming_def plain code_defs)
qed

theorem null_metadata_crashes_server_witness:
  "gbind (UDPServer_processIncoming demo_svr null_meta_doc ''10.0.0.1:9'' (demo_world [0, 0, 1, 1] Map.empty))
    (UDPServer_processIncoming demo_svr ''hi'' ''10.0.0.2:9'') = Inl NilMapWrite"
  by (rule null_metadata_crashes_server [OF demo_svr_new]) (simp_all add: demo_world_def)

text \<open>The representation invariant of everything the server holds, and the panics that remain.\<close>

definition world_wf :: "'z ServerState_scheme \<Rightarrow> bool" where
  "world_wf s \<longleftrightarrow> pool_wf (pc s) \<and> list_all pkt_wf (sendStream s)"

abbreviation svr_panics :: "panic set" where
  "svr_panics \<equiv> {NilMapWrite, ClosedChannel}"

lemma yields_weaken: "yields {NilMapWrite} Q m \<Longrightarrow> yields svr_panics Q m"
  by (erule yields_mono) auto

lemma world_wf_PutBack [simp]: "world_wf s \<Longrightarrow> pkt_wf p \<Longrightarrow> world_wf (svr_PutBack p s)"
  by (simp add: world_wf_def svr_PutBack_def)

lemma svr_send_yields: "world_wf s \<Longrightarrow> pkt_wf p \<Longrightarrow> yields svr_panics world_wf (svr_send p s)"
  by (simp add: svr_send_def world_wf_def)

lemma svr_send_err_yields: "world_wf s \<Longrightarrow> yields svr_panics world_wf (svr_send_err ref d msg s)"
  unfolding svr_send_err_def
  by (rule yields_bind [OF yields_weaken [OF NewErrPkt_yields]])
    (auto simp: world_wf_def intro!: svr_send_yields)

lemma svr_dist_yields: "world_wf s \<Longrightarrow> yields svr_panics world_wf (svr_dist w s)"
  by (simp add: svr_dist_def world_wf_def)

text \<open>What a callback is given and must give back.\<close>

fun cb_wf :: "TargetCtx \<times> JSONPkt \<times> 'z ServerState_scheme \<Rightarrow> bool" where
  "cb_wf (ctx, pw, s) \<longleftrightarrow> (\<exists>p. Pkt ctx = Some p \<and> pkt_wf p) \<and> pkt_wf pw \<and> world_wf s"

lemma relayCallback_yields:
  "cb_wf (ctx, pw, s) \<Longrightarrow> yields svr_panics cb_wf (relayCallback ctx pw s)"
  by (auto simp: relayCallback_def Let_def world_wf_def
      intro!: yields_bind [OF yields_weaken [OF NewPkt_yields]] yields_bind [OF yields_weaken [OF MetaAdd_yields]]
        yields_bind [OF svr_send_yields])

lemma respond_yields:
  "world_wf s \<Longrightarrow> pkt_wf resp \<Longrightarrow> yields svr_panics world_wf (respond ctx resp s)"
  by (auto simp: respond_def Let_def intro!: yields_bind [OF yields_weaken [OF MetaAdd_yields]] svr_send_yields)

lemma run_target_yields:
  fixes s :: "'z ServerState_scheme"
  assumes cbs: "\<And>cb ctx pw w. cb \<in> set (stages_of (callbackQueues pp) (MetaGet KeyTarget pkt)) \<Longrightarrow>
      cb_wf (ctx, pw, w) \<Longrightarrow> yields svr_panics cb_wf (cb ctx pw (w :: 'z ServerState_scheme))"
    and s: "world_wf s" and pkt: "pkt_wf pkt"
  shows "yields svr_panics world_wf (run_target pp pkt sender s)"
proof -
  let ?ctx = "\<lparr>Pkt = Some pkt, Stat = 0, Msg = '''', TargetName = MetaGet KeyTarget pkt, TargetFrom = sender\<rparr>"
  have run: "yields svr_panics (\<lambda>(err, st). cb_wf st) (ProcessPacket pp ?ctx resp (s\<lparr>pc := c\<rparr>))"
    if "pkt_wf resp" "pool_wf c" for resp c
    by (rule ProcessPacket_yields [where name = "MetaGet KeyTarget pkt"], rule cbs)
      (use that s pkt in \<open>auto simp: world_wf_def\<close>)
  have rest: "yields svr_panics world_wf
      (gbind (case err of
          Some e \<Rightarrow> svr_send_err (MetaGet KeyRef pkt) sender (''packet pipeline error: '' @ e) (svr_PutBack resp' s1)
        | None \<Rightarrow> respond ctx' resp' s1)
        (\<lambda>s2. Inr (svr_PutBack (case Pkt ctx' of Some q \<Rightarrow> q | None \<Rightarrow> pkt) s2)))"
    if "cb_wf (ctx', resp', s1)" for err ctx' resp' and s1 :: "'z ServerState_scheme"
    using that by (cases err) (auto intro!: yields_bind [OF svr_send_err_yields] yields_bind [OF respond_yields])
  show ?thesis
    unfolding run_target_def Let_def
  proof (rule yields_bind [OF yields_weaken [OF NewPkt_yields]])
    show "pool_wf (pc s)"
      using s by (simp add: world_wf_def)
  next
    fix x :: "JSONPkt \<times> JSONPktCreator"
    assume "case x of (p, pc') \<Rightarrow> pkt_wf p \<and> pool_wf pc'"
    then obtain resp c where "x = (resp, c)" "pkt_wf resp" "pool_wf c"
      by (cases x) auto
    then show "yields svr_panics world_wf (case x of (resp, pc') \<Rightarrow>
        gbind (ProcessPacket pp ?ctx resp (s\<lparr>pc := pc'\<rparr>)) (\<lambda>(err, ctx', resp', s1).
          gbind (case err of None \<Rightarrow> respond ctx' resp' s1
            | Some e \<Rightarrow> svr_send_err (MetaGet KeyRef pkt) sender (''packet pipeline error: '' @ e) (svr_PutBack resp' s1))
          (\<lambda>s2. Inr (svr_PutBack (case Pkt ctx' of None \<Rightarrow> pkt | Some q \<Rightarrow> q) s2))))"
      using rest by (auto intro!: yields_bind [OF run])
  qed
qed

lemma plain_cbs_yield:
  assumes "plain svr" and "cb \<in> set (stages_of (callbackQueues (packetP (procs svr))) name)"
    and "cb_wf (ctx, pw, s)"
  shows "yields svr_panics cb_wf (cb ctx pw (s :: 'z ServerState_scheme))"
  using assms relayCallback_yields [OF assms(3)]
  by (auto simp: plain_def AddCallback_def NewPacketPipeline_def stages_of_def split: if_splits)

lemma processIncoming_yields:
  assumes "plain svr" and "world_wf s"
  shows "yields svr_panics world_wf (UDPServer_processIncoming svr data sender s)"
proof -
  have "yields svr_panics world_wf
      (case Unmarshal data pkt of
         (pkt', Some e) \<Rightarrow>
           gbind (svr_send_err '''' sender ''malformed packet'' (s\<lparr>pc := c\<rparr>)) (\<lambda>s2. Inr (svr_PutBack pkt' s2))
       | (pkt', None) \<Rightarrow> run_target (packetP (procs svr)) pkt' sender (s\<lparr>pc := c\<rparr>))"
    if "pkt_wf pkt" "pool_wf c" for pkt c
  proof -
    obtain q e where u: "Unmarshal data pkt = (q, e)"
      by fastforce
    have "pkt_wf q" "world_wf (s\<lparr>pc := c\<rparr>)"
      using Unmarshal_wf [OF that(1), of data] u that(2) assms(2) by (simp_all add: world_wf_def)
    then show ?thesis
      unfolding u using plain_cbs_yield [OF assms(1)]
      by (cases e) (auto intro!: run_target_yields yields_bind [OF svr_send_err_yields])
  qed
  then show ?thesis
    using assms
    by (auto simp: UDPServer_processIncoming_def code_defs world_wf_def
        intro!: yields_bind [OF yields_weaken [OF NewPkt_yields]])
qed

lemma processOutgoing_yields:
  assumes "plain svr" and "world_wf s" and "pkt_wf p"
  shows "yields svr_panics world_wf (UDPServer_processOutgoing svr resolve p s)"
  using assms
  by (auto simp: UDPServer_processOutgoing_def code_defs Let_def
      intro!: yields_bind [OF svr_dist_yields] split: option.split)

definition serve_inv :: "'z ServerState_scheme ServeState \<Rightarrow> bool" where
  "serve_inv m \<longleftrightarrow> (case phase m of Crashed p \<Rightarrow> p \<in> svr_panics | _ \<Rightarrow> world_wf (world m))"

lemma outcome_inv:
  "yields svr_panics world_wf r \<Longrightarrow> running m \<Longrightarrow> serve_inv (outcome r m)"
  by (cases r; cases "phase m") (auto simp: outcome_def serve_inv_def running_def)

lemma running_world: "serve_inv m \<Longrightarrow> running m \<Longrightarrow> world_wf (world m)"
  by (cases "phase m") (simp_all add: serve_inv_def running_def)

lemma readPkts_effect:
  assumes "readPkts m = Some m'"
  shows "\<exists>n rp t. phase m = Serving (Suc n) \<and> ReadFrom (sth m) = Some (rp, t) \<and>
    m' = (case rerr rp of
            Some e \<Rightarrow> m\<lparr>sth := t, phase := Serving n\<rparr>
          | None \<Rightarrow> m\<lparr>sth := t, incoming := incoming m @ [(rdata rp, addr_String (rsender rp))]\<rparr>)"
proof -
  obtain n rp t where "phase m = Serving (Suc n)" "ReadFrom (sth m) = Some (rp, t)"
    using assms by (auto simp: readPkts_def split: serve_phase.splits nat.splits option.splits)
  then show ?thesis
    using assms by (intro exI [of _ n] exI [of _ rp] exI [of _ t]) (cases "rerr rp"; simp add: readPkts_def)
qed

lemma writePkts_effect:
  assumes "writePkts m = Some m'"
  shows "\<exists>n w ws t. phase m = Serving n \<and> swriter m = None \<and> writeStream (world m) = w # ws \<and>
    WriteTo (wpData w) (wpAddr w) (sth m) = Some t \<and>
    m' = m\<lparr>world := (world m)\<lparr>writeStream := ws\<rparr>, sth := t, swriter := Some (length (submitted (sth m)))\<rparr>"
  using assms by (auto simp: writePkts_def split: serve_phase.splits option.splits list.splits)

lemma writePkts_next_effect:
  "writePkts_next m = Some m' \<Longrightarrow> running m \<and> m' = m\<lparr>swriter := None\<rparr>"
  by (auto simp: writePkts_next_def split: option.splits if_splits)

lemma serve_inv_step:
  assumes "plain svr" and "serve_inv m" and "serve_step svr resolve m m'"
  shows "serve_inv m'"
  using assms(3)
proof cases
  case (ss_throttle t)
  then show ?thesis
    using assms(2) by (simp add: serve_inv_def split: serve_phase.splits)
next
  case ss_read
  from readPkts_effect [OF this] show ?thesis
    using assms(2) by (auto simp: serve_inv_def split: option.splits)
next
  case (ss_process i)
  then have "running m" "running (m\<lparr>incoming := remove_at i (incoming m)\<rparr>)"
    and m': "m' = outcome (UDPServer_processIncoming svr (fst (incoming m ! i)) (snd (incoming m ! i)) (world m))
      (m\<lparr>incoming := remove_at i (incoming m)\<rparr>)"
    by (auto simp: process_next_def running_def case_prod_beta split: if_splits)
  then show ?thesis
    unfolding m' using running_world [OF assms(2)]
    by (intro outcome_inv processIncoming_yields [OF assms(1)]) simp_all
next
  case (ss_send i)
  let ?q = "sendStream (world m)"
  have i: "i < length ?q" "running m"
    and m': "m' = outcome (UDPServer_processOutgoing svr resolve (?q ! i) ((world m)\<lparr>sendStream := remove_at i ?q\<rparr>)) m"
    using ss_send by (auto simp: sendPkts_def Let_def split: if_splits)
  then have "pkt_wf (?q ! i)" "world_wf ((world m)\<lparr>sendStream := remove_at i ?q\<rparr>)"
    using running_world [OF assms(2)] by (auto simp: world_wf_def list_all_nth list_all_remove_at)
  then show ?thesis
    unfolding m' by (intro outcome_inv processOutgoing_yields [OF assms(1)] i(2))
next
  case ss_write
  from writePkts_effect [OF this] show ?thesis
    using assms(2) by (auto simp: serve_inv_def world_wf_def)
next
  case ss_written
  from writePkts_next_effect [OF this] show ?thesis
    using assms(2) by (simp add: serve_inv_def split: serve_phase.splits)
next
  case ss_return
  then show ?thesis
    using assms(2)
    by (auto simp: Serve_return_def serve_inv_def world_wf_def split: serve_phase.splits nat.splits if_splits)
qed

definition serve_init :: "'z ServerState_scheme UDPServer \<Rightarrow> 'z ServerState_scheme ServeState \<Rightarrow> bool" where
  "serve_init svr m \<longleftrightarrow> plain svr \<and> world_wf (world m) \<and> phase m = Serving numReaders"

lemma serve_init_inv: "serve_init svr m \<Longrightarrow> plain svr \<and> serve_inv m"
  by (simp add: serve_init_def serve_inv_def)

interpretation srv: transition_invariant "serve_init svr" "serve_step svr resolve" "\<lambda>m. plain svr \<and> serve_inv m"
  for svr :: "'z ServerState_scheme UDPServer" and resolve
  by unfold_locales (auto intro: serve_inv_step dest: serve_init_inv)

text \<open>
  C10: under arbitrary traffic and scheduling, a server without extensions keeps every packet it holds,
  pooled or queued, well formed; and if it crashes, then by a write to a nil map or by a send on a
  closed channel, and by nothing else.
\<close>

theorem plain_server_panics:
  fixes svr :: "'z ServerState_scheme UDPServer"
  assumes "NewUDPServer None a sz r = Inr (Inr svr)" and "pool_ok (pc w)" and "sendStream w = []"
    and "Serve_start svr t w = (svr', m0)" and "(serve_step svr' resolve)\<^sup>*\<^sup>* m0 m"
  shows "(case phase m of Crashed p \<Rightarrow> p \<in> {NilMapWrite, ClosedChannel}
    | _ \<Rightarrow> list_all pkt_wf (pool (pc (world m))) \<and> list_all pkt_wf (sendStream (world m)))"
proof -
  have "serve_init svr' m0"
    using assms(2,3) Serve_start_plain [OF NewUDPServer_plain [OF assms(1)] assms(4)]
    by (simp add: serve_init_def world_wf_def pool_ok_wf)
  then have "serve_inv m"
    using srv.reachable_inv assms(5) by blast
  then show ?thesis
    by (auto simp: serve_inv_def world_wf_def pool_wf_def split: serve_phase.splits)
qed

text \<open>The throttle of a server whose connection failed before it was served.\<close>

definition demo_failed :: ThState where
  "demo_failed = th_init (demo_throttle\<lparr>recv := [\<lparr>rdata = [], rsender = None, rerr = Some ''closed''\<rparr>]\<rparr>) 0"

theorem plain_server_panics_witness:
  "\<exists>svr m0 m. Serve_start demo_svr demo_failed (demo_world [] Map.empty) = (svr, m0) \<and>
     (serve_step svr Some)\<^sup>*\<^sup>* m0 m \<and> phase m = Serving 4 \<and> list_all pkt_wf (sendStream (world m))"
proof -
  obtain svr m0 where start: "Serve_start demo_svr demo_failed (demo_world [] Map.empty) = (svr, m0)"
    by fastforce
  then have "phase m0 = Serving (Suc 4)" "sth m0 = demo_failed"
    by (auto simp: Serve_start_def numReaders_def)
  then obtain m where m: "readPkts m0 = Some m" "phase m = Serving 4"
    by (simp add: readPkts_def ReadFrom_def demo_failed_def th_init_def)
  then have "(serve_step svr Some)\<^sup>*\<^sup>* m0 m"
    by (intro r_into_rtranclp ss_read)
  then show ?thesis
    using plain_server_panics [OF demo_svr_new _ _ start, of Some m] start m(2)
    by (intro exI [of _ svr] exI [of _ m0] exI [of _ m]) (simp add: demo_world_def pool_ok_def)
qed

end
