(* ===== verification/Udp_Client.thy ===== *)
theory Udp_Client
  imports Crypto Throttle Go_Panics
begin

text \<open>
  The UDP client (\<open>src/client\<close>) together with the throttle it owns.

  The state that the pipelines' closures can reach extends the state of the crypto extension by the
  packet creator and the source of random numbers. The rest of the client is \<open>ClientRun\<close>: the table of
  requests, the throttle, and for every goroutine that can block the point at which it does. A step is
  one action of one goroutine; an action that cannot proceed is \<open>None\<close>. A channel made by a caller is
  a number, \<open>None\<close> is the nil channel. A send on an unbuffered channel completes when the other side
  receives.
\<close>

section \<open>References\<close>

definition letters :: string where
  "letters = ''abcdefghijklmnopqrstuvwxyzABCDEFGHIJKLMNOPQRSTUVWXYZ0123456789''"

record ClientState = CryptoState +
  cpc :: JSONPktCreator
  rints :: "nat \<Rightarrow> nat"
  rused :: nat

text \<open>\<open>rand.Intn(n)\<close> is some number below \<open>n\<close>.\<close>

definition Intn :: "nat \<Rightarrow> 'z ClientState_scheme \<Rightarrow> nat \<times> 'z ClientState_scheme" where
  "Intn n s = (rints s (rused s) mod n, s\<lparr>rused := rused s + 1\<rparr>)"

fun genRef :: "nat \<Rightarrow> 'z ClientState_scheme \<Rightarrow> string \<times> 'z ClientState_scheme" where
  "genRef 0 s = ('''', s)"
| "genRef (Suc n) s =
     (let (i, s1) = Intn (length letters) s; (r, s2) = genRef n s1 in (letters ! i # r, s2))"

section \<open>The client\<close>

text \<open>The statuses are declared and never used by the code.\<close>

definition requestStatusWaiting :: nat where "requestStatusWaiting = 0"
definition requestStatusError :: nat where "requestStatusError = 1"
definition requestStatusTimeout :: nat where "requestStatusTimeout = 2"

record requestCtx =
  reqCh :: "nat option"
  reqMsg :: string
  reqStatus :: nat

record clientPacket =
  cpData :: bytes
  cpCh :: "nat option"

record 's UDPClient =
  svrAddr :: string
  cprocs :: "'s Processor"

text \<open>
  The writer: waiting for a packet, waiting for the throttle's answer to the write with the given
  number, blocked on reporting an error, or returned.
\<close>

datatype cwriter = WIdle | WAwait nat "nat option" | WReport nat JSONPkt | WDone

record 'w ClientRun =
  cworld :: 'w
  cth :: ThState
  requests :: "string \<rightharpoonup> requestCtx"
  handing :: "(clientPacket \<times> string) list"     \<comment> \<open>calls of \<open>Send\<close> blocked on \<open>writeStream\<close>\<close>
  registering :: "(string \<times> nat option) list"   \<comment> \<open>calls of \<open>Send\<close> behind that point\<close>
  cwriter :: cwriter
  recvDone :: bool
  arriving :: "bytes list"   \<comment> \<open>goroutines of \<open>processIncoming\<close> that have not run yet\<close>
  delivering :: "(nat option \<times> JSONPkt \<times> string) list"   \<comment> \<open>blocked on a response channel or on \<open>miscStream\<close>\<close>
  deleting :: "string list"
  doneClosed :: bool
  connClosed :: bool
  inbox :: "(nat \<times> JSONPkt) list"    \<comment> \<open>received on response channels\<close>
  misc :: "JSONPkt list"             \<comment> \<open>received on \<open>miscStream\<close>\<close>
  sent :: "(string \<times> nat option) list"
  cpanic :: "panic option"

text \<open>\<open>NewUDPClient\<close>; \<open>listen\<close> is the error of \<open>net.ListenUDP\<close>, if any, and \<open>now\<close> the time.\<close>

definition NewUDPClient ::
  "string option \<Rightarrow> string \<Rightarrow> nat \<Rightarrow> Rate \<Rightarrow> int \<Rightarrow> 'z ClientState_scheme \<Rightarrow>
     (string + 'z ClientState_scheme UDPClient \<times> 'z ClientState_scheme ClientRun) go" where
  "NewUDPClient listen saddr bsize throttleRate now w =
     (case listen of
        Some e \<Rightarrow> Inr (Inl e)
      | None \<Rightarrow>
          gbind (NewUDPThrottle throttleRate bsize) (\<lambda>t.
            Inr (Inr (\<lparr>svrAddr = saddr, cprocs = \<lparr>dataP = NewDataPipeline, packetP = NewPacketPipeline\<rparr>\<rparr>,
              \<lparr>cworld = w, cth = th_init t now, requests = Map.empty, handing = [], registering = [],
               cwriter = WIdle, recvDone = False, arriving = [], delivering = [], deleting = [], doneClosed = False,
               connClosed = False, inbox = [], misc = [], sent = [], cpanic = None\<rparr>))))"

text \<open>
  \<open>Send\<close> up to the point where it hands the packet to the writer: an error, or the packet and its
  reference. The packet is changed in place, so it is a result as well.
\<close>

definition Send_prepare ::
  "'z ClientState_scheme UDPClient \<Rightarrow> JSONPkt \<Rightarrow> nat option \<Rightarrow> 'z ClientState_scheme \<Rightarrow>
     ((string + clientPacket \<times> string) \<times> JSONPkt \<times> 'z ClientState_scheme) go" where
  "Send_prepare c pkt ch w =
     (let given = MetaGet KeyRef pkt;
          (ref, w1) = (if given = '''' then genRef 5 w else (given, w)) in
      gbind (if given = '''' then MetaAdd KeyRef ref pkt else Inr pkt) (\<lambda>pkt1.
      case Marshal pkt1 of
        None \<Rightarrow> Inr (Inl (errorf ''packet encode failure''), pkt1, w1)
      | Some bin \<Rightarrow>
          (let tctx = \<lparr>Pkt = Some pkt1, Stat = 0, Msg = '''', PipelineName = ''_out_'', From = ''''\<rparr> in
           gbind (ProcessData (dataP (cprocs c)) tctx bin w1) (\<lambda>(err, tctx', bin', w2).
           let pkt2 = (case Pkt tctx' of Some q \<Rightarrow> q | None \<Rightarrow> pkt1) in
           case err of
             Some e \<Rightarrow> Inr (Inl (errorf (''data pipeline error: '' @ e)), pkt2, w2)
           | None \<Rightarrow>
               if Stat tctx' = CodeStopNoop
               then Inr (Inl (errorf ''data pipeline enforced noop''), pkt2, w2)
               else Inr (Inr (\<lparr>cpData = bin', cpCh = ch\<rparr>, ref), pkt2, w2)))))"

definition crash :: "panic \<Rightarrow> 'w ClientRun \<Rightarrow> 'w ClientRun" where
  "crash p m = m\<lparr>cpanic := Some p\<rparr>"

definition Send ::
  "'z ClientState_scheme UDPClient \<Rightarrow> JSONPkt \<Rightarrow> nat option \<Rightarrow> 'z ClientState_scheme ClientRun \<Rightarrow>
     'z ClientState_scheme ClientRun option" where
  "Send c pkt ch m =
     (if cpanic m \<noteq> None then None
      else case Send_prepare c pkt ch (cworld m) of
        Inl p \<Rightarrow> Some (crash p m)
      | Inr (Inl e, pkt', w) \<Rightarrow> Some (m\<lparr>cworld := w\<rparr>)
      | Inr (Inr (wp, ref), pkt', w) \<Rightarrow>
          Some (m\<lparr>cworld := w, handing := handing m @ [(wp, ref)], sent := sent m @ [(ref, ch)]\<rparr>))"

text \<open>The rest of \<open>Send\<close>: entering the request, in any order among the calls that got here.\<close>

definition Send_register :: "nat \<Rightarrow> 'w ClientRun \<Rightarrow> 'w ClientRun option" where
  "Send_register i m =
     (if cpanic m = None \<and> i < length (registering m)
      then let (ref, ch) = registering m ! i in
           Some (m\<lparr>registering := remove_at i (registering m),
             requests := (requests m)(ref \<mapsto> \<lparr>reqCh = ch, reqMsg = '''', reqStatus = requestStatusWaiting\<rparr>)\<rparr>)
      else None)"

text \<open>\<open>write\<close>: taking a packet and calling the throttle, and what it does with the answer.\<close>

definition write_take :: "'s UDPClient \<Rightarrow> 'w ClientRun \<Rightarrow> 'w ClientRun option" where
  "write_take c m =
     (case (cpanic m, cwriter m, handing m) of
        (None, WIdle, (wp, ref) # hs) \<Rightarrow>
          (case WriteTo (cpData wp) (svrAddr c) (cth m) of
             None \<Rightarrow> None
           | Some t \<Rightarrow>
               Some (m\<lparr>handing := hs, registering := registering m @ [(ref, cpCh wp)], cth := t,
                       cwriter := WAwait (length (submitted (cth m))) (cpCh wp)\<rparr>))
      | _ \<Rightarrow> None)"


definition write_answer :: "'z ClientState_scheme ClientRun \<Rightarrow> 'z ClientState_scheme ClientRun option" where
  "write_answer m =
     (case (cpanic m, cwriter m) of
        (None, WAwait i ch) \<Rightarrow>
          (case write_status i (cth m) of
             None \<Rightarrow> None
           | Some st \<Rightarrow>
               (case (werr st, ch) of
                  (Some e, Some ch') \<Rightarrow>
                    (case NewErrPkt '''' '''' (''packet write error: '' @ e) (cpc (cworld m)) of
                       Inl p \<Rightarrow> Some (crash p m)
                     | Inr (ep, pc') \<Rightarrow> Some (m\<lparr>cworld := (cworld m)\<lparr>cpc := pc'\<rparr>, cwriter := WReport ch' ep\<rparr>))
                | _ \<Rightarrow> Some (m\<lparr>cwriter := WIdle\<rparr>)))
      | _ \<Rightarrow> None)"

definition write_report :: "'w ClientRun \<Rightarrow> 'w ClientRun option" where
  "write_report m =
     (case (cpanic m, cwriter m) of
        (None, WReport ch p) \<Rightarrow> Some (m\<lparr>cwriter := WIdle, inbox := inbox m @ [(ch, p)]\<rparr>)
      | _ \<Rightarrow> None)"

definition write_stop :: "'w ClientRun \<Rightarrow> 'w ClientRun option" where
  "write_stop m =
     (if cpanic m = None \<and> doneClosed m \<and> cwriter m = WIdle then Some (m\<lparr>cwriter := WDone\<rparr>) else None)"

text \<open>\<open>processIncoming\<close>: what is to be delivered, and where.\<close>

definition UDPClient_processIncoming ::
  "'z ClientState_scheme UDPClient \<Rightarrow> (string \<rightharpoonup> requestCtx) \<Rightarrow> bytes \<Rightarrow> 'z ClientState_scheme \<Rightarrow>
     ((nat option \<times> JSONPkt \<times> string) option \<times> 'z ClientState_scheme) go" where
  "UDPClient_processIncoming c reqs data w =
     (let tctx = \<lparr>Pkt = None, Stat = 0, Msg = '''', PipelineName = ''_in_'', From = svrAddr c\<rparr> in
      gbind (ProcessData (dataP (cprocs c)) tctx data w) (\<lambda>(err, tctx', data', w1).
      case err of
        Some e \<Rightarrow> Inr (None, w1)
      | None \<Rightarrow>
          gbind (NewPkt '''' '''' (cpc w1)) (\<lambda>(pkt, pc').
          case Unmarshal data' pkt of
            (pkt', Some e) \<Rightarrow> Inr (None, w1\<lparr>cpc := pc'\<rparr>)
          | (pkt', None) \<Rightarrow>
              let ref = MetaGet KeyRef pkt' in
              Inr (Some (case reqs ref of Some ctx \<Rightarrow> reqCh ctx | None \<Rightarrow> None, pkt', ref), w1\<lparr>cpc := pc'\<rparr>))))"

text \<open>\<open>recv\<close> starts a goroutine for every datagram; the goroutines run in any order.\<close>

definition recv_packet :: "'w ClientRun \<Rightarrow> 'w ClientRun option" where
  "recv_packet m =
     (if cpanic m \<noteq> None \<or> recvDone m then None
      else case ReadFrom (cth m) of
        None \<Rightarrow> None
      | Some (rp, t) \<Rightarrow>
          (case rerr rp of
             Some e \<Rightarrow> Some (m\<lparr>cth := t\<rparr>)
           | None \<Rightarrow> Some (m\<lparr>cth := t, arriving := arriving m @ [rdata rp]\<rparr>)))"

definition process_packet ::
  "'z ClientState_scheme UDPClient \<Rightarrow> nat \<Rightarrow> 'z ClientState_scheme ClientRun \<Rightarrow> 'z ClientState_scheme ClientRun option" where
  "process_packet c i m =
     (if cpanic m = None \<and> i < length (arriving m)
      then let m1 = m\<lparr>arriving := remove_at i (arriving m)\<rparr> in
           case UDPClient_processIncoming c (requests m) (arriving m ! i) (cworld m) of
             Inl p \<Rightarrow> Some (crash p m1)
           | Inr (None, w) \<Rightarrow> Some (m1\<lparr>cworld := w\<rparr>)
           | Inr (Some d, w) \<Rightarrow> Some (m1\<lparr>cworld := w, delivering := delivering m @ [d]\<rparr>)
      else None)"

definition recv_stop :: "'w ClientRun \<Rightarrow> 'w ClientRun option" where
  "recv_stop m = (if cpanic m = None \<and> doneClosed m then Some (m\<lparr>recvDone := True\<rparr>) else None)"

text \<open>The receiver takes a delivery; only afterwards is the request deleted.\<close>

definition deliver :: "nat \<Rightarrow> 'w ClientRun \<Rightarrow> 'w ClientRun option" where
  "deliver i m =
     (if cpanic m = None \<and> i < length (delivering m)
      then let (ch, p, ref) = delivering m ! i;
               m1 = m\<lparr>delivering := remove_at i (delivering m), deleting := deleting m @ [ref]\<rparr>
           in Some (case ch of Some x \<Rightarrow> m1\<lparr>inbox := inbox m @ [(x, p)]\<rparr> | None \<Rightarrow> m1\<lparr>misc := misc m @ [p]\<rparr>)
      else None)"

definition delete_request :: "nat \<Rightarrow> 'w ClientRun \<Rightarrow> 'w ClientRun option" where
  "delete_request i m =
     (if cpanic m = None \<and> i < length (deleting m)
      then Some (m\<lparr>deleting := remove_at i (deleting m), requests := (requests m)(deleting m ! i := None)\<rparr>)
      else None)"

text \<open>\<open>Cleanup\<close>: closing \<open>doneStream\<close> (a second call panics), \<open>Shutdown\<close> of the throttle, and closing the
  connection once that has returned.\<close>

definition Cleanup_call :: "'w ClientRun \<Rightarrow> 'w ClientRun option" where
  "Cleanup_call m =
     (if cpanic m \<noteq> None then None
      else if doneClosed m then Some (crash ClosedChannel m)
      else case Shutdown_call (cth m) of
        None \<Rightarrow> None
      | Some t \<Rightarrow> Some (m\<lparr>doneClosed := True, cth := t\<rparr>))"

definition Cleanup_return :: "'w ClientRun \<Rightarrow> 'w ClientRun option" where
  "Cleanup_return m =
     (if cpanic m = None \<and> doneClosed m \<and> shut (cth m) then Some (m\<lparr>connClosed := True\<rparr>) else None)"


inductive client_step ::
  "'z ClientState_scheme UDPClient \<Rightarrow> 'z ClientState_scheme ClientRun \<Rightarrow> 'z ClientState_scheme ClientRun \<Rightarrow> bool"
  for c where
  cs_throttle: "th_step (cth m) t \<Longrightarrow> own_step (cth m) t \<Longrightarrow> client_step c m (m\<lparr>cth := t\<rparr>)"
| cs_Send: "Send c pkt ch m = Some m' \<Longrightarrow> client_step c m m'"
| cs_register: "Send_register i m = Some m' \<Longrightarrow> client_step c m m'"
| cs_take: "write_take c m = Some m' \<Longrightarrow> client_step c m m'"
| cs_answer: "write_answer m = Some m' \<Longrightarrow> client_step c m m'"
| cs_report: "write_report m = Some m' \<Longrightarrow> client_step c m m'"
| cs_write_stop: "write_stop m = Some m' \<Longrightarrow> client_step c m m'"
| cs_recv: "recv_packet m = Some m' \<Longrightarrow> client_step c m m'"
| cs_process: "process_packet c i m = Some m' \<Longrightarrow> client_step c m m'"
| cs_recv_stop: "recv_stop m = Some m' \<Longrightarrow> client_step c m m'"
| cs_deliver: "deliver i m = Some m' \<Longrightarrow> client_step c m m'"
| cs_delete: "delete_request i m = Some m' \<Longrightarrow> client_step c m m'"
| cs_Cleanup_call: "Cleanup_call m = Some m' \<Longrightarrow> client_step c m m'"
| cs_Cleanup_return: "Cleanup_return m = Some m' \<Longrightarrow> client_step c m m'"

section \<open>References are well formed\<close>

lemma genRef_letters: "length (fst (genRef n s)) = n \<and> set (fst (genRef n s)) \<subseteq> set letters"
proof (induction n arbitrary: s)
  case (Suc n)
  have "rints s (rused s) mod length letters < length letters"
    by (rule mod_less_divisor) (simp add: letters_def)
  then have "letters ! (rints s (rused s) mod length letters) \<in> set letters"
    by (rule nth_mem)
  then show ?case
    using Suc.IH [of "s\<lparr>rused := rused s + 1\<rparr>"]
    by (simp add: Intn_def Let_def case_prod_beta)
qed simp

lemma genRef_frame: "cpc (snd (genRef n s)) = cpc s \<and> crypto (snd (genRef n s)) = crypto s"
  by (induction n arbitrary: s) (simp_all add: Intn_def Let_def case_prod_beta)

section \<open>What each action does\<close>

definition plain_client :: "'z ClientState_scheme UDPClient \<Rightarrow> bool" where
  "plain_client c \<longleftrightarrow> pipelines (dataP (cprocs c)) = Map.empty"

lemma MetaAdd_get_wf:
  assumes "pkt_wf p" and "MetaAdd k v p = Inr p'"
  shows "pkt_wf p' \<and> MetaGet k' p' = (if k' = k then v else MetaGet k' p)"
proof (cases "meta p")
  case None
  then show ?thesis
    using assms(2) by (simp add: MetaAdd_def KVMeta_Add_def)
next
  case (Some i)
  then have "i < length (maps p)" "gm_ok (maps p ! i)"
    using assms(1) by (auto simp: pkt_wf_def ref_ok_def list_all_nth)
  moreover have "p' = p\<lparr>maps := (maps p)[i := gm_put k v (maps p ! i)]\<rparr>"
    using assms(2) Some by (simp add: MetaAdd_def KVMeta_Add_def)
  ultimately show ?thesis
    using yields_Inr [OF MetaAdd_yields [OF assms(1)] assms(2)] Some
    by (simp add: MetaGet_def KVMeta_Get_def gm_simps)
qed

lemma NewErrPkt_status:
  assumes "pool_wf pc" and "NewErrPkt ref d msg pc = Inr (p, pc')"
  shows "MetaGet KeySvrStatus p = ''-1''"
proof -
  obtain p0 c p1 where p0: "NewPkt ref d pc = Inr (p0, c)" and p1: "MetaAdd KeySvrStatus ''-1'' p0 = Inr p1"
    and p: "MetaAdd KeySvrMsg msg p1 = Inr p"
    using assms(2) by (auto simp: NewErrPkt_def go_simps)
  have "pkt_wf p0"
    using yields_Inr [OF NewPkt_yields [OF assms(1)] p0] by simp
  then show ?thesis
    using MetaAdd_get_wf [OF _ p1, of KeySvrStatus] MetaAdd_get_wf [OF _ p, of KeySvrStatus]
    by (simp add: key_defs)
qed

lemma Send_effect:
  assumes "plain_client c" and "Send c pkt ch m = Some m'"
  shows "(\<exists>q. m' = crash q m) \<or>
    (\<exists>w wp ref. cpc w = cpc (cworld m) \<and> cpCh wp = ch \<and>
       m' = m\<lparr>cworld := w, handing := handing m @ [(wp, ref)], sent := sent m @ [(ref, ch)]\<rparr>)"
proof -
  obtain ref w1 where g: "(if MetaGet KeyRef pkt = '''' then genRef 5 (cworld m) else (MetaGet KeyRef pkt, cworld m)) = (ref, w1)"
    by fastforce
  then have "cpc w1 = cpc (cworld m)"
    using genRef_frame [of 5 "cworld m"] by (auto split: if_splits)
  moreover have "cpanic m = None"
    using assms(2) by (simp add: Send_def split: if_splits)
  moreover obtain r where r: "(if MetaGet KeyRef pkt = '''' then MetaAdd KeyRef ref pkt else Inr pkt) = r"
    by simp
  moreover have "Send_prepare c pkt ch (cworld m) =
      gbind r (\<lambda>p1. Inr (Inr (\<lparr>cpData = the (Marshal p1), cpCh = ch\<rparr>, ref), p1, w1))"
    using assms(1) by (simp add: Send_prepare_def g r Marshal_def plain_client_def code_defs)
  ultimately show ?thesis
    using assms(2)
  proof (cases r)
    case (Inr p1)
    then show ?thesis
      using assms(2) \<open>cpc w1 = _\<close> \<open>cpanic m = None\<close> \<open>Send_prepare c pkt ch (cworld m) = _\<close>
      by (intro disjI2 exI [of _ w1] exI [of _ "\<lparr>cpData = the (Marshal p1), cpCh = ch\<rparr>"] exI [of _ ref])
        (simp add: Send_def)
  qed (auto simp: Send_def)
qed

lemma register_effect:
  "Send_register i m = Some m' \<Longrightarrow>
     \<exists>ref ch. (ref, ch) \<in> set (registering m) \<and>
       m' = m\<lparr>registering := remove_at i (registering m),
              requests := (requests m)(ref \<mapsto> \<lparr>reqCh = ch, reqMsg = '''', reqStatus = requestStatusWaiting\<rparr>)\<rparr>"
  by (rule exI [of _ "fst (registering m ! i)"], rule exI [of _ "snd (registering m ! i)"])
    (auto simp: Send_register_def Let_def case_prod_beta split: if_splits)

lemma take_effect:
  assumes "write_take c m = Some m'"
  shows "\<exists>wp ref hs t. handing m = (wp, ref) # hs \<and> WriteTo (cpData wp) (svrAddr c) (cth m) = Some t \<and>
    m' = m\<lparr>handing := hs, registering := registering m @ [(ref, cpCh wp)], cth := t,
           cwriter := WAwait (length (submitted (cth m))) (cpCh wp)\<rparr>"
proof (cases "handing m")
  case (Cons h hs)
  obtain wp ref where h: "h = (wp, ref)"
    by fastforce
  show ?thesis
    using assms Cons h
    by (cases "cpanic m"; cases "cwriter m"; cases "WriteTo (cpData wp) (svrAddr c) (cth m)")
      (simp_all add: write_take_def)
qed (use assms in \<open>simp add: write_take_def split: option.splits cwriter.splits\<close>)

lemma answer_effect:
  assumes "write_answer m = Some m'"
  shows "\<exists>i ch. cwriter m = WAwait i ch \<and>
    ((\<exists>q. m' = crash q m) \<or> m' = m\<lparr>cwriter := WIdle\<rparr> \<or>
     (\<exists>x e ep pc'. ch = Some x \<and> NewErrPkt '''' '''' (''packet write error: '' @ e) (cpc (cworld m)) = Inr (ep, pc') \<and>
        m' = m\<lparr>cworld := (cworld m)\<lparr>cpc := pc'\<rparr>, cwriter := WReport x ep\<rparr>))"
proof (cases "cwriter m")
  case (WAwait i ch)
  show ?thesis
    using assms WAwait
    by (cases "cpanic m"; cases "write_status i (cth m)"; cases ch)
      (fastforce simp: write_answer_def split: option.splits sum.splits prod.splits)+
qed (use assms in \<open>simp_all add: write_answer_def split: option.splits\<close>)

lemma report_effect:
  "write_report m = Some m' \<Longrightarrow> \<exists>ch p. cwriter m = WReport ch p \<and> m' = m\<lparr>cwriter := WIdle, inbox := inbox m @ [(ch, p)]\<rparr>"
  by (cases "cpanic m"; cases "cwriter m") (simp_all add: write_report_def)

lemma write_stop_effect:
  "write_stop m = Some m' \<Longrightarrow> m' = m\<lparr>cwriter := WDone\<rparr>"
  by (simp add: write_stop_def split: if_splits)

lemma recv_stop_effect: "recv_stop m = Some m' \<Longrightarrow> m' = m\<lparr>recvDone := True\<rparr>"
  by (simp add: recv_stop_def split: if_splits)

lemma processIncoming_plain_client:
  assumes "plain_client c"
  shows "UDPClient_processIncoming c reqs data w =
    gbind (NewPkt '''' '''' (cpc w)) (\<lambda>(pkt, pc').
      case Unmarshal data pkt of
        (pkt', Some e) \<Rightarrow> Inr (None, w\<lparr>cpc := pc'\<rparr>)
      | (pkt', None) \<Rightarrow>
          Inr (Some (case reqs (MetaGet KeyRef pkt') of Some ctx \<Rightarrow> reqCh ctx | None \<Rightarrow> None, pkt', MetaGet KeyRef pkt'),
               w\<lparr>cpc := pc'\<rparr>))"
  using assms by (simp add: UDPClient_processIncoming_def plain_client_def Let_def)

lemma recv_effect:
  "recv_packet m = Some m' \<Longrightarrow>
     \<exists>rp t. ReadFrom (cth m) = Some (rp, t) \<and>
       (m' = m\<lparr>cth := t\<rparr> \<or> rerr rp = None \<and> m' = m\<lparr>cth := t, arriving := arriving m @ [rdata rp]\<rparr>)"
  by (cases "ReadFrom (cth m)") (auto simp: recv_packet_def split: if_splits option.splits)

lemma process_effect:
  assumes "plain_client c" and "process_packet c i m = Some m'" and "pool_wf (cpc (cworld m))"
  shows "\<exists>m1. m1 = m\<lparr>arriving := remove_at i (arriving m)\<rparr> \<and>
    ((\<exists>q. m' = crash q m1) \<or>
     (\<exists>pc'. pool_wf pc' \<and>
       (m' = m1\<lparr>cworld := (cworld m)\<lparr>cpc := pc'\<rparr>\<rparr> \<or>
        (\<exists>ch p pkt. (\<forall>x. ch = Some x \<longrightarrow> (\<exists>ctx. requests m (MetaGet KeyRef p) = Some ctx \<and> reqCh ctx = Some x)) \<and>
           i < length (arriving m) \<and> Unmarshal (arriving m ! i) pkt = (p, None) \<and>
           m' = m1\<lparr>cworld := (cworld m)\<lparr>cpc := pc'\<rparr>,
                   delivering := delivering m @ [(ch, p, MetaGet KeyRef p)]\<rparr>))))"
proof -
  have ok: "cpanic m = None" "i < length (arriving m)"
    using assms(2) by (auto simp: process_packet_def split: if_splits)
  note run = process_packet_def processIncoming_plain_client [OF assms(1)] ok Let_def
  show ?thesis
  proof (cases "NewPkt '''' '''' (cpc (cworld m))")
    case (Inl q)
    then show ?thesis
      using assms(2) by (auto simp: run)
  next
    case (Inr x)
    obtain pkt pc' q e where x: "x = (pkt, pc')" and u: "Unmarshal (arriving m ! i) pkt = (q, e)"
      by fastforce
    have "pool_wf pc'"
      using yields_Inr [OF NewPkt_yields [OF assms(3)] Inr] x by simp
    show ?thesis
    proof (cases e)
      case None
      let ?ch = "case requests m (MetaGet KeyRef q) of Some ctx \<Rightarrow> reqCh ctx | None \<Rightarrow> None"
      have "\<forall>y. ?ch = Some y \<longrightarrow> (\<exists>ctx. requests m (MetaGet KeyRef q) = Some ctx \<and> reqCh ctx = Some y)"
        by (auto split: option.splits)
      moreover have "m' = m\<lparr>arriving := remove_at i (arriving m), cworld := (cworld m)\<lparr>cpc := pc'\<rparr>,
          delivering := delivering m @ [(?ch, q, MetaGet KeyRef q)]\<rparr>"
        using assms(2) Inr x u None by (simp add: run)
      ultimately show ?thesis
        using \<open>pool_wf pc'\<close> ok(2) u None by blast
    next
      case (Some y)
      then have "m' = m\<lparr>arriving := remove_at i (arriving m), cworld := (cworld m)\<lparr>cpc := pc'\<rparr>\<rparr>"
        using assms(2) Inr x u by (simp add: run)
      then show ?thesis
        using \<open>pool_wf pc'\<close> by blast
    qed
  qed
qed

lemma deliver_effect:
  assumes "deliver i m = Some m'"
  shows "\<exists>ch p ref. (ch, p, ref) \<in> set (delivering m) \<and>
    (\<exists>m1. m1 = m\<lparr>delivering := remove_at i (delivering m), deleting := deleting m @ [ref]\<rparr> \<and>
      (case ch of Some x \<Rightarrow> m' = m1\<lparr>inbox := inbox m @ [(x, p)]\<rparr> | None \<Rightarrow> m' = m1\<lparr>misc := misc m @ [p]\<rparr>))"
proof -
  have i: "i < length (delivering m)"
    using assms by (simp add: deliver_def split: if_splits)
  obtain ch p ref where d: "delivering m ! i = (ch, p, ref)"
    by (metis prod_cases3)
  then have "(ch, p, ref) \<in> set (delivering m)"
    using nth_mem [OF i] by simp
  then show ?thesis
    using assms d
    by (intro exI [of _ ch] exI [of _ p] exI [of _ ref])
      (cases ch; auto simp: deliver_def Let_def split: if_splits)
qed

lemma delete_effect:
  "delete_request i m = Some m' \<Longrightarrow>
     m' = m\<lparr>deleting := remove_at i (deleting m), requests := (requests m)(deleting m ! i := None)\<rparr>"
  by (simp add: delete_request_def split: if_splits)

lemma Cleanup_call_effect:
  "Cleanup_call m = Some m' \<Longrightarrow>
     (\<exists>q. m' = crash q m) \<or> (\<exists>t. Shutdown_call (cth m) = Some t \<and> m' = m\<lparr>doneClosed := True, cth := t\<rparr>)"
  by (auto simp: Cleanup_call_def split: if_splits option.splits)

lemma Cleanup_return_effect:
  "Cleanup_return m = Some m' \<Longrightarrow> shut (cth m) \<and> m' = m\<lparr>connClosed := True\<rparr>"
  by (simp add: Cleanup_return_def split: if_splits)

section \<open>The request table\<close>

text \<open>
  Everything the client holds for a response channel goes back to a call of \<open>Send\<close>: \<open>S\<close> is the set of
  the references sent, each with the channel it was sent with.
\<close>

type_synonym sentset = "(string \<times> nat option) set"

definition known :: "sentset \<Rightarrow> nat \<Rightarrow> bool" where
  "known S ch \<longleftrightarrow> (\<exists>ref. (ref, Some ch) \<in> S)"

definition routed :: "sentset \<Rightarrow> nat \<times> JSONPkt \<Rightarrow> bool" where
  "routed S d \<longleftrightarrow> (MetaGet KeyRef (snd d), Some (fst d)) \<in> S \<or>
     (MetaGet KeySvrStatus (snd d) = ''-1'' \<and> known S (fst d))"

definition handing_ok :: "sentset \<Rightarrow> clientPacket \<times> string \<Rightarrow> bool" where
  "handing_ok S h \<longleftrightarrow> (snd h, cpCh (fst h)) \<in> S"

definition requests_ok :: "sentset \<Rightarrow> (string \<rightharpoonup> requestCtx) \<Rightarrow> bool" where
  "requests_ok S f \<longleftrightarrow> (\<forall>ref ctx. f ref = Some ctx \<longrightarrow> (ref, reqCh ctx) \<in> S)"

fun delivery_ok :: "sentset \<Rightarrow> nat option \<times> JSONPkt \<times> string \<Rightarrow> bool" where
  "delivery_ok S (None, p, ref) = True"
| "delivery_ok S (Some ch, p, ref) \<longleftrightarrow> MetaGet KeyRef p = ref \<and> (ref, Some ch) \<in> S"

fun writer_ok :: "sentset \<Rightarrow> cwriter \<Rightarrow> bool" where
  "writer_ok S (WAwait i (Some ch)) = known S ch"
| "writer_ok S (WReport ch p) = routed S (ch, p)"
| "writer_ok S _ = True"

definition route_inv :: "'w ClientRun \<Rightarrow> bool" where
  "route_inv m \<longleftrightarrow>
     list_all (handing_ok (set (sent m))) (handing m) \<and>
     list_all (\<lambda>r. r \<in> set (sent m)) (registering m) \<and>
     requests_ok (set (sent m)) (requests m) \<and>
     list_all (delivery_ok (set (sent m))) (delivering m) \<and>
     writer_ok (set (sent m)) (cwriter m) \<and>
     list_all (routed (set (sent m))) (inbox m)"

definition client_inv :: "'z ClientState_scheme ClientRun \<Rightarrow> bool" where
  "client_inv m \<longleftrightarrow> route_inv m \<and> pool_wf (cpc (cworld m)) \<and> stuck_inv (cth m) \<and> \<not> connClosed m"

lemma known_mono: "known S ch \<Longrightarrow> S \<subseteq> T \<Longrightarrow> known T ch"
  by (auto simp: known_def)

lemma routed_mono: "routed S d \<Longrightarrow> S \<subseteq> T \<Longrightarrow> routed T d"
  by (auto simp: routed_def intro: known_mono)

lemma delivery_mono: "delivery_ok S d \<Longrightarrow> S \<subseteq> T \<Longrightarrow> delivery_ok T d"
  by (cases "(S, d)" rule: delivery_ok.cases) auto

lemma writer_mono: "writer_ok S w \<Longrightarrow> S \<subseteq> T \<Longrightarrow> writer_ok T w"
  by (cases "(S, w)" rule: writer_ok.cases) (auto intro: known_mono routed_mono)

lemma list_all_weaken: "list_all P xs \<Longrightarrow> (\<And>x. P x \<Longrightarrow> Q x) \<Longrightarrow> list_all Q xs"
  by (simp add: list_all_iff)

lemma route_inv_sent:
  assumes "route_inv m"
  shows "route_inv (m\<lparr>cworld := w, handing := handing m @ [(wp, ref)], sent := sent m @ [(ref, cpCh wp)]\<rparr>)"
proof -
  let ?S = "set (sent m)" and ?T = "insert (ref, cpCh wp) (set (sent m))"
  have sub: "?S \<subseteq> ?T"
    by blast
  have "list_all (handing_ok ?T) (handing m)" "list_all (\<lambda>r. r \<in> ?T) (registering m)"
    "requests_ok ?T (requests m)"
    using assms by (auto simp: route_inv_def handing_ok_def requests_ok_def elim!: list_all_weaken)
  moreover have "list_all (delivery_ok ?T) (delivering m)" "list_all (routed ?T) (inbox m)"
    "writer_ok ?T (cwriter m)"
    using assms delivery_mono [OF _ sub] routed_mono [OF _ sub] writer_mono [OF _ sub]
    by (auto simp: route_inv_def elim!: list_all_weaken)
  ultimately show ?thesis
    by (simp add: route_inv_def handing_ok_def)
qed

lemma client_crash [simp]: "client_inv m \<Longrightarrow> client_inv (crash p m)"
  by (simp add: client_inv_def crash_def route_inv_def)

lemma stuck_ReadFrom: "stuck_inv t \<Longrightarrow> ReadFrom t = Some (rp, t') \<Longrightarrow> stuck_inv t'"
  by (erule stuck_inv_run [rotated]) (rule rs_ReadFrom)

lemma stuck_WriteTo: "stuck_inv t \<Longrightarrow> WriteTo d a t = Some t' \<Longrightarrow> stuck_inv t'"
  by (erule stuck_inv_run [rotated]) (rule rs_WriteTo)

lemma stuck_Shutdown: "stuck_inv t \<Longrightarrow> Shutdown_call t = Some t' \<Longrightarrow> stuck_inv t'"
  by (erule stuck_inv_run [rotated]) (rule rs_Shutdown_call)

lemma client_inv_take: "client_inv m \<Longrightarrow> write_take c m = Some m' \<Longrightarrow> client_inv m'"
proof -
  assume inv: "client_inv m" and "write_take c m = Some m'"
  then obtain wp ref hs t where h: "handing m = (wp, ref) # hs"
    and t: "WriteTo (cpData wp) (svrAddr c) (cth m) = Some t"
    and m': "m' = m\<lparr>handing := hs, registering := registering m @ [(ref, cpCh wp)], cth := t,
           cwriter := WAwait (length (submitted (cth m))) (cpCh wp)\<rparr>"
    using take_effect by blast
  then have "(ref, cpCh wp) \<in> set (sent m)" "stuck_inv t"
    using inv stuck_WriteTo [OF _ t] by (auto simp: client_inv_def route_inv_def handing_ok_def)
  moreover from this have "writer_ok (set (sent m)) (WAwait i (cpCh wp))" for i
    by (cases "cpCh wp") (auto simp: known_def)
  ultimately show ?thesis
    using inv h by (simp add: m' client_inv_def route_inv_def)
qed

lemma client_inv_answer:
  assumes "client_inv m" and "write_answer m = Some m'"
  shows "client_inv m'"
proof -
  obtain i ch where w: "cwriter m = WAwait i ch" and
    "(\<exists>q. m' = crash q m) \<or> m' = m\<lparr>cwriter := WIdle\<rparr> \<or>
     (\<exists>x e ep pc'. ch = Some x \<and> NewErrPkt '''' '''' (''packet write error: '' @ e) (cpc (cworld m)) = Inr (ep, pc') \<and>
        m' = m\<lparr>cworld := (cworld m)\<lparr>cpc := pc'\<rparr>, cwriter := WReport x ep\<rparr>)"
    using answer_effect [OF assms(2)] by blast
  then consider (crash) q where "m' = crash q m" | (idle) "m' = m\<lparr>cwriter := WIdle\<rparr>"
    | (err) x e ep pc' where "ch = Some x" "NewErrPkt '''' '''' (''packet write error: '' @ e) (cpc (cworld m)) = Inr (ep, pc')"
        "m' = m\<lparr>cworld := (cworld m)\<lparr>cpc := pc'\<rparr>, cwriter := WReport x ep\<rparr>"
    by blast
  then show "client_inv m'"
  proof cases
    case err
    have pool: "pool_wf (cpc (cworld m))"
      using assms by (simp add: client_inv_def)
    have "MetaGet KeySvrStatus ep = ''-1''" "pool_wf pc'"
      using NewErrPkt_status [OF pool err(2)] yields_Inr [OF NewErrPkt_yields [OF pool] err(2)] by auto
    then show ?thesis
      using assms(1) w err(1,3) by (simp add: client_inv_def route_inv_def routed_def)
  qed (use assms(1) in \<open>simp_all add: client_inv_def route_inv_def crash_def\<close>)
qed

lemma client_inv_report: "client_inv m \<Longrightarrow> write_report m = Some m' \<Longrightarrow> client_inv m'"
  by (drule report_effect) (auto simp: client_inv_def route_inv_def)

lemma client_inv_write_stop: "client_inv m \<Longrightarrow> write_stop m = Some m' \<Longrightarrow> client_inv m'"
  by (drule write_stop_effect) (simp add: client_inv_def route_inv_def)

lemma client_inv_deliver:
  assumes "client_inv m" and "deliver i m = Some m'"
  shows "client_inv m'"
proof -
  obtain ch p ref m1 where d: "(ch, p, ref) \<in> set (delivering m)"
    and m1: "m1 = m\<lparr>delivering := remove_at i (delivering m), deleting := deleting m @ [ref]\<rparr>"
    and m': "case ch of Some x \<Rightarrow> m' = m1\<lparr>inbox := inbox m @ [(x, p)]\<rparr> | None \<Rightarrow> m' = m1\<lparr>misc := misc m @ [p]\<rparr>"
    using deliver_effect [OF assms(2)] by blast
  have "client_inv m1"
    using assms(1) by (simp add: m1 client_inv_def route_inv_def list_all_remove_at)
  moreover have "delivery_ok (set (sent m)) (ch, p, ref)"
    using assms(1) d by (simp add: client_inv_def route_inv_def list_all_iff)
  ultimately show ?thesis
    using m' by (cases ch) (simp_all add: m1 client_inv_def route_inv_def routed_def)
qed

lemma client_inv_delete: "client_inv m \<Longrightarrow> delete_request i m = Some m' \<Longrightarrow> client_inv m'"
  by (drule delete_effect) (simp add: client_inv_def route_inv_def requests_ok_def)

lemma client_inv_register:
  assumes "client_inv m" and "Send_register i m = Some m'"
  shows "client_inv m'"
proof -
  obtain ref ch where "(ref, ch) \<in> set (registering m)" and
    m': "m' = m\<lparr>registering := remove_at i (registering m),
           requests := (requests m)(ref \<mapsto> \<lparr>reqCh = ch, reqMsg = '''', reqStatus = requestStatusWaiting\<rparr>)\<rparr>"
    using register_effect [OF assms(2)] by blast
  then have "(ref, ch) \<in> set (sent m)"
    using assms(1) by (auto simp: client_inv_def route_inv_def list_all_iff)
  then show ?thesis
    using assms(1) by (simp add: m' client_inv_def route_inv_def requests_ok_def list_all_remove_at)
qed

lemma client_inv_recv: "client_inv m \<Longrightarrow> recv_packet m = Some m' \<Longrightarrow> client_inv m'"
  by (drule recv_effect) (auto simp: client_inv_def route_inv_def intro: stuck_ReadFrom)

lemma client_inv_process:
  assumes "plain_client c" and "client_inv m" and "process_packet c i m = Some m'"
  shows "client_inv m'"
proof -
  let ?m1 = "m\<lparr>arriving := remove_at i (arriving m)\<rparr>"
  have pool: "pool_wf (cpc (cworld m))"
    using assms(2) by (simp add: client_inv_def)
  from process_effect [OF assms(1,3) this] consider (crash) q where "m' = crash q ?m1"
    | (drop) pc' where "pool_wf pc'" "m' = ?m1\<lparr>cworld := (cworld m)\<lparr>cpc := pc'\<rparr>\<rparr>"
    | (packet) pc' ch p where "pool_wf pc'"
        "\<forall>x. ch = Some x \<longrightarrow> (\<exists>ctx. requests m (MetaGet KeyRef p) = Some ctx \<and> reqCh ctx = Some x)"
        "m' = ?m1\<lparr>cworld := (cworld m)\<lparr>cpc := pc'\<rparr>,
                  delivering := delivering m @ [(ch, p, MetaGet KeyRef p)]\<rparr>"
    by blast
  then show ?thesis
  proof cases
    case packet
    have "delivery_ok (set (sent m)) (ch, p, MetaGet KeyRef p)"
      using assms(2) packet(2) by (cases ch) (fastforce simp: client_inv_def route_inv_def requests_ok_def)+
    then show ?thesis
      using assms(2) packet(1,3) by (simp add: client_inv_def route_inv_def)
  qed (use assms(2) in \<open>simp_all add: client_inv_def route_inv_def crash_def\<close>)
qed

lemma client_inv_step:
  assumes "plain_client c" and "client_inv m" and "client_step c m m'"
  shows "client_inv m'"
  using assms(3)
proof cases
  case (cs_throttle t)
  then show ?thesis
    using assms(2) stuck_inv_step [of "cth m" t] by (simp add: client_inv_def route_inv_def)
next
  case (cs_Send pkt ch)
  from Send_effect [OF assms(1) this] show ?thesis
    using assms(2) route_inv_sent [of m] by (auto simp: client_inv_def route_inv_def crash_def)
next
  case cs_recv_stop
  from recv_stop_effect [OF this] show ?thesis
    using assms(2) by (simp add: client_inv_def route_inv_def)
next
  case cs_Cleanup_call
  from Cleanup_call_effect [OF this] show ?thesis
    using assms(2) stuck_Shutdown [of "cth m"] by (auto simp: client_inv_def route_inv_def crash_def)
next
  case cs_Cleanup_return
  from Cleanup_return_effect [OF this] show ?thesis
    using assms(2) by (simp add: client_inv_def stuck_inv_def)
qed (use assms(1,2) in \<open>blast intro: client_inv_take client_inv_answer client_inv_report client_inv_write_stop
  client_inv_recv client_inv_process client_inv_deliver client_inv_delete client_inv_register\<close>)+

definition client_start :: "'z ClientState_scheme UDPClient \<Rightarrow> 'z ClientState_scheme ClientRun \<Rightarrow> bool" where
  "client_start c m \<longleftrightarrow> (\<exists>a sz r now w. NewUDPClient None a sz r now w = Inr (Inr (c, m)) \<and> pool_ok (cpc w))"

lemma client_start_inv: "client_start c m \<Longrightarrow> plain_client c \<and> client_inv m"
  by (auto simp: client_start_def NewUDPClient_def go_simps plain_client_def NewDataPipeline_def client_inv_def
      route_inv_def requests_ok_def pool_ok_wf NewUDPThrottle_def th_init_def stuck_inv_def)

interpretation cl: transition_invariant "client_start c" "client_step c" "\<lambda>m. plain_client c \<and> client_inv m"
  for c :: "'z ClientState_scheme UDPClient"
  by unfold_locales (auto intro: client_inv_step dest: client_start_inv)

section \<open>Sending and receiving one packet\<close>

lemma genRef_state: "snd (genRef n s) = s\<lparr>rused := rused s + n\<rparr>"
  by (induction n arbitrary: s) (simp_all add: Intn_def Let_def case_prod_beta)

text \<open>\<open>Send\<close> hands on what the outgoing stages make of the marshalled packet, which is the given packet
  with a reference.\<close>

lemma Send_prepare_ok:
  assumes "pkt_synced pkt"
  shows "\<exists>pkt1 ref n b. Marshal pkt1 = Some b \<and> pkt_synced pkt1 \<and> buff pkt1 = buff pkt \<and>
    jData pkt1 = jData pkt \<and> dest pkt1 = dest pkt \<and>
    MetaMap pkt1 = (if MetaGet KeyRef pkt = '''' then gm_put KeyRef ref (MetaMap pkt) else MetaMap pkt) \<and>
    MetaGet KeyRef pkt1 = ref \<and>
    (if MetaGet KeyRef pkt = '''' then length ref = 5 \<and> set ref \<subseteq> set letters else ref = MetaGet KeyRef pkt) \<and>
    (MetaGet KeyRef pkt = '''' \<longrightarrow> ref = fst (genRef 5 w)) \<and>
    (\<forall>wire w'. ProcessData (dataP (cprocs c)) (out_ctx pkt1) b (w\<lparr>rused := n\<rparr>) = Inr (None, out_ctx pkt1, wire, w') \<longrightarrow>
      Send_prepare c pkt ch w = Inr (Inr (\<lparr>cpData = wire, cpCh = ch\<rparr>, ref), pkt1, w'))"
proof (cases "MetaGet KeyRef pkt = ''''")
  case True
  obtain ref w1 where g: "genRef 5 w = (ref, w1)"
    by fastforce
  then have ref: "length ref = 5" "set ref \<subseteq> set letters" "w1 = w\<lparr>rused := rused w + 5\<rparr>"
    using genRef_letters [of 5 w] genRef_state [of 5 w] by auto
  obtain p1 where p1: "MetaAdd KeyRef ref pkt = Inr p1" "pkt_synced p1"
    "MetaMap p1 = gm_put KeyRef ref (MetaMap pkt)" "buff p1 = buff pkt" "jData p1 = jData pkt" "dest p1 = dest pkt"
    using MetaAdd_synced [OF assms] by blast
  have "MetaGet KeyRef p1 = ref"
    using MetaMap_ok [OF assms] by (simp add: MetaGet_MetaMap p1(3) gm_simps)
  moreover obtain b where b: "Marshal p1 = Some b"
    by (simp add: Marshal_def)
  ultimately show ?thesis
    using True g ref p1
    by (intro exI [of _ p1] exI [of _ ref] exI [of _ "rused w + 5"] exI [of _ b])
      (simp add: Send_prepare_def out_ctx_def code_defs)
next
  case False
  obtain b where "Marshal pkt = Some b"
    by (simp add: Marshal_def)
  then show ?thesis
    using assms False
    by (intro exI [of _ pkt] exI [of _ "MetaGet KeyRef pkt"] exI [of _ "rused w"] exI [of _ b])
      (simp add: Send_prepare_def out_ctx_def code_defs)
qed

lemma Send_prepare_plain:
  assumes "plain_client c" and "pkt_synced pkt"
  shows "\<exists>pkt1 ref w1 b. Send_prepare c pkt ch w = Inr (Inr (\<lparr>cpData = b, cpCh = ch\<rparr>, ref), pkt1, w1) \<and>
    Marshal pkt1 = Some b \<and> jData pkt1 = jData pkt \<and> cpc w1 = cpc w \<and>
    MetaMap pkt1 = (if MetaGet KeyRef pkt = '''' then gm_put KeyRef ref (MetaMap pkt) else MetaMap pkt) \<and>
    MetaGet KeyRef pkt1 = ref \<and>
    (if MetaGet KeyRef pkt = '''' then length ref = 5 \<and> set ref \<subseteq> set letters else ref = MetaGet KeyRef pkt)"
proof -
  have "ProcessData (dataP (cprocs c)) (out_ctx p) b w1 = Inr (None, out_ctx p, b, w1)" for p b w1
    using assms(1) by (simp add: plain_client_def)
  moreover obtain pkt1 ref n b where "Marshal pkt1 = Some b" "jData pkt1 = jData pkt"
    "MetaMap pkt1 = (if MetaGet KeyRef pkt = '''' then gm_put KeyRef ref (MetaMap pkt) else MetaMap pkt)"
    "MetaGet KeyRef pkt1 = ref"
    "if MetaGet KeyRef pkt = '''' then length ref = 5 \<and> set ref \<subseteq> set letters else ref = MetaGet KeyRef pkt"
    "\<forall>wire w'. ProcessData (dataP (cprocs c)) (out_ctx pkt1) b (w\<lparr>rused := n\<rparr>) = Inr (None, out_ctx pkt1, wire, w') \<longrightarrow>
      Send_prepare c pkt ch w = Inr (Inr (\<lparr>cpData = wire, cpCh = ch\<rparr>, ref), pkt1, w')"
    using Send_prepare_ok [OF assms(2), where c = c and w = w and ch = ch] by blast
  ultimately show ?thesis
    by (intro exI [of _ pkt1] exI [of _ ref] exI [of _ "w\<lparr>rused := n\<rparr>"] exI [of _ b]) simp
qed

text \<open>The context of an incoming datagram.\<close>

definition in_ctx :: "string \<Rightarrow> TransformContext" where
  "in_ctx from' = \<lparr>Pkt = None, Stat = 0, Msg = '''', PipelineName = ''_in_'', From = from'\<rparr>"

text \<open>A datagram that the incoming stages turn into a marshalled packet is delivered by its reference.\<close>

lemma processIncoming_delivers:
  assumes "ProcessData (dataP (cprocs c)) (in_ctx (svrAddr c)) wire w = Inr (None, in_ctx (svrAddr c), b, w)"
    and "pool_ok (cpc w)" and "pkt_synced p" and "meta_utf8 (MetaMap p)" and "Marshal (Close p) = Some b"
  shows "\<exists>q pc'. UDPClient_processIncoming c reqs wire w =
      Inr (Some (case reqs (MetaGet KeyRef p) of Some ctx \<Rightarrow> reqCh ctx | None \<Rightarrow> None, q, MetaGet KeyRef p),
           w\<lparr>cpc := pc'\<rparr>) \<and>
    pool_ok pc' \<and> pkt_synced q \<and> Data q = Data p \<and> (\<forall>k. MetaGet k q = MetaGet k p)"
proof -
  obtain pkt pc' where new: "NewPkt '''' '''' (cpc w) = Inr (pkt, pc')" "pool_ok pc'"
    using NewPkt_synced [OF assms(2)] by blast
  obtain q where "Unmarshal b pkt = (q, None)" "pkt_synced q" "Data q = Data p" "\<forall>k. MetaGet k q = MetaGet k p"
    using wire_decode [OF assms(3,4,2) new(1)] assms(5) by auto
  then show ?thesis
    using assms(1) new
    by (intro exI [of _ q] exI [of _ pc']) (simp add: UDPClient_processIncoming_def in_ctx_def Let_def)
qed

lemma processIncoming_client:
  assumes "plain_client c" and "pool_ok (cpc w)" and "pkt_synced p" and "meta_utf8 (MetaMap p)"
    and "Marshal (Close p) = Some b"
  shows "\<exists>q w'. UDPClient_processIncoming c reqs b w =
      Inr (Some (case reqs (MetaGet KeyRef p) of Some ctx \<Rightarrow> reqCh ctx | None \<Rightarrow> None, q, MetaGet KeyRef p), w') \<and>
    pkt_synced q \<and> Data q = Data p \<and> (\<forall>k. MetaGet k q = MetaGet k p)"
proof -
  have "ProcessData (dataP (cprocs c)) (in_ctx (svrAddr c)) b w = Inr (None, in_ctx (svrAddr c), b, w)"
    using assms(1) by (simp add: plain_client_def)
  then show ?thesis
    using processIncoming_delivers [OF _ assms(2-5)] by blast
qed

lemma client_startI:
  "NewUDPClient None a sz r now w = Inr (Inr (c, m0)) \<Longrightarrow> pool_ok (cpc w) \<Longrightarrow> client_start c m0"
  unfolding client_start_def by blast

section \<open>Properties of the client\<close>


text \<open>
  C34: \<open>Cleanup\<close> never gets to closing the connection: in every reachable state of a client without
  extensions the connection is open, the throttle's goroutines are running, and the return of
  \<open>Cleanup\<close> is not enabled.
\<close>

theorem Cleanup_never_closes:
  fixes c :: "'z ClientState_scheme UDPClient"
  assumes "NewUDPClient None a sz r now w = Inr (Inr (c, m0))" and "pool_ok (cpc w)"
    and "(client_step c)\<^sup>*\<^sup>* m0 m"
  shows "\<not> connClosed m \<and> Cleanup_return m = None \<and> reader (cth m) \<noteq> Returned \<and> writer (cth m) \<noteq> Returned"
proof -
  have "client_start c m0"
    by (rule client_startI [OF assms(1,2)])
  then have "client_inv m"
    using cl.reachable_inv assms(3) by blast
  then show ?thesis
    by (simp add: client_inv_def stuck_inv_def Cleanup_return_def)
qed

definition demo_cstate :: "nat list \<Rightarrow> ClientState" where
  "demo_cstate oracle = \<lparr>crypto = demo_crypto Map.empty, rand = demo_rand, cpc = \<lparr>pool = [], picks = oracle\<rparr>,
     rints = (\<lambda>n. n), rused = 0\<rparr>"

definition demo_client :: "ClientState UDPClient" where
  "demo_client = \<lparr>svrAddr = ''127.0.0.1:10000'', cprocs = \<lparr>dataP = NewDataPipeline, packetP = NewPacketPipeline\<rparr>\<rparr>"

definition demo_crun :: "ClientState ClientRun" where
  "demo_crun = \<lparr>cworld = demo_cstate [], cth = th_init demo_throttle 0, requests = Map.empty, handing = [],
     registering = [], cwriter = WIdle, recvDone = False, arriving = [], delivering = [], deleting = [],
     doneClosed = False, connClosed = False, inbox = [], misc = [], sent = [], cpanic = None\<rparr>"

lemma demo_client_new:
  "NewUDPClient None ''127.0.0.1:10000'' 4096 Rate1k 0 (demo_cstate []) = Inr (Inr (demo_client, demo_crun))"
  by (simp add: NewUDPClient_def demo_throttle_new demo_client_def demo_crun_def)

lemma demo_cstate_ok: "pool_ok (cpc (demo_cstate oracle))"
  by (simp add: demo_cstate_def pool_ok_def)

theorem Cleanup_never_closes_witness:
  "\<exists>m. (client_step demo_client)\<^sup>*\<^sup>* demo_crun m \<and> doneClosed m \<and> \<not> connClosed m \<and> Cleanup_return m = None"
proof -
  obtain t where t: "Shutdown_call (cth demo_crun) = Some t"
    by (simp add: Shutdown_call_def demo_crun_def th_init_def)
  let ?m = "demo_crun\<lparr>doneClosed := True, cth := t\<rparr>"
  have "Cleanup_call demo_crun = Some ?m"
    using t by (simp add: Cleanup_call_def) (simp add: demo_crun_def)
  then have run: "(client_step demo_client)\<^sup>*\<^sup>* demo_crun ?m"
    by (intro r_into_rtranclp cs_Cleanup_call)
  show ?thesis
    using Cleanup_never_closes [OF demo_client_new demo_cstate_ok run] run
    by (intro exI [of _ ?m]) simp
qed


text \<open>A concrete run: a packet is sent, the connection refuses the write, and the caller is told.\<close>

fun client_ops ::
  "(ClientState ClientRun \<Rightarrow> ClientState ClientRun option) list \<Rightarrow> ClientState ClientRun \<Rightarrow> ClientState ClientRun option" where
  "client_ops [] m = Some m"
| "client_ops (f # fs) m = (case f m of None \<Rightarrow> None | Some m' \<Rightarrow> client_ops fs m')"

lemma client_ops_steps:
  "client_ops fs m = Some m' \<Longrightarrow> (\<And>f a b. f \<in> set fs \<Longrightarrow> f a = Some b \<Longrightarrow> client_step c a b) \<Longrightarrow>
     (client_step c)\<^sup>*\<^sup>* m m'"
proof (induction fs arbitrary: m)
  case (Cons f fs)
  then obtain m1 where m1: "f m = Some m1" "client_ops fs m1 = Some m'"
    by (auto split: option.splits)
  moreover have "client_step c m m1"
    using Cons.prems(2) [of f m m1] m1(1) by simp
  moreover have "(client_step c)\<^sup>*\<^sup>* m1 m'"
    by (rule Cons.IH [OF m1(2)]) (use Cons.prems(2) in auto)
  ultimately show ?case
    by (blast intro: converse_rtranclp_into_rtranclp)
qed simp

definition on_throttle :: "(ThState \<Rightarrow> ThState option) \<Rightarrow> 'w ClientRun \<Rightarrow> 'w ClientRun option" where
  "on_throttle f m = map_option (\<lambda>t. m\<lparr>cth := t\<rparr>) (f (cth m))"

lemma on_throttle_step:
  assumes "on_throttle f m = Some m'" and "\<And>t t'. f t = Some t' \<Longrightarrow> run_step t t' \<and> own_step t t'"
  shows "client_step c m m'"
  using assms by (auto simp: on_throttle_def intro!: cs_throttle ts_run)

definition demo_failed_write :: "(ClientState ClientRun \<Rightarrow> ClientState ClientRun option) list" where
  "demo_failed_write = [Send demo_client newJSONPkt (Some 7), write_take demo_client, on_throttle write_start,
     on_throttle (write_conn \<lparr>written = 0, werr = Some ''refused''\<rparr>), on_throttle write_reply, write_answer, write_report]"

lemma demo_failed_write_steps: "f \<in> set demo_failed_write \<Longrightarrow> f a = Some b \<Longrightarrow> client_step demo_client a b"
proof -
  have "write_start t = Some t' \<Longrightarrow> run_step t t' \<and> own_step t t'"
    "write_conn st t = Some t' \<Longrightarrow> run_step t t' \<and> own_step t t'"
    "write_reply t = Some t' \<Longrightarrow> run_step t t' \<and> own_step t t'" for t t' st
    using rs_write_start [of t t'] rs_write_conn [of st t t'] rs_write_reply [of t t']
      write_start_effect [of t t'] write_conn_effect [of st t t'] write_reply_effect [of t t']
    by (auto simp: own_step_def)
  then show "f \<in> set demo_failed_write \<Longrightarrow> f a = Some b \<Longrightarrow> client_step demo_client a b"
    by (auto simp: demo_failed_write_def intro: cs_Send cs_take cs_answer cs_report elim!: on_throttle_step)
qed

lemma demo_failed_write_runs:
  "\<exists>m p. client_ops demo_failed_write demo_crun = Some m \<and> inbox m = [(7, p)] \<and> map snd (sent m) = [Some 7]"
proof -
  have plain: "plain_client demo_client"
    by (simp add: plain_client_def demo_client_def NewDataPipeline_def)
  obtain p1 ref w1 b where prep: "Send_prepare demo_client newJSONPkt (Some 7) (demo_cstate []) =
      Inr (Inr (\<lparr>cpData = b, cpCh = Some 7\<rparr>, ref), p1, w1)" and w1: "cpc w1 = \<lparr>pool = [], picks = []\<rparr>"
    using Send_prepare_plain [OF plain newJSONPkt_synced, of "Some 7" "demo_cstate []"]
    by (auto simp: demo_cstate_def)
  obtain ep pc' where "NewErrPkt '''' '''' ''packet write error: refused'' \<lparr>pool = [], picks = []\<rparr> = Inr (ep, pc')"
    using NewErrPkt_synced [OF empty_pool_ok] by blast
  then show ?thesis
    by (simp add: demo_failed_write_def Send_def demo_crun_def prep write_take_def WriteTo_def th_init_def
        demo_throttle_def chan_cap_def on_throttle_def write_start_def write_conn_def write_reply_def
        write_answer_def write_status_def w1 write_report_def Let_def)
qed


text \<open>
  C33: a response can overtake the registration of its request. When the writer has taken the packet but
  \<open>Send\<close> has not entered its reference yet, the response with that reference goes to \<open>Misc\<close> instead of
  the caller's channel, and if it is taken and its deletion done before the registration, the request
  stays in the table with nobody left to answer it.
\<close>

theorem early_response_goes_to_misc:
  fixes m :: "'z ClientState_scheme ClientRun"
  assumes "NewUDPClient None a sz r now w = Inr (Inr (c, m0))" and "pool_ok (cpc (cworld m))"
    and "cpanic m = None" and "\<not> recvDone m"
    and "registering m = [(ref, Some ch)]" and "requests m ref = None" and "arriving m = []"
    and "delivering m = []" and "deleting m = []"
    and "recv (th (cth m)) = \<lparr>rdata = b, rsender = src, rerr = None\<rparr> # pkts"
    and "pkt_synced p" and "meta_utf8 (MetaMap p)" and "Marshal (Close p) = Some b" and "MetaGet KeyRef p = ref"
  shows "\<exists>m1 m2 m3 m4 m5 q. recv_packet m = Some m1 \<and> process_packet c 0 m1 = Some m2 \<and> deliver 0 m2 = Some m3 \<and>
    delete_request 0 m3 = Some m4 \<and> Send_register 0 m4 = Some m5 \<and> misc m5 = misc m @ [q] \<and> Data q = Data p \<and>
    inbox m5 = inbox m \<and> arriving m5 = [] \<and> delivering m5 = [] \<and>
    requests m5 ref = Some \<lparr>reqCh = Some ch, reqMsg = '''', reqStatus = requestStatusWaiting\<rparr>"
proof -
  have plain: "plain_client c"
    using client_start_inv [of c m0] assms(1)
    by (auto simp: NewUDPClient_def go_simps plain_client_def NewDataPipeline_def)
  obtain q w' where q: "UDPClient_processIncoming c (requests m) b (cworld m) = Inr (Some (None, q, ref), w')"
    "Data q = Data p"
    using processIncoming_client [OF plain assms(2,11,12,13), of "requests m"] assms(6,14) by auto
  show ?thesis
    using assms(3-10) q
    by (simp add: recv_packet_def ReadFrom_def process_packet_def deliver_def delete_request_def
        Send_register_def Let_def)
qed


theorem early_response_goes_to_misc_witness:
  "\<exists>b m1 m2 m3 m4 m5 q. Marshal (Close demo_pkt) = Some b \<and>
     recv_packet (demo_crun\<lparr>registering := [(''r1'', Some 7)],
       cth := (th_init (demo_throttle\<lparr>recv := [\<lparr>rdata = b, rsender = None, rerr = None\<rparr>]\<rparr>) 0)\<rparr>) = Some m1 \<and>
     process_packet demo_client 0 m1 = Some m2 \<and> deliver 0 m2 = Some m3 \<and> delete_request 0 m3 = Some m4 \<and>
     Send_register 0 m4 = Some m5 \<and> misc m5 = [q] \<and> Data q = ''hi'' \<and> requests m5 ''r1'' \<noteq> None"
proof -
  obtain b where b: "Marshal (Close demo_pkt) = Some b"
    by (simp add: Marshal_def)
  let ?m = "demo_crun\<lparr>registering := [(''r1'', Some 7)],
      cth := (th_init (demo_throttle\<lparr>recv := [\<lparr>rdata = b, rsender = None, rerr = None\<rparr>]\<rparr>) 0)\<rparr>"
  have "MetaGet KeyRef demo_pkt = ''r1''" "Data demo_pkt = ''hi''"
    by (simp_all add: demo_pkt_def newJSONPkt_def Data_def MetaGet_def KVMeta_Get_def gm_str_def key_defs)
  then show ?thesis
    using early_response_goes_to_misc [OF demo_client_new, of ?m "''r1''" 7 b None "[]" demo_pkt] b
      demo_pkt_synced demo_pkt_utf8 demo_cstate_ok
    by (fastforce simp: demo_crun_def th_init_def demo_throttle_def)
qed



end
