(* ===== verification/Key_Exchange.thy ===== *)
theory Key_Exchange
  imports Crypto
begin

text \<open>
  The functions of \<open>src/core/crypto/client.go\<close> that drive a client through a key exchange:
  \<open>ServerKEx\<close>, \<open>ClientKEx\<close> and \<open>ConfigureClient\<close>.

  They use the client through the interface of \<open>src/client/client.go\<close>: its processor, and a call of
  \<open>Send\<close> followed by a receive from the response channel. The latter is the parameter \<open>ask\<close>: the
  packet that arrives, or \<open>None\<close> if none ever does. The error that \<open>Send\<close> returns is ignored by the
  code, which then waits for a response that cannot come, so a refused packet is a case of \<open>None\<close>.
  A function that never returns yields \<open>None\<close> as well. The state of the client includes that of the
  extension, because its pipelines may.
\<close>

type_synonym 's asking = "JSONPkt \<Rightarrow> 's \<Rightarrow> (JSONPkt option \<times> 's) go"

text \<open>The part that both exchanges share: send, wait, and process the response. The text of the error is
  that of \<open>encoding/json\<close> behind fixed prefixes and is not modelled: it is \<open>Inl ()\<close>.\<close>

definition await_key ::
  "'z CryptoState_scheme asking \<Rightarrow> string \<Rightarrow> JSONPkt \<Rightarrow> 'z CryptoState_scheme \<Rightarrow>
     ((unit + unit) option \<times> 'z CryptoState_scheme) go" where
  "await_key ask addr req s =
     gbind (ask req s) (\<lambda>(resp, s1).
       case resp of
         None \<Rightarrow> Inr (None, s1)
       | Some r \<Rightarrow>
           gbind (ProcessKeyExResp addr r (crypto s1)) (\<lambda>res.
             case res of
               Inl e \<Rightarrow> Inr (Some (Inl ()), s1)
             | Inr cr \<Rightarrow> Inr (Some (Inr ()), s1\<lparr>crypto := cr\<rparr>)))"

definition ServerKEx ::
  "'z CryptoState_scheme asking \<Rightarrow> string \<Rightarrow> JSONPkt \<Rightarrow> 'z CryptoState_scheme \<Rightarrow>
     ((unit + unit) option \<times> 'z CryptoState_scheme) go" where
  "ServerKEx ask svrAddr pkt s =
     gbind (ConfigureKeyExServerPkt (crypto s) pkt) (\<lambda>req. await_key ask svrAddr req s)"

definition ClientKEx ::
  "'z CryptoState_scheme asking \<Rightarrow> string \<Rightarrow> JSONPkt \<Rightarrow> 'z CryptoState_scheme \<Rightarrow>
     ((unit + unit) option \<times> 'z CryptoState_scheme) go" where
  "ClientKEx ask clientAddr pkt s =
     gbind (ConfigureKeyExClientPkt clientAddr pkt) (\<lambda>req. await_key ask clientAddr req s)"

text \<open>
  \<open>ConfigureClient\<close>: the key pair (\<open>gen\<close> is the outcome of \<open>ecdsa.GenerateKey\<close>), a fresh extension, the
  exchange with the server over the client as it is, and only then the installation. The client's
  behaviour depends on its processor.
\<close>

datatype configure_error = KeyGenFail string | ExtensionFail string | HandshakeFail | InstallFail string

definition ConfigureClient ::
  "('z CryptoState_scheme Processor \<Rightarrow> 'z CryptoState_scheme asking) \<Rightarrow> string + PrivateKey \<Rightarrow> string \<Rightarrow> JSONPkt \<Rightarrow>
     'z CryptoState_scheme Processor \<Rightarrow> 'z CryptoState_scheme \<Rightarrow>
     ((configure_error + 'z CryptoState_scheme Processor) option \<times> 'z CryptoState_scheme) go" where
  "ConfigureClient ask gen svrAddr pkt p s =
     (case gen of
        Inl e \<Rightarrow> Inr (Some (Inl (KeyGenFail e)), s)
      | Inr key \<Rightarrow>
          (case NewCrypto (Some key) gen of
             Inl e \<Rightarrow> Inr (Some (Inl (ExtensionFail e)), s)
           | Inr cr \<Rightarrow>
               gbind (ServerKEx (ask p) svrAddr pkt (s\<lparr>crypto := cr\<rparr>)) (\<lambda>(res, s1).
                 case res of
                   None \<Rightarrow> Inr (None, s1)
                 | Some (Inl e) \<Rightarrow> Inr (Some (Inl HandshakeFail), s1)
                 | Some (Inr u) \<Rightarrow>
                     (case Extend ''client'' p of
                        (p', Some e) \<Rightarrow> Inr (Some (Inl (InstallFail e)), s1)
                      | (p', None) \<Rightarrow> Inr (Some (Inr p'), s1)))))"

section \<open>Completed exchanges\<close>

lemma private_key_D [simp]: "privD (private_key d) = d"
  by (simp add: private_key_def split: prod.split)

definition pub_of :: "nat \<Rightarrow> PublicKey" where
  "pub_of d = \<lparr>pkX = privX (private_key d), pkY = privY (private_key d)\<rparr>"

text \<open>An extension made from the private key \<open>d\<close>.\<close>

definition holds_key :: "nat \<Rightarrow> Crypto \<Rightarrow> bool" where
  "holds_key d cr \<longleftrightarrow> privKey cr = private_key d \<and> publicKey cr = marshalPublicKey (pub_of d)"

lemma NewCrypto_holds: "NewCrypto (Some (private_key d)) gen = Inr cr \<Longrightarrow> holds_key d cr \<and> keys cr = Map.empty"
  by (auto simp: NewCrypto_def holds_key_def pub_of_def)

lemma holds_key_setKeyStore [simp]: "holds_key d (setKeyStore a ks cr) = holds_key d cr"
  by (simp add: holds_key_def setKeyStore_def)

lemma agree_shared:
  assumes "ecdh_agree a b"
  shows "\<exists>x. (\<forall>cr. holds_key a cr \<longrightarrow> computeSharedKey cr (pub_of b) = Inr x) \<and>
    (\<forall>cr. holds_key b cr \<longrightarrow> computeSharedKey cr (pub_of a) = Inr x)"
proof -
  obtain x y where "ScalarMult (privX (private_key a)) (privY (private_key a)) b = Inr (x, y)"
    "ScalarMult (privX (private_key b)) (privY (private_key b)) a = Inr (x, y)"
    using ecdh_shared [OF assms] by auto
  then show ?thesis
    by (intro exI [of _ x]) (simp add: computeSharedKey_def holds_key_def pub_of_def)
qed

text \<open>The secret that the holder of one private key computes for the public key of the other.\<close>

definition ecdh_secret :: "nat \<Rightarrow> nat \<Rightarrow> int \<Rightarrow> bool" where
  "ecdh_secret a b x \<longleftrightarrow> (\<exists>y. ScalarMult (privX (private_key b)) (privY (private_key b)) a = Inr (x, y))"

lemma ecdh_secret_shared: "ecdh_secret a b x \<Longrightarrow> holds_key a cr \<Longrightarrow> computeSharedKey cr (pub_of b) = Inr x"
  by (auto simp: ecdh_secret_def computeSharedKey_def holds_key_def pub_of_def)

lemma ecdh_secret_agree: "ecdh_agree a b \<Longrightarrow> ecdh_secret a b x \<Longrightarrow> ecdh_secret b a x"
  using ecdh_shared [of a b] by (auto simp: ecdh_secret_def)

text \<open>An exchange whose response carries a public key stores the secret for it.\<close>

lemma await_key_ok:
  assumes "ask req s = Inr (Some r, s1)" and "Data r = marshalPublicKey pk" and "computeSharedKey (crypto s1) pk = Inr x"
  shows "await_key ask addr req s =
    Inr (Some (Inr ()), s1\<lparr>crypto := setKeyStore addr \<lparr>keySent = True, shared = x, public = pk\<rparr> (crypto s1)\<rparr>)"
  using assms by (simp add: await_key_def ProcessKeyExResp_def unmarshal_marshal_PublicKey)

text \<open>The request of an exchange with the server.\<close>

lemma ConfigureKeyExServerPkt_ok:
  assumes "pkt_synced pkt"
  shows "\<exists>req. ConfigureKeyExServerPkt cr pkt = Inr (Close req) \<and> pkt_synced req \<and> Data req = publicKey cr \<and>
    dest req = dest pkt \<and> MetaMap req = gm_put KeyTarget TargetKeyExchangeServer (MetaMap pkt)"
proof -
  have "pkt_synced (Clear pkt)"
    using assms by (simp add: Clear_def)
  from MetaAdd_synced [OF this, of KeyTarget TargetKeyExchangeServer]
  obtain p1 where "MetaAdd KeyTarget TargetKeyExchangeServer (Clear pkt) = Inr p1" "pkt_synced p1" "buff p1 = []"
    "dest p1 = dest pkt" "MetaMap p1 = gm_put KeyTarget TargetKeyExchangeServer (MetaMap pkt)"
    by (auto simp: Clear_def)
  then show ?thesis
    by (intro exI [of _ "Write (publicKey cr) p1"]) (simp add: ConfigureKeyExServerPkt_def Write_def Data_def)
qed


text \<open>The request of an exchange with another client.\<close>

lemma ConfigureKeyExClientPkt_ok:
  assumes "pkt_synced pkt"
  shows "\<exists>req. ConfigureKeyExClientPkt addr pkt = Inr (Close req) \<and> pkt_synced req \<and>
    Data req = CHR ''{'' # dquote # ''ip'' @ dquote # CHR '':'' # dquote # addr @ dquote # ''}'' \<and>
    dest req = dest pkt \<and> MetaMap req = gm_put KeyTarget TargetKeyExchangeClient (MetaMap pkt)"
proof -
  have "pkt_synced (Clear pkt)"
    using assms by (simp add: Clear_def)
  from MetaAdd_synced [OF this, of KeyTarget TargetKeyExchangeClient]
  obtain p1 where "MetaAdd KeyTarget TargetKeyExchangeClient (Clear pkt) = Inr p1" "pkt_synced p1" "buff p1 = []"
    "dest p1 = dest pkt" "MetaMap p1 = gm_put KeyTarget TargetKeyExchangeClient (MetaMap pkt)"
    by (auto simp: Clear_def)
  then show ?thesis
    by (intro exI [of _ "Write (CHR ''{'' # dquote # ''ip'' @ dquote # CHR '':'' # dquote # addr @ dquote # ''}'') p1"])
      (simp add: ConfigureKeyExClientPkt_def Write_def Data_def)
qed

end
