(* ===== verification/Network.thy ===== *)
theory Network
  imports Udp_Server Udp_Client Key_Exchange
begin

text \<open>
  Clients and servers together: what a datagram goes through between the call of \<open>Send\<close> on one side
  and the delivery on the other.

  The contract between a server and the callbacks of its application is the locale \<open>target_handler\<close>;
  the callbacks of the key exchange are instances of it. \<open>ask\<close> composes \<open>Send\<close>, the server's
  processing in both directions and the client's delivery over a network that delivers each datagram
  once; it is the \<open>ask\<close> parameter of the key exchange for a real client.
\<close>

section \<open>Stages on the way\<close>

lemma ProcessData_one:
  "stages_of (pipelines d) (PipelineName ctx) = [f] \<Longrightarrow> f ctx b s = Inr (ctx, b', s') \<Longrightarrow> Stat ctx = 0 \<Longrightarrow>
     ProcessData d ctx b s = Inr (None, ctx, b', s')"
  by (simp add: ProcessData_def code_defs)

lemma ctx_simps [simp]:
  "PipelineName (out_ctx p) = ''_out_''" "Stat (out_ctx p) = 0" "Pkt (out_ctx p) = Some p"
  "PipelineName (in_ctx a) = ''_in_''" "Stat (in_ctx a) = 0" "From (in_ctx a) = a"
  by (simp_all add: out_ctx_def in_ctx_def)

text \<open>A source of random bytes that does not fail.\<close>

definition rand_ok :: "Rand \<Rightarrow> bool" where
  "rand_ok r \<longleftrightarrow> (\<forall>i. \<exists>b. draws r i = Inr b)"

lemma encryptAES_ok:
  assumes "aes_key_ok key" and "length b \<le> gcm_limit" and "rand_ok r"
  shows "\<exists>c r'. encryptAES key b r = Inr (c, None, r') \<and> rand_ok r' \<and> decryptAES key c = Inr (b, None)"
proof -
  obtain e where "draws r (drawn r) = Inr e"
    using assms(3) by (auto simp: rand_ok_def)
  then obtain c r' where c: "encryptAES key b r = Inr (c, None, r')"
    using encryptAES_total [OF assms(1,2)] by blast
  moreover have "draws r' = draws r"
    using c by (auto simp: encryptAES_def ReadFull_def go_simps split: if_splits sum.splits)
  ultimately show ?thesis
    using assms(3) decryptAES_encryptAES [OF c] by (auto simp: rand_ok_def)
qed

definition keyed :: "string \<Rightarrow> int \<Rightarrow> Crypto \<Rightarrow> bool" where
  "keyed a x cr \<longleftrightarrow> (\<exists>k. keys cr a = Some k \<and> keySent k \<and> shared k = x)"

text \<open>The outgoing stage of an endpoint that shares the key with the destination.\<close>

lemma encrypt_out:
  fixes s :: "'z CryptoState_scheme"
  assumes "stages_of (pipelines d) ''_out_'' = [encryptTransport]" and "\<not> skips_crypto (MetaGet KeyNoCrypto p)"
    and "keyed (Dest p) x (crypto s)" and "aes_key_ok (big_Bytes x)" and "length b \<le> gcm_limit" and "rand_ok (rand s)"
  shows "\<exists>wb r'. ProcessData d (out_ctx p) b s = Inr (None, out_ctx p, wb, s\<lparr>rand := r'\<rparr>) \<and> rand_ok r' \<and>
    decryptAES (big_Bytes x) wb = Inr (b, None)"
proof -
  obtain k where k: "keys (crypto s) (Dest p) = Some k" "keySent k" "shared k = x"
    using assms(3) by (auto simp: keyed_def)
  obtain c r' where c: "encryptAES (big_Bytes x) b (rand s) = Inr (c, None, r')" "rand_ok r'"
    "decryptAES (big_Bytes x) c = Inr (b, None)"
    using encryptAES_ok [OF assms(4,5,6)] by blast
  have "encryptTransport (out_ctx p) b s = Inr (out_ctx p, c, s\<lparr>rand := r'\<rparr>)"
    using k c(1) assms(2) by (simp add: encryptTransport_def getKeyStore_def getKeySent_def)
  then show ?thesis
    using c(2,3) assms(1) ProcessData_one [of d "out_ctx p" encryptTransport b s c] by auto
qed

lemma decrypt_in:
  fixes s :: "'z CryptoState_scheme"
  assumes "stages_of (pipelines d) ''_in_'' = [decryptTransport]"
    and "keys (crypto s) a = Some k" and "decryptAES (big_Bytes (shared k)) wb = Inr (b, None)"
  shows "ProcessData d (in_ctx a) wb s = Inr (None, in_ctx a, b, s)"
  using assms by (intro ProcessData_one [where f = decryptTransport]) (simp_all add: decryptTransport_def getKeyStore_def)

lemma decrypt_in_no_key:
  fixes s :: "'z CryptoState_scheme"
  assumes "stages_of (pipelines d) ''_in_'' = [decryptTransport]" and "keys (crypto s) a = None"
  shows "ProcessData d (in_ctx a) wb s = Inr (None, in_ctx a, wb, s)"
  using assms by (intro ProcessData_one [where f = decryptTransport]) (simp_all add: decryptTransport_def getKeyStore_def)

lemma exempt_out:
  fixes s :: "'z CryptoState_scheme"
  assumes "stages_of (pipelines d) ''_out_'' = [encryptTransport]" and "MetaGet KeyNoCrypto p = ''true''"
  shows "ProcessData d (out_ctx p) b s = Inr (None, out_ctx p, b, s)"
  using assms by (intro ProcessData_one [where f = encryptTransport]) (simp_all add: encryptTransport_def skips_crypto_def)

section \<open>Callbacks that answer\<close>

text \<open>
  What a server relies on in a callback that answers requests, and what it promises to it: a request
  and an empty response packet with the reference, both sound. \<open>view\<close> is the part of the state that the
  callback is about; \<open>pre\<close> says for which data and state the callback answers, \<open>post\<close> what its response
  and its effect are.
\<close>

locale target_handler =
  fixes view :: "'z ServerState_scheme \<Rightarrow> 'v"
    and cb :: "'z ServerState_scheme TargetCallback"
    and pre :: "bytes \<Rightarrow> 'v \<Rightarrow> bool"
    and post :: "bytes \<Rightarrow> string \<Rightarrow> 'v \<Rightarrow> JSONPkt \<Rightarrow> 'v \<Rightarrow> bool"
  assumes view_frame [simp]: "view (s\<lparr>pc := c\<rparr>) = view s" "view (s\<lparr>sendStream := q\<rparr>) = view s"
      "view (s\<lparr>writeStream := ws\<rparr>) = view s" "view (s\<lparr>rand := r\<rparr>) = view s"
    and handles: "\<lbrakk>Pkt ctx = Some p; Stat ctx = 0; pkt_synced resp; MetaMap resp = [(KeyRef, ref)]; Data resp = [];
      pool_ok (pc s) \<and> \<not> streamsClosed s; pre (Data p) (view s)\<rbrakk> \<Longrightarrow>
    \<exists>stat resp' s'. cb ctx resp s = Inr (ctx\<lparr>Stat := stat\<rparr>, resp', s') \<and> stat \<in> {CodeContinue, CodeStopCloseSend} \<and>
      pkt_synced resp' \<and> dest resp' = dest resp \<and> MetaGet KeyRef resp' = ref \<and>
      (utf8_valid ref \<longrightarrow> meta_utf8 (MetaMap resp')) \<and>
      pool_ok (pc s') \<and> \<not> streamsClosed s' \<and> sendStream s' = sendStream s \<and> writeStream s' = writeStream s \<and>
      rand s' = rand s \<and> post (Data p) (TargetFrom ctx) (view s) resp' (view s')"
begin

lemma run_target_handled:
  fixes s :: "'z ServerState_scheme"
  assumes "callbackQueues pp (MetaGet KeyTarget q) = Some [cb]" and "open_ok s" and "pkt_synced q"
    and "pre (Data q) (view s)"
  shows "\<exists>resp s'. run_target pp q sender s = Inr s' \<and> open_ok s' \<and> sendStream s' = sendStream s @ [Close resp] \<and>
    writeStream s' = writeStream s \<and> rand s' = rand s \<and> pkt_synced resp \<and> Dest resp = sender \<and>
    MetaGet KeyRef resp = MetaGet KeyRef q \<and> (utf8_valid (MetaGet KeyRef q) \<longrightarrow> meta_utf8 (MetaMap resp)) \<and>
    post (Data q) sender (view s) resp (view s')"
proof -
  let ?ref = "MetaGet KeyRef q"
  let ?ctx = "\<lparr>Pkt = Some q, Stat = 0, Msg = '''', TargetName = MetaGet KeyTarget q, TargetFrom = sender\<rparr>"
  obtain r0 pc1 where r0: "NewPkt ?ref sender (pc s) = Inr (r0, pc1)" "pkt_synced r0" "pool_ok pc1"
    "MetaMap r0 = [(KeyRef, ?ref)]" "Data r0 = []" "Dest r0 = sender"
    using NewPkt_synced [of "pc s" ?ref sender] assms(2) by blast
  obtain stat resp s' where h: "cb ?ctx r0 (s\<lparr>pc := pc1\<rparr>) = Inr (?ctx\<lparr>Stat := stat\<rparr>, resp, s')"
    "stat \<in> {CodeContinue, CodeStopCloseSend}" "pkt_synced resp" "dest resp = dest r0" "MetaGet KeyRef resp = ?ref"
    "utf8_valid ?ref \<longrightarrow> meta_utf8 (MetaMap resp)" "pool_ok (pc s')" "\<not> streamsClosed s'"
    "sendStream s' = sendStream s" "writeStream s' = writeStream s" "rand s' = rand s"
    "post (Data q) sender (view s) resp (view s')"
    using handles [of ?ctx q r0 ?ref "s\<lparr>pc := pc1\<rparr>"] r0(2-5) assms(2,4) by auto
  have "ProcessPacket pp ?ctx r0 (s\<lparr>pc := pc1\<rparr>) = Inr (None, ?ctx\<lparr>Stat := stat\<rparr>, resp, s')"
    using assms(1) h(1,2) by (auto simp: ProcessPacket_def code_defs)
  moreover have "respond (?ctx\<lparr>Stat := stat\<rparr>) resp s' = Inr (s'\<lparr>sendStream := sendStream s @ [Close resp]\<rparr>)"
    using h(2,8,9) by (auto simp: respond_def code_defs svr_send_def)
  ultimately have "run_target pp q sender s =
      Inr (svr_PutBack q (s'\<lparr>sendStream := sendStream s @ [Close resp]\<rparr>))"
    using r0(1) by (simp add: run_target_def Let_def)
  then show ?thesis
    using h(3-12) r0(6) assms(3)
    by (intro exI [of _ resp] exI [of _ "svr_PutBack q (s'\<lparr>sendStream := sendStream s @ [Close resp]\<rparr>)"])
      (simp add: svr_PutBack_def Dest_def)
qed

text \<open>A datagram that the incoming stages turn into a marshalled request is answered.\<close>

lemma processIncoming_handled:
  fixes s :: "'z ServerState_scheme"
  assumes "ProcessData (dataP (procs svr)) (in_ctx sender) wb s = Inr (None, in_ctx sender, b, s)"
    and "open_ok s" and "pkt_synced p" and "meta_utf8 (MetaMap p)" and "Marshal (Close p) = Some b"
    and "callbackQueues (packetP (procs svr)) (MetaGet KeyTarget p) = Some [cb]" and "pre (Data p) (view s)"
  shows "\<exists>resp s'. UDPServer_processIncoming svr wb sender s = Inr s' \<and> open_ok s' \<and>
    sendStream s' = sendStream s @ [Close resp] \<and>
    writeStream s' = writeStream s \<and> rand s' = rand s \<and> pkt_synced resp \<and> Dest resp = sender \<and>
    MetaGet KeyRef resp = MetaGet KeyRef p \<and> (utf8_valid (MetaGet KeyRef p) \<longrightarrow> meta_utf8 (MetaMap resp)) \<and>
    post (Data p) sender (view s) resp (view s')"
proof -
  obtain pkt pc' where new: "NewPkt '''' '''' (pc s) = Inr (pkt, pc')" "pool_ok pc'"
    using NewPkt_synced [of "pc s" "''''" "''''"] assms(2) by blast
  obtain q where q: "Unmarshal b pkt = (q, None)" "pkt_synced q" "Data q = Data p" "\<forall>k. MetaGet k q = MetaGet k p"
    using wire_decode [OF assms(3,4) _ new(1)] assms(2,5) by auto
  have "UDPServer_processIncoming svr wb sender s = run_target (packetP (procs svr)) q sender (s\<lparr>pc := pc'\<rparr>)"
    using assms(1) new(1) q(1) by (simp add: UDPServer_processIncoming_def in_ctx_def code_defs)
  then show ?thesis
    using run_target_handled [of "packetP (procs svr)" q "s\<lparr>pc := pc'\<rparr>" sender] q(2-4) assms(2,6,7) new(2)
    by simp
qed

end


text \<open>The callbacks of the key exchange meet the contract.\<close>

definition kex_pre :: "bytes \<Rightarrow> Crypto \<Rightarrow> bool" where
  "kex_pre d cr \<longleftrightarrow> (\<exists>pk x. unmarshalPublicKey d = Some pk \<and> computeSharedKey cr pk = Inr x)"

definition kex_post :: "bytes \<Rightarrow> string \<Rightarrow> Crypto \<Rightarrow> JSONPkt \<Rightarrow> Crypto \<Rightarrow> bool" where
  "kex_post d from' cr resp cr' \<longleftrightarrow>
     (\<exists>pk x. unmarshalPublicKey d = Some pk \<and> computeSharedKey cr pk = Inr x \<and>
        cr' = setKeyStore from' \<lparr>keySent = False, shared = x, public = pk\<rparr> cr) \<and>
     Data resp = publicKey cr \<and> MetaGet KeyNoCrypto resp = ''true''"

definition ckex_pre :: "bytes \<Rightarrow> Crypto \<Rightarrow> bool" where
  "ckex_pre d cr \<longleftrightarrow> (\<exists>ip k. unmarshalIP d = Some ip \<and> keys cr ip = Some k)"

definition ckex_post :: "bytes \<Rightarrow> string \<Rightarrow> Crypto \<Rightarrow> JSONPkt \<Rightarrow> Crypto \<Rightarrow> bool" where
  "ckex_post d from' cr resp cr' \<longleftrightarrow>
     (\<exists>ip k. unmarshalIP d = Some ip \<and> keys cr ip = Some k \<and> Data resp = marshalPublicKey (public k)) \<and>
     cr' = cr \<and> MetaMap resp = [(KeyNoCrypto, ''true''), (KeyRef, MetaGet KeyRef resp)]"

lemma exempt_response:
  assumes "pkt_synced resp" and "MetaMap resp = [(KeyRef, ref)]" and "Data resp = []"
  shows "\<exists>r1. MetaAdd KeyNoCrypto ''true'' resp = Inr r1 \<and> pkt_synced (Write d r1) \<and> dest (Write d r1) = dest resp \<and>
    MetaGet KeyRef (Write d r1) = ref \<and> (utf8_valid ref \<longrightarrow> meta_utf8 (MetaMap (Write d r1))) \<and>
    Data (Write d r1) = d \<and> MetaGet KeyNoCrypto (Write d r1) = ''true'' \<and>
    MetaMap (Write d r1) = [(KeyNoCrypto, ''true''), (KeyRef, ref)]"
proof -
  obtain r1 where r1: "MetaAdd KeyNoCrypto ''true'' resp = Inr r1" "pkt_synced r1" "dest r1 = dest resp"
    "MetaMap r1 = gm_put KeyNoCrypto ''true'' [(KeyRef, ref)]" "buff r1 = []"
    using MetaAdd_synced [OF assms(1), of KeyNoCrypto "''true''"] assms(2,3) by (auto simp: Data_def)
  then show ?thesis
    by (intro exI [of _ r1])
      (simp add: Write_def Data_def MetaGet_MetaMap gm_str_def key_defs KeyNoCrypto_def meta_utf8_def
        utf8_valid_def to_valid_ascii)
qed

interpretation kex: target_handler crypto keyExchangeServer kex_pre kex_post
proof unfold_locales
  fix ctx :: TargetCtx and p resp ref and s :: "'z ServerState_scheme"
  assume ctx: "Pkt ctx = Some p" and resp: "pkt_synced resp" "MetaMap resp = [(KeyRef, ref)]" "Data resp = []"
    and s: "pool_ok (pc s) \<and> \<not> streamsClosed s" and "kex_pre (Data p) (crypto s)"
  then obtain pk x where pk: "unmarshalPublicKey (Data p) = Some pk" "computeSharedKey (crypto s) pk = Inr x"
    by (auto simp: kex_pre_def)
  obtain r1 where r1: "MetaAdd KeyNoCrypto ''true'' resp = Inr r1" "pkt_synced (Write (publicKey (crypto s)) r1)"
    "dest (Write (publicKey (crypto s)) r1) = dest resp" "MetaGet KeyRef (Write (publicKey (crypto s)) r1) = ref"
    "utf8_valid ref \<longrightarrow> meta_utf8 (MetaMap (Write (publicKey (crypto s)) r1))"
    "Data (Write (publicKey (crypto s)) r1) = publicKey (crypto s)"
    "MetaGet KeyNoCrypto (Write (publicKey (crypto s)) r1) = ''true''"
    using exempt_response [OF resp] by blast
  let ?s' = "s\<lparr>crypto := setKeyStore (TargetFrom ctx) \<lparr>keySent = False, shared = x, public = pk\<rparr> (crypto s)\<rparr>"
  have "keyExchangeServer ctx resp s =
      Inr (ctx\<lparr>Stat := CodeStopCloseSend\<rparr>, Write (publicKey (crypto s)) r1, ?s')"
    using ctx pk r1(1) by (simp add: keyExchangeServer_def Let_def setKeyStore_def)
  moreover have "kex_post (Data p) (TargetFrom ctx) (crypto s) (Write (publicKey (crypto s)) r1) (crypto ?s')"
    using pk r1(6,7) by (simp add: kex_post_def)
  ultimately show "\<exists>stat resp' s'. keyExchangeServer ctx resp s = Inr (ctx\<lparr>Stat := stat\<rparr>, resp', s') \<and>
      stat \<in> {CodeContinue, CodeStopCloseSend} \<and> pkt_synced resp' \<and> dest resp' = dest resp \<and> MetaGet KeyRef resp' = ref \<and>
      (utf8_valid ref \<longrightarrow> meta_utf8 (MetaMap resp')) \<and>
      pool_ok (pc s') \<and> \<not> streamsClosed s' \<and> sendStream s' = sendStream s \<and> writeStream s' = writeStream s \<and>
      rand s' = rand s \<and> kex_post (Data p) (TargetFrom ctx) (crypto s) resp' (crypto s')"
    using r1(2-5) s
    by (intro exI [of _ CodeStopCloseSend] exI [of _ "Write (publicKey (crypto s)) r1"] exI [of _ ?s']) simp
qed simp_all

interpretation ckex: target_handler crypto keyExchangeClient ckex_pre ckex_post
proof unfold_locales
  fix ctx :: TargetCtx and p resp ref and s :: "'z ServerState_scheme"
  assume ctx: "Pkt ctx = Some p" "Stat ctx = 0" and resp: "pkt_synced resp" "MetaMap resp = [(KeyRef, ref)]" "Data resp = []"
    and s: "pool_ok (pc s) \<and> \<not> streamsClosed s" and "ckex_pre (Data p) (crypto s)"
  then obtain ip k where ip: "unmarshalIP (Data p) = Some ip" "keys (crypto s) ip = Some k"
    by (auto simp: ckex_pre_def)
  let ?d = "marshalPublicKey (public k)"
  obtain r1 where r1: "MetaAdd KeyNoCrypto ''true'' resp = Inr r1" "pkt_synced (Write ?d r1)"
    "dest (Write ?d r1) = dest resp" "MetaGet KeyRef (Write ?d r1) = ref"
    "utf8_valid ref \<longrightarrow> meta_utf8 (MetaMap (Write ?d r1))" "Data (Write ?d r1) = ?d"
    "MetaMap (Write ?d r1) = [(KeyNoCrypto, ''true''), (KeyRef, ref)]"
    using exempt_response [OF resp] by blast
  have "keyExchangeClient ctx resp s = Inr (ctx\<lparr>Stat := CodeContinue\<rparr>, Write ?d r1, s)"
    using ctx ip r1(1) by (cases ctx) (simp add: keyExchangeClient_def getKeyStore_def code_defs)
  moreover have "ckex_post (Data p) (TargetFrom ctx) (crypto s) (Write ?d r1) (crypto s)"
    using ip r1(4,6,7) by (simp add: ckex_post_def)
  ultimately show "\<exists>stat resp' s'. keyExchangeClient ctx resp s = Inr (ctx\<lparr>Stat := stat\<rparr>, resp', s') \<and>
      stat \<in> {CodeContinue, CodeStopCloseSend} \<and> pkt_synced resp' \<and> dest resp' = dest resp \<and> MetaGet KeyRef resp' = ref \<and>
      (utf8_valid ref \<longrightarrow> meta_utf8 (MetaMap resp')) \<and>
      pool_ok (pc s') \<and> \<not> streamsClosed s' \<and> sendStream s' = sendStream s \<and> writeStream s' = writeStream s \<and>
      rand s' = rand s \<and> ckex_post (Data p) (TargetFrom ctx) (crypto s) resp' (crypto s')"
    using r1(2-5) s
    by (intro exI [of _ CodeContinue] exI [of _ "Write ?d r1"] exI [of _ s]) simp
qed simp_all

section \<open>A request and its response\<close>

lemma processOutgoing_leaves:
  fixes s :: "'z ServerState_scheme"
  assumes "ProcessData (dataP (procs svr)) (out_ctx p) b s = Inr (None, out_ctx p, wb, s')" and "\<not> streamsClosed s'"
    and "resolve (Dest p) = Some a" and "Marshal p = Some b"
  shows "UDPServer_processOutgoing svr resolve p s =
    Inr (svr_PutBack p (s'\<lparr>writeStream := writeStream s' @ [\<lparr>wpData = wb, wpAddr = a\<rparr>]\<rparr>))"
  using assms by (simp add: UDPServer_processOutgoing_def svr_dist_def code_defs out_ctx_def)

text \<open>
  The client's state together with the server at the other end. \<open>ask\<close> is a call of \<open>Send\<close> with a
  fresh response channel and a receive from that channel, when nobody else uses the server: the
  datagram is processed, the goroutine for the packet it queued runs, what it writes is sent, and if
  that is addressed to the client it is delivered there.
\<close>

record 'w Net = ClientState +
  remote :: 'w

definition respChan :: "string \<Rightarrow> string \<rightharpoonup> requestCtx" where
  "respChan ref = [ref \<mapsto> \<lparr>reqCh = Some 0, reqMsg = '''', reqStatus = requestStatusWaiting\<rparr>]"

definition ask ::
  "'z ServerState_scheme UDPServer \<Rightarrow> (string \<Rightarrow> string option) \<Rightarrow> string \<Rightarrow>
     'z ServerState_scheme Net UDPClient \<Rightarrow> 'z ServerState_scheme Net asking" where
  "ask svr resolve me c pkt n =
     gbind (Send_prepare c pkt (Some 0) n) (\<lambda>(r, pkt', n1).
       case r of
         Inl e \<Rightarrow> Inr (None, n1)
       | Inr (wp, ref) \<Rightarrow>
           gbind (UDPServer_processIncoming svr (cpData wp) me (remote n1)) (\<lambda>s1.
             case sendStream s1 of
               [] \<Rightarrow> Inr (None, n1\<lparr>remote := s1\<rparr>)
             | q # qs \<Rightarrow>
                 gbind (UDPServer_processOutgoing svr resolve q (s1\<lparr>sendStream := qs\<rparr>)) (\<lambda>s2.
                   case writeStream s2 of
                     [] \<Rightarrow> Inr (None, n1\<lparr>remote := s2\<rparr>)
                   | w # ws \<Rightarrow>
                       let n2 = n1\<lparr>remote := s2\<lparr>writeStream := ws\<rparr>\<rparr> in
                       if wpAddr w \<noteq> me then Inr (None, n2)
                       else gbind (UDPClient_processIncoming c (respChan ref) (wpData w) n2) (\<lambda>(d, n3).
                         case d of
                           Some (Some ch, p, ref') \<Rightarrow> Inr (Some p, n3)
                         | _ \<Rightarrow> Inr (None, n3)))))"


lemma Net_frame [simp]:
  fixes n :: "'w Net"
  shows "remote (n\<lparr>rused := i\<rparr>) = remote n" "remote (n\<lparr>rand := r\<rparr>) = remote n" "remote (n\<lparr>cpc := p\<rparr>) = remote n"
    "remote (n\<lparr>crypto := cr\<rparr>) = remote n" "remote (n\<lparr>remote := s\<rparr>) = s"
    "crypto (n\<lparr>rused := i\<rparr>) = crypto n" "crypto (n\<lparr>rand := r\<rparr>) = crypto n" "crypto (n\<lparr>cpc := p\<rparr>) = crypto n"
    "crypto (n\<lparr>crypto := cr\<rparr>) = cr" "crypto (n\<lparr>remote := s\<rparr>) = crypto n"
    "cpc (n\<lparr>rused := i\<rparr>) = cpc n" "cpc (n\<lparr>rand := r\<rparr>) = cpc n" "cpc (n\<lparr>cpc := p\<rparr>) = p"
    "cpc (n\<lparr>crypto := cr\<rparr>) = cpc n" "cpc (n\<lparr>remote := s\<rparr>) = cpc n"
    "rand (n\<lparr>rused := i\<rparr>) = rand n" "rand (n\<lparr>rand := r\<rparr>) = r" "rand (n\<lparr>cpc := p\<rparr>) = rand n"
    "rand (n\<lparr>crypto := cr\<rparr>) = rand n" "rand (n\<lparr>remote := s\<rparr>) = rand n"
    "rints (n\<lparr>rused := i\<rparr>) = rints n" "rints (n\<lparr>rand := r\<rparr>) = rints n" "rints (n\<lparr>cpc := p\<rparr>) = rints n"
    "rints (n\<lparr>crypto := cr\<rparr>) = rints n" "rints (n\<lparr>remote := s\<rparr>) = rints n"
  by simp_all

lemma letters_utf8: "set r \<subseteq> set letters \<Longrightarrow> utf8_valid r"
proof -
  have "list_all (\<lambda>c. (of_char c :: nat) < 0x80) letters"
    by (simp add: letters_def)
  then show "set r \<subseteq> set letters \<Longrightarrow> utf8_valid r"
    unfolding utf8_valid_def by (intro to_valid_ascii) (auto simp: list_all_iff)
qed

lemma meta_utf8_put: "utf8_valid k \<Longrightarrow> utf8_valid v \<Longrightarrow> meta_utf8 m \<Longrightarrow> meta_utf8 (gm_put k v m)"
  by (induction m) (auto simp: meta_utf8_def)

lemma key_utf8 [simp]: "utf8_valid KeyRef" "utf8_valid KeyTarget" "utf8_valid KeyRelayFrom" "utf8_valid KeyRelayTo"
  by (simp_all add: utf8_valid_def key_defs relay_keys to_valid_ascii)

lemma MetaGet_utf8: "meta_utf8 (MetaMap p) \<Longrightarrow> utf8_valid (MetaGet k p)"
proof -
  have "utf8_valid ''''"
    by (simp add: utf8_valid_def to_valid.simps)
  then show "meta_utf8 (MetaMap p) \<Longrightarrow> utf8_valid (MetaGet k p)"
    by (auto simp: MetaGet_MetaMap gm_str_def meta_utf8_def list_all_iff split: option.split dest: map_of_SomeD)
qed

text \<open>A closed packet that \<open>Send\<close> is given leaves as the marshalled form of the same packet with a
  reference.\<close>

lemma request_sent:
  assumes "pkt_synced p" and "meta_utf8 (MetaMap p)"
  shows "\<exists>q n b. Marshal (Close q) = Some b \<and> Close q = q \<and> pkt_synced q \<and> Data q = Data p \<and> dest q = dest p \<and>
    meta_utf8 (MetaMap q) \<and> (\<forall>k. k \<noteq> KeyRef \<longrightarrow> MetaGet k q = MetaGet k p) \<and>
    length b \<le> pkt_weight (Close p) + 60 \<and>
    (if MetaGet KeyRef p = '''' then length (MetaGet KeyRef q) = 5 else MetaGet KeyRef q = MetaGet KeyRef p) \<and>
    (MetaGet KeyRef p = '''' \<longrightarrow> MetaGet KeyRef q = fst (genRef 5 w)) \<and>
    (\<forall>wb w'. ProcessData (dataP (cprocs c)) (out_ctx q) b (w\<lparr>rused := n\<rparr>) = Inr (None, out_ctx q, wb, w') \<longrightarrow>
      Send_prepare c (Close p) ch w = Inr (Inr (\<lparr>cpData = wb, cpCh = ch\<rparr>, MetaGet KeyRef q), q, w'))"
proof -
  let ?p = "Close p"
  have synced: "pkt_synced ?p" and same: "MetaMap ?p = MetaMap p" "MetaGet KeyRef ?p = MetaGet KeyRef p"
    using assms(1) by (simp_all add: Close_def MetaGet_MetaMap)
  obtain q ref n b where q: "Marshal q = Some b" "pkt_synced q" "buff q = buff ?p" "jData q = jData ?p" "dest q = dest ?p"
    "MetaMap q = (if MetaGet KeyRef p = '''' then gm_put KeyRef ref (MetaMap p) else MetaMap p)"
    "MetaGet KeyRef q = ref"
    "if MetaGet KeyRef p = '''' then length ref = 5 \<and> set ref \<subseteq> set letters else ref = MetaGet KeyRef p"
    "MetaGet KeyRef p = '''' \<longrightarrow> ref = fst (genRef 5 w)"
    and send: "\<forall>wb w'. ProcessData (dataP (cprocs c)) (out_ctx q) b (w\<lparr>rused := n\<rparr>) = Inr (None, out_ctx q, wb, w') \<longrightarrow>
      Send_prepare c ?p ch w = Inr (Inr (\<lparr>cpData = wb, cpCh = ch\<rparr>, ref), q, w')"
    using Send_prepare_ok [OF synced, where c = c and w = w and ch = ch] unfolding same by blast
  have "Close q = q"
    using q(3,4) by (simp add: Close_def)
  moreover have "meta_utf8 (MetaMap q)"
    using assms(2) q(6,8) by (auto intro: meta_utf8_put letters_utf8 split: if_splits)
  moreover have "\<forall>k. k \<noteq> KeyRef \<longrightarrow> MetaGet k q = MetaGet k p"
    using q(6) MetaMap_ok [OF assms(1)] by (auto simp: MetaGet_MetaMap gm_simps)
  moreover have "length b \<le> pkt_weight ?p + 60"
    using Marshal_length [OF q(2,1)] map_weight_put [of KeyRef ref "MetaMap p"] q(4,6,8)
    by (auto simp: pkt_weight_def same key_defs split: if_splits)
  moreover have "if MetaGet KeyRef p = '''' then length (MetaGet KeyRef q) = 5 else MetaGet KeyRef q = MetaGet KeyRef p"
    using q(7,8) by (auto split: if_splits)
  ultimately show ?thesis
    using q(1,2,3,5,7,9) send by (intro exI [of _ q] exI [of _ n] exI [of _ b]) (simp add: Data_def Close_def)
qed

context target_handler
begin

text \<open>
  A request and its response, whatever the stages on the way: if those of the server undo those of
  the client on the request, and those of the client undo those of the server on every response the
  handler may give, the client receives the handler's response.
\<close>

lemma asked:
  fixes c :: "'z ServerState_scheme Net UDPClient" and n :: "'z ServerState_scheme Net"
  assumes p: "pkt_synced p" "meta_utf8 (MetaMap p)" and n: "pool_ok (cpc n)" "open_ok (remote n)"
    "sendStream (remote n) = []" "writeStream (remote n) = []"
    and cb: "callbackQueues (packetP (procs svr)) (MetaGet KeyTarget p) = Some [cb]" "pre (Data p) (view (remote n))"
    and me: "resolve me = Some me"
    and forth: "\<And>q b i. dest q = dest p \<Longrightarrow> MetaGet KeyNoCrypto q = MetaGet KeyNoCrypto p \<Longrightarrow>
      length b \<le> pkt_weight (Close p) + 60 \<Longrightarrow>
      \<exists>wb r'. ProcessData (dataP (cprocs c)) (out_ctx q) b (n\<lparr>rused := i\<rparr>) = Inr (None, out_ctx q, wb, n\<lparr>rused := i, rand := r'\<rparr>) \<and>
        (rand_ok (rand n) \<longrightarrow> rand_ok r') \<and>
        ProcessData (dataP (procs svr)) (in_ctx me) wb (remote n) = Inr (None, in_ctx me, b, remote n)"
    and home: "\<And>r b s. post (Data p) me (view (remote n)) r (view s) \<Longrightarrow> Dest r = me \<Longrightarrow>
      rand s = rand (remote n) \<Longrightarrow> length b \<le> pkt_weight (Close r) \<Longrightarrow>
      length (MetaGet KeyRef r) \<le> max 5 (length (MetaGet KeyRef p)) \<Longrightarrow>
      pkt_synced r \<Longrightarrow> Marshal (Close r) = Some b \<Longrightarrow> (MetaGet KeyRef p = '''' \<longrightarrow> MetaGet KeyRef r = fst (genRef 5 n)) \<Longrightarrow>
      \<exists>wb r'. ProcessData (dataP (procs svr)) (out_ctx (Close r)) b s = Inr (None, out_ctx (Close r), wb, s\<lparr>rand := r'\<rparr>) \<and>
        (\<forall>n'. crypto n' = crypto n \<longrightarrow>
          ProcessData (dataP (cprocs c)) (in_ctx (svrAddr c)) wb n' = Inr (None, in_ctx (svrAddr c), b, n'))"
  shows "\<exists>resp n' r. ask svr resolve me c (Close p) n = Inr (Some resp, n') \<and> crypto n' = crypto n \<and>
    pkt_synced resp \<and> post (Data p) me (view (remote n)) r (view (remote n')) \<and>
    Data resp = Data r \<and> (\<forall>k. MetaGet k resp = MetaGet k r) \<and>
    pool_ok (cpc n') \<and> open_ok (remote n') \<and> sendStream (remote n') = [] \<and> writeStream (remote n') = [] \<and>
    rints n' = rints n \<and> (rand_ok (rand n) \<longrightarrow> rand_ok (rand n'))"
proof -
  obtain q i b where q: "Marshal (Close q) = Some b" "Close q = q" "pkt_synced q" "Data q = Data p" "dest q = dest p"
    "meta_utf8 (MetaMap q)" "\<forall>k. k \<noteq> KeyRef \<longrightarrow> MetaGet k q = MetaGet k p" "length b \<le> pkt_weight (Close p) + 60"
    "if MetaGet KeyRef p = '''' then length (MetaGet KeyRef q) = 5 else MetaGet KeyRef q = MetaGet KeyRef p"
    "MetaGet KeyRef p = '''' \<longrightarrow> MetaGet KeyRef q = fst (genRef 5 n)"
    and send: "\<And>wb w'. ProcessData (dataP (cprocs c)) (out_ctx q) b (n\<lparr>rused := i\<rparr>) = Inr (None, out_ctx q, wb, w') \<Longrightarrow>
      Send_prepare c (Close p) (Some 0) n = Inr (Inr (\<lparr>cpData = wb, cpCh = Some 0\<rparr>, MetaGet KeyRef q), q, w')"
    using request_sent [OF p, where c = c and w = n and ch = "Some 0"] by blast
  have tgt: "MetaGet KeyTarget q = MetaGet KeyTarget p" "MetaGet KeyNoCrypto q = MetaGet KeyNoCrypto p"
    using q(7) by (simp_all add: key_defs KeyNoCrypto_def)
  obtain wb r' where out: "ProcessData (dataP (cprocs c)) (out_ctx q) b (n\<lparr>rused := i\<rparr>) =
      Inr (None, out_ctx q, wb, n\<lparr>rused := i, rand := r'\<rparr>)" "rand_ok (rand n) \<longrightarrow> rand_ok r'"
    and inn: "ProcessData (dataP (procs svr)) (in_ctx me) wb (remote n) = Inr (None, in_ctx me, b, remote n)"
    using forth [OF q(5) tgt(2) q(8)] by blast
  let ?n1 = "n\<lparr>rused := i, rand := r'\<rparr>"
  have "pre (Data q) (view (remote n))" "callbackQueues (packetP (procs svr)) (MetaGet KeyTarget q) = Some [cb]"
    using cb q(4) tgt(1) by simp_all
  then obtain r s1 where s1: "UDPServer_processIncoming svr wb me (remote n) = Inr s1" "open_ok s1"
    "sendStream s1 = [Close r]" "writeStream s1 = []" "rand s1 = rand (remote n)" "pkt_synced r" "Dest r = me"
    "MetaGet KeyRef r = MetaGet KeyRef q" "meta_utf8 (MetaMap r)" "post (Data p) me (view (remote n)) r (view s1)"
    using processIncoming_handled [OF inn n(2) q(3,6,1)] n(3,4) q(4) MetaGet_utf8 [OF q(6), of KeyRef] by auto
  obtain rb where rb: "Marshal (Close r) = Some rb" "length rb \<le> pkt_weight (Close r)"
    using Marshal_length [of "Close r"] s1(6) by (simp add: Marshal_def)
  let ?s1 = "s1\<lparr>sendStream := []\<rparr>"
  obtain wb' r'' where out': "ProcessData (dataP (procs svr)) (out_ctx (Close r)) rb ?s1 =
      Inr (None, out_ctx (Close r), wb', ?s1\<lparr>rand := r''\<rparr>)"
    and inn': "\<And>n'. crypto n' = crypto n \<Longrightarrow>
      ProcessData (dataP (cprocs c)) (in_ctx (svrAddr c)) wb' n' = Inr (None, in_ctx (svrAddr c), rb, n')"
    using home [of r ?s1 rb] s1(5,6,7,8,10) rb q(9,10) by (auto split: if_splits)
  let ?s2 = "?s1\<lparr>rand := r'', pc := PutBack (Close r) (pc s1), writeStream := []\<rparr>"
  have out2: "UDPServer_processOutgoing svr resolve (Close r) ?s1 = Inr (?s2\<lparr>writeStream := [\<lparr>wpData = wb', wpAddr = me\<rparr>]\<rparr>)"
    using processOutgoing_leaves [OF out' _ _ rb(1), of resolve me] s1(2,4,7) me
    by (simp add: svr_PutBack_def Dest_def Close_def)
  let ?n2 = "?n1\<lparr>remote := ?s2\<rparr>"
  have same: "crypto ?n2 = crypto n"
    by simp
  obtain d pc' where d: "UDPClient_processIncoming c (respChan (MetaGet KeyRef q)) wb' ?n2 =
      Inr (Some (Some 0, d, MetaGet KeyRef r), ?n2\<lparr>cpc := pc'\<rparr>)"
    "pool_ok pc'" "pkt_synced d" "Data d = Data r" "\<forall>k. MetaGet k d = MetaGet k r"
    using processIncoming_delivers [OF inn' [OF same] _ s1(6,9) rb(1), of "respChan (MetaGet KeyRef q)"] n(1) s1(8)
    by (auto simp: respChan_def)
  have "ask svr resolve me c (Close p) n = Inr (Some d, ?n2\<lparr>cpc := pc'\<rparr>)"
    using send [OF out(1)] s1(1,3) out2 d(1) by (simp add: ask_def svr_PutBack_def)
  then show ?thesis
    using d(2-5) s1(2,6,10) out(2)
    by (intro exI [of _ d] exI [of _ "?n2\<lparr>cpc := pc'\<rparr>"] exI [of _ r]) (simp add: svr_PutBack_def)
qed

text \<open>Both ends hold the key, and use it.\<close>

lemma secure_asked:
  fixes c :: "'z ServerState_scheme Net UDPClient" and n :: "'z ServerState_scheme Net"
  assumes p: "pkt_synced p" "meta_utf8 (MetaMap p)" and n: "pool_ok (cpc n)" "open_ok (remote n)"
    "sendStream (remote n) = []" "writeStream (remote n) = []"
    and cb: "callbackQueues (packetP (procs svr)) (MetaGet KeyTarget p) = Some [cb]" "pre (Data p) (view (remote n))"
    and me: "resolve me = Some me"
    and stages: "stages_of (pipelines (dataP (cprocs c))) ''_out_'' = [encryptTransport]"
    "stages_of (pipelines (dataP (cprocs c))) ''_in_'' = [decryptTransport]" "secured svr"
    and key: "dest p = svrAddr c" "keyed (svrAddr c) x (crypto n)" "keyed me x (crypto (remote n))" "aes_key_ok (big_Bytes x)"
    and rnd: "rand_ok (rand n)" "rand_ok (rand (remote n))"
    and small: "\<not> skips_crypto (MetaGet KeyNoCrypto p)" "pkt_weight (Close p) + 60 \<le> gcm_limit"
    and resp: "\<And>r s. post (Data p) me (view (remote n)) r (view s) \<Longrightarrow>
      length (MetaGet KeyRef r) \<le> max 5 (length (MetaGet KeyRef p)) \<Longrightarrow>
      crypto s = crypto (remote n) \<and> \<not> skips_crypto (MetaGet KeyNoCrypto r) \<and> pkt_weight (Close r) \<le> gcm_limit"
  shows "\<exists>resp n' r. ask svr resolve me c (Close p) n = Inr (Some resp, n') \<and> crypto n' = crypto n \<and>
    pkt_synced resp \<and> post (Data p) me (view (remote n)) r (view (remote n')) \<and>
    Data resp = Data r \<and> (\<forall>k. MetaGet k resp = MetaGet k r) \<and>
    pool_ok (cpc n') \<and> open_ok (remote n') \<and> sendStream (remote n') = [] \<and> writeStream (remote n') = [] \<and>
    rints n' = rints n \<and> (rand_ok (rand n) \<longrightarrow> rand_ok (rand n'))"
proof (rule asked [where resolve = resolve, OF p n cb me])
  obtain k k' where k: "keys (crypto n) (svrAddr c) = Some k" "shared k = x" "keys (crypto (remote n)) me = Some k'" "shared k' = x"
    using key(2,3) by (auto simp: keyed_def)
  fix q and b :: bytes and i
  assume q: "dest q = dest p" "MetaGet KeyNoCrypto q = MetaGet KeyNoCrypto p" "length b \<le> pkt_weight (Close p) + 60"
  have "\<exists>wb r'. ProcessData (dataP (cprocs c)) (out_ctx q) b (n\<lparr>rused := i\<rparr>) =
      Inr (None, out_ctx q, wb, (n\<lparr>rused := i\<rparr>)\<lparr>rand := r'\<rparr>) \<and> rand_ok r' \<and> decryptAES (big_Bytes x) wb = Inr (b, None)"
    using q key rnd(1) small by (intro encrypt_out [OF stages(1)]) (simp_all add: Dest_def)
  then show "\<exists>wb r'. ProcessData (dataP (cprocs c)) (out_ctx q) b (n\<lparr>rused := i\<rparr>) =
      Inr (None, out_ctx q, wb, n\<lparr>rused := i, rand := r'\<rparr>) \<and> (rand_ok (rand n) \<longrightarrow> rand_ok r') \<and>
    ProcessData (dataP (procs svr)) (in_ctx me) wb (remote n) = Inr (None, in_ctx me, b, remote n)"
    using decrypt_in [OF _ k(3)] stages(3) k(4) by (fastforce simp: secured_def)
next
  obtain k where k: "keys (crypto n) (svrAddr c) = Some k" "shared k = x"
    using key(2) by (auto simp: keyed_def)
  fix r and b :: bytes and s :: "'z ServerState_scheme"
  assume r: "post (Data p) me (view (remote n)) r (view s)" "Dest r = me" "rand s = rand (remote n)"
    "length b \<le> pkt_weight (Close r)" "length (MetaGet KeyRef r) \<le> max 5 (length (MetaGet KeyRef p))"
  have "Dest (Close r) = me" "MetaGet KeyNoCrypto (Close r) = MetaGet KeyNoCrypto r"
    using r(2) by (simp_all add: Close_def Dest_def MetaGet_MetaMap)
  then have "\<exists>wb r'. ProcessData (dataP (procs svr)) (out_ctx (Close r)) b s =
      Inr (None, out_ctx (Close r), wb, s\<lparr>rand := r'\<rparr>) \<and> rand_ok r' \<and> decryptAES (big_Bytes x) wb = Inr (b, None)"
    using resp [OF r(1,5)] r(3,4) key(3,4) rnd(2) stages(3) by (intro encrypt_out) (simp_all add: secured_def)
  then show "\<exists>wb r'. ProcessData (dataP (procs svr)) (out_ctx (Close r)) b s =
      Inr (None, out_ctx (Close r), wb, s\<lparr>rand := r'\<rparr>) \<and>
    (\<forall>n'. crypto n' = crypto n \<longrightarrow>
      ProcessData (dataP (cprocs c)) (in_ctx (svrAddr c)) wb n' = Inr (None, in_ctx (svrAddr c), b, n'))"
    using decrypt_in [OF stages(2), where a = "svrAddr c" and k = k] k by fastforce
qed

end

section \<open>Relaying\<close>

lemma processIncoming_relays:
  fixes s :: "'z ServerState_scheme"
  assumes "ProcessData (dataP (procs svr)) (in_ctx sender) wb s = Inr (None, in_ctx sender, b, s)"
    and "open_ok s" and "pkt_synced p" and "meta_utf8 (MetaMap p)" and "Marshal (Close p) = Some b"
    and "callbackQueues (packetP (procs svr)) TargetRelay = Some [relayCallback]" and "MetaGet KeyTarget p = TargetRelay"
  shows "\<exists>fwd pc'. UDPServer_processIncoming svr wb sender s = Inr (s\<lparr>pc := pc', sendStream := sendStream s @ [fwd]\<rparr>) \<and>
    pool_ok pc' \<and> pkt_synced fwd \<and> Close fwd = fwd \<and> Dest fwd = MetaGet KeyRelayTo p \<and> Data fwd = Data p \<and>
    MetaMap fwd = [(KeyRef, MetaGet KeyRef p), (KeyRelayFrom, sender)]"
proof -
  obtain pkt pc1 where new: "NewPkt '''' '''' (pc s) = Inr (pkt, pc1)" "pool_ok pc1"
    using NewPkt_synced [of "pc s" "''''" "''''"] assms(2) by blast
  obtain q where q: "Unmarshal b pkt = (q, None)" "pkt_synced q" "Data q = Data p" "\<forall>k. MetaGet k q = MetaGet k p"
    using wire_decode [OF assms(3,4) _ new(1)] assms(2,5) by auto
  have "UDPServer_processIncoming svr wb sender s = run_target (packetP (procs svr)) q sender (s\<lparr>pc := pc1\<rparr>)"
    using assms(1) new(1) q(1) by (simp add: UDPServer_processIncoming_def in_ctx_def code_defs)
  moreover obtain fwd pc' where "run_target (packetP (procs svr)) q sender (s\<lparr>pc := pc1\<rparr>) =
      Inr (s\<lparr>pc := pc', sendStream := sendStream s @ [fwd]\<rparr>)" "pool_ok pc'" "pkt_synced fwd"
    "Dest fwd = MetaGet KeyRelayTo p" "Data fwd = Data p" "jData fwd = b64_encode (Data p)"
    "MetaMap fwd = [(KeyRef, MetaGet KeyRef p), (KeyRelayFrom, sender)]"
    using run_target_relay [OF assms(6), of "s\<lparr>pc := pc1\<rparr>" q sender] q(2-4) new(2) assms(2,7) by auto
  ultimately show ?thesis
    by (intro exI [of _ fwd] exI [of _ pc']) (simp add: Close_def Data_def)
qed

lemma encryptAES_length: "encryptAES key b r = Inr (c, None, r') \<Longrightarrow> length c = length b + 28"
  using length_keystream [of "length b"] ReadFull_length [of 12 r]
  by (auto simp: encryptAES_def gcm_seal_def Let_def min_def go_simps split: if_splits sum.splits prod.splits)

text \<open>The size of a closed packet, by its metadata and data.\<close>

lemma pkt_weight_Close: "pkt_weight (Close p) \<le> 6 * (map_weight (MetaMap p) + 2 * length (Data p) + 4) + 20"
  using b64_encode_length [of "Data p"] by (simp add: pkt_weight_def Close_def Data_def)


section \<open>The key exchange over the network\<close>

lemma Net_rand_same:
  fixes n :: "'w Net"
  shows "n\<lparr>rused := i, rand := rand n\<rparr> = n\<lparr>rused := i\<rparr>"
  by simp

text \<open>A client without extensions asks a secured server that does not know it yet.\<close>

lemma kex_asked:
  fixes n :: "'z ServerState_scheme Net" and svr :: "'z ServerState_scheme UDPServer"
  assumes c: "plain_client c" and svr: "secured svr" "keys (crypto (remote n)) me = None"
    "callbackQueues (packetP (procs svr)) TargetKeyExchangeServer = Some [keyExchangeServer]"
    and n: "pool_ok (cpc n)" "open_ok (remote n)" "sendStream (remote n) = []" "writeStream (remote n) = []"
    and req: "pkt_synced req" "meta_utf8 (MetaMap req)" "MetaGet KeyTarget req = TargetKeyExchangeServer"
    and pre: "kex_pre (Data req) (crypto (remote n))" and me: "resolve me = Some me"
  shows "\<exists>resp n' r. ask svr resolve me c (Close req) n = Inr (Some resp, n') \<and> crypto n' = crypto n \<and>
    pkt_synced resp \<and> kex_post (Data req) me (crypto (remote n)) r (crypto (remote n')) \<and>
    Data resp = Data r \<and> (\<forall>k. MetaGet k resp = MetaGet k r) \<and>
    pool_ok (cpc n') \<and> open_ok (remote n') \<and> sendStream (remote n') = [] \<and> writeStream (remote n') = [] \<and>
    rints n' = rints n \<and> (rand_ok (rand n) \<longrightarrow> rand_ok (rand n'))"
proof (rule kex.asked [where resolve = resolve, OF req(1,2) n _ pre me])
  show "callbackQueues (packetP (procs svr)) (MetaGet KeyTarget req) = Some [keyExchangeServer]"
    using svr(3) req(3) by simp
  have plain: "ProcessData (dataP (cprocs c)) ctx w n1 = Inr (None, ctx, w, n1)" for ctx w n1
    using c by (simp add: plain_client_def)
  show "\<exists>wb r'. ProcessData (dataP (cprocs c)) (out_ctx q) w (n\<lparr>rused := i\<rparr>) =
      Inr (None, out_ctx q, wb, n\<lparr>rused := i, rand := r'\<rparr>) \<and> (rand_ok (rand n) \<longrightarrow> rand_ok r') \<and>
    ProcessData (dataP (procs svr)) (in_ctx me) wb (remote n) = Inr (None, in_ctx me, w, remote n)" for q w i
    using svr(1,2) by (intro exI [of _ w] exI [of _ "rand n"])
      (simp add: plain Net_rand_same decrypt_in_no_key secured_def)
  show "\<exists>wb r'. ProcessData (dataP (procs svr)) (out_ctx (Close r)) w s =
      Inr (None, out_ctx (Close r), wb, s\<lparr>rand := r'\<rparr>) \<and>
    (\<forall>n'. crypto n' = crypto n \<longrightarrow>
      ProcessData (dataP (cprocs c)) (in_ctx (svrAddr c)) wb n' = Inr (None, in_ctx (svrAddr c), w, n'))"
    if "kex_post (Data req) me (crypto (remote n)) r (crypto s)" for r w and s :: "'z ServerState_scheme"
    using that svr(1)
    by (intro exI [of _ w] exI [of _ "rand s"])
      (simp add: plain exempt_out kex_post_def secured_def MetaGet_MetaMap Close_def)
qed

text \<open>Both sides end up with the same secret and each other's public key.\<close>

lemma ServerKEx_over_network:
  fixes n :: "'z ServerState_scheme Net" and svr :: "'z ServerState_scheme UDPServer"
  assumes "ecdh_agree a b" and "holds_key a (crypto n)" and "holds_key b (crypto (remote n))"
    and c: "plain_client c" and svr: "secured svr" "keys (crypto (remote n)) me = None"
    "callbackQueues (packetP (procs svr)) TargetKeyExchangeServer = Some [keyExchangeServer]"
    and n: "pool_ok (cpc n)" "open_ok (remote n)" "sendStream (remote n) = []" "writeStream (remote n) = []"
    and pkt: "pkt_synced pkt" "meta_utf8 (MetaMap pkt)" and me: "resolve me = Some me"
  shows "\<exists>n' x. ServerKEx (ask svr resolve me c) saddr pkt n = Inr (Some (Inr ()), n') \<and>
    keys (crypto n') saddr = Some \<lparr>keySent = True, shared = x, public = pub_of b\<rparr> \<and>
    keys (crypto (remote n')) me = Some \<lparr>keySent = False, shared = x, public = pub_of a\<rparr> \<and>
    holds_key a (crypto n') \<and> holds_key b (crypto (remote n')) \<and>
    (\<forall>e. e \<noteq> saddr \<longrightarrow> keys (crypto n') e = keys (crypto n) e) \<and>
    (\<forall>e. e \<noteq> me \<longrightarrow> keys (crypto (remote n')) e = keys (crypto (remote n)) e) \<and>
    computeSharedKey (crypto n) (pub_of b) = Inr x \<and>
    pool_ok (cpc n') \<and> open_ok (remote n') \<and> sendStream (remote n') = [] \<and> writeStream (remote n') = [] \<and>
    rints n' = rints n \<and> (rand_ok (rand n) \<longrightarrow> rand_ok (rand n'))"
proof -
  obtain x where x: "computeSharedKey (crypto n) (pub_of b) = Inr x" "computeSharedKey (crypto (remote n)) (pub_of a) = Inr x"
    using agree_shared [OF assms(1)] assms(2,3) by blast
  have pub: "publicKey (crypto n) = marshalPublicKey (pub_of a)" "publicKey (crypto (remote n)) = marshalPublicKey (pub_of b)"
    using assms(2,3) by (simp_all add: holds_key_def)
  obtain req where req: "ConfigureKeyExServerPkt (crypto n) pkt = Inr (Close req)" "pkt_synced req"
    "Data req = marshalPublicKey (pub_of a)" "MetaMap req = gm_put KeyTarget TargetKeyExchangeServer (MetaMap pkt)"
    using ConfigureKeyExServerPkt_ok [OF pkt(1), of "crypto n"] pub(1) by auto
  have utf: "utf8_valid TargetKeyExchangeServer"
    by (simp add: utf8_valid_def TargetKeyExchangeServer_def to_valid_ascii)
  have tgt: "meta_utf8 (MetaMap req)" "MetaGet KeyTarget req = TargetKeyExchangeServer"
    using MetaMap_ok [OF pkt(1)] meta_utf8_put [OF _ utf pkt(2)] by (simp_all add: MetaGet_MetaMap req(4) gm_simps)
  have pre: "kex_pre (Data req) (crypto (remote n))"
    using x(2) by (simp add: kex_pre_def req(3) unmarshal_marshal_PublicKey)
  obtain resp n1 r where ok: "ask svr resolve me c (Close req) n = Inr (Some resp, n1)" "crypto n1 = crypto n"
    "kex_post (Data req) me (crypto (remote n)) r (crypto (remote n1))" "Data resp = Data r"
    "pool_ok (cpc n1)" "open_ok (remote n1)" "sendStream (remote n1) = []" "writeStream (remote n1) = []"
    "rints n1 = rints n" "rand_ok (rand n) \<longrightarrow> rand_ok (rand n1)"
    using kex_asked [where resolve = resolve, OF c svr n req(2) tgt pre me] by blast
  have cr: "crypto (remote n1) = setKeyStore me \<lparr>keySent = False, shared = x, public = pub_of a\<rparr> (crypto (remote n))"
    "Data resp = marshalPublicKey (pub_of b)"
    using ok(3,4) x(2) pub(2) by (auto simp: kex_post_def req(3) unmarshal_marshal_PublicKey)
  have "ServerKEx (ask svr resolve me c) saddr pkt n = Inr (Some (Inr ()), n1\<lparr>crypto := setKeyStore saddr
      \<lparr>keySent = True, shared = x, public = pub_of b\<rparr> (crypto n1)\<rparr>)"
    using await_key_ok [where ask = "ask svr resolve me c", OF ok(1) cr(2), of x saddr] x(1) ok(2) req(1)
    by (simp add: ServerKEx_def)
  then show ?thesis
    using ok(2,5-10) cr(1) x(1) assms(2,3) by (simp add: setKeyStore_def holds_key_def)
qed

section \<open>Asking for the key of another client\<close>

text \<open>
  The server's answer to such a request is exempt from encryption, and a client that has a key with the
  server tries to decrypt it all the same; it keeps the bytes if that fails. \<open>kex_answer\<close> is the answer
  on the wire, and \<open>rejects\<close> says that GCM does not take the bytes for a ciphertext.
\<close>

definition kex_answer :: "string \<Rightarrow> PublicKey \<Rightarrow> bytes" where
  "kex_answer ref pk =
     CHR ''{'' # json_quote ''m'' @ CHR '':'' # json_string_map [(KeyNoCrypto, ''true''), (KeyRef, ref)] @
     CHR '','' # json_quote ''d'' @ CHR '':'' # json_quote (b64_encode (marshalPublicKey pk)) @ ''}''"

definition rejects :: "int \<Rightarrow> bytes \<Rightarrow> bool" where
  "rejects x b \<longleftrightarrow> (\<exists>e. decryptAES (big_Bytes x) b = Inr (b, Some e))"

lemma Marshal_kex_answer:
  assumes "pkt_synced r" and "MetaMap r = [(KeyNoCrypto, ''true''), (KeyRef, ref)]" and "Data r = marshalPublicKey pk"
  shows "Marshal (Close r) = Some (kex_answer ref pk)"
  using assms by (auto simp: Marshal_def Close_def kex_answer_def pkt_synced_def MetaMap_def Data_def)

lemma rejected_in:
  fixes s :: "'z CryptoState_scheme"
  assumes "stages_of (pipelines d) ''_in_'' = [decryptTransport]" and "keys (crypto s) a = Some k" and "rejects (shared k) wb"
  shows "ProcessData d (in_ctx a) wb s = Inr (None, in_ctx a, wb, s)"
  using assms by (intro ProcessData_one [where f = decryptTransport])
    (auto simp: decryptTransport_def getKeyStore_def rejects_def)

lemma ckex_asked:
  fixes n :: "'z ServerState_scheme Net" and svr :: "'z ServerState_scheme UDPServer"
  assumes stages: "stages_of (pipelines (dataP (cprocs c))) ''_out_'' = [encryptTransport]"
    "stages_of (pipelines (dataP (cprocs c))) ''_in_'' = [decryptTransport]"
    and svr: "secured svr" "callbackQueues (packetP (procs svr)) TargetKeyExchangeClient = Some [keyExchangeClient]"
    and key: "keyed (svrAddr c) x (crypto n)" "keys (crypto (remote n)) me = Some k" "shared k = x" "aes_key_ok (big_Bytes x)"
    and n: "pool_ok (cpc n)" "open_ok (remote n)" "sendStream (remote n) = []" "writeStream (remote n) = []" "rand_ok (rand n)"
    and req: "pkt_synced req" "meta_utf8 (MetaMap req)" "MetaGet KeyTarget req = TargetKeyExchangeClient"
    "MetaGet KeyNoCrypto req = ''''" "MetaGet KeyRef req = ''''" "dest req = svrAddr c" "pkt_weight (Close req) + 60 \<le> gcm_limit"
    and other: "unmarshalIP (Data req) = Some other" "keys (crypto (remote n)) other = Some ko"
    and rej: "rejects x (kex_answer (fst (genRef 5 n)) (public ko))" and me: "resolve me = Some me"
  shows "\<exists>resp n'. ask svr resolve me c (Close req) n = Inr (Some resp, n') \<and> crypto n' = crypto n \<and>
    crypto (remote n') = crypto (remote n) \<and> Data resp = marshalPublicKey (public ko) \<and>
    pool_ok (cpc n') \<and> open_ok (remote n') \<and> sendStream (remote n') = [] \<and> writeStream (remote n') = [] \<and>
    rints n' = rints n \<and> rand_ok (rand n')"
proof -
  obtain kc where kc: "keys (crypto n) (svrAddr c) = Some kc" "shared kc = x"
    using key(1) by (auto simp: keyed_def)
  have pre: "ckex_pre (Data req) (crypto (remote n))"
    using other by (simp add: ckex_pre_def)
  have "\<exists>resp n' r. ask svr resolve me c (Close req) n = Inr (Some resp, n') \<and> crypto n' = crypto n \<and>
    pkt_synced resp \<and> ckex_post (Data req) me (crypto (remote n)) r (crypto (remote n')) \<and>
    Data resp = Data r \<and> (\<forall>k. MetaGet k resp = MetaGet k r) \<and>
    pool_ok (cpc n') \<and> open_ok (remote n') \<and> sendStream (remote n') = [] \<and> writeStream (remote n') = [] \<and>
    rints n' = rints n \<and> (rand_ok (rand n) \<longrightarrow> rand_ok (rand n'))"
  proof (rule ckex.asked [where resolve = resolve, OF req(1,2) n(1-4) _ pre me])
    show "callbackQueues (packetP (procs svr)) (MetaGet KeyTarget req) = Some [keyExchangeClient]"
      using svr(2) req(3) by simp
    fix q and b :: bytes and i
    assume q: "dest q = dest req" "MetaGet KeyNoCrypto q = MetaGet KeyNoCrypto req" "length b \<le> pkt_weight (Close req) + 60"
    have "\<exists>wb r'. ProcessData (dataP (cprocs c)) (out_ctx q) b (n\<lparr>rused := i\<rparr>) =
        Inr (None, out_ctx q, wb, (n\<lparr>rused := i\<rparr>)\<lparr>rand := r'\<rparr>) \<and> rand_ok r' \<and> decryptAES (big_Bytes x) wb = Inr (b, None)"
      using q key(1,4) n(5) req(4,6,7) by (intro encrypt_out [OF stages(1)]) (simp_all add: Dest_def skips_crypto_def)
    then show "\<exists>wb r'. ProcessData (dataP (cprocs c)) (out_ctx q) b (n\<lparr>rused := i\<rparr>) =
        Inr (None, out_ctx q, wb, n\<lparr>rused := i, rand := r'\<rparr>) \<and> (rand_ok (rand n) \<longrightarrow> rand_ok r') \<and>
      ProcessData (dataP (procs svr)) (in_ctx me) wb (remote n) = Inr (None, in_ctx me, b, remote n)"
      using decrypt_in [OF _ key(2)] svr(1) key(3) by (fastforce simp: secured_def)
  next
    fix r and b :: bytes and s :: "'z ServerState_scheme"
    assume r: "ckex_post (Data req) me (crypto (remote n)) r (crypto s)" "pkt_synced r" "Marshal (Close r) = Some b"
      "MetaGet KeyRef req = '''' \<longrightarrow> MetaGet KeyRef r = fst (genRef 5 n)"
    then have "b = kex_answer (fst (genRef 5 n)) (public ko)"
      using other req(5) Marshal_kex_answer [of r "fst (genRef 5 n)" "public ko"] by (auto simp: ckex_post_def)
    then have "\<forall>n'. crypto n' = crypto n \<longrightarrow>
        ProcessData (dataP (cprocs c)) (in_ctx (svrAddr c)) b n' = Inr (None, in_ctx (svrAddr c), b, n')"
      using rejected_in [OF stages(2), where a = "svrAddr c" and k = kc] rej kc by simp
    moreover obtain ref where "MetaMap (Close r) = [(KeyNoCrypto, ''true''), (KeyRef, ref)]"
      using r(1) by (auto simp: ckex_post_def Close_def)
    then have "MetaGet KeyNoCrypto (Close r) = ''true''"
      by (simp add: MetaGet_MetaMap gm_str_def)
    ultimately show "\<exists>wb r'. ProcessData (dataP (procs svr)) (out_ctx (Close r)) b s =
        Inr (None, out_ctx (Close r), wb, s\<lparr>rand := r'\<rparr>) \<and>
      (\<forall>n'. crypto n' = crypto n \<longrightarrow>
        ProcessData (dataP (cprocs c)) (in_ctx (svrAddr c)) wb n' = Inr (None, in_ctx (svrAddr c), b, n'))"
      using svr(1) by (intro exI [of _ b] exI [of _ "rand s"]) (simp add: exempt_out secured_def)
  qed
  then show ?thesis
    using other n(5) by (fastforce simp: ckex_post_def)
qed

text \<open>
  A call of \<open>ClientKEx\<close> with a fresh packet, up to the answer: what the client receives is the public key
  that the server stored for the other client. The address is one that JSON does not escape.
\<close>

lemma client_key_asked:
  fixes n :: "'z ServerState_scheme Net" and svr :: "'z ServerState_scheme UDPServer"
  assumes stages: "stages_of (pipelines (dataP (cprocs c))) ''_out_'' = [encryptTransport]"
    "stages_of (pipelines (dataP (cprocs c))) ''_in_'' = [decryptTransport]"
    and svr: "secured svr" "callbackQueues (packetP (procs svr)) TargetKeyExchangeClient = Some [keyExchangeClient]"
    and key: "keyed (svrAddr c) x (crypto n)" "keys (crypto (remote n)) me = Some k" "shared k = x" "aes_key_ok (big_Bytes x)"
    and n: "pool_ok (cpc n)" "open_ok (remote n)" "sendStream (remote n) = []" "writeStream (remote n) = []" "rand_ok (rand n)"
    and pkt: "pkt_synced pkt" "MetaMap pkt = [(KeyRef, '''')]" "dest pkt = svrAddr c"
    and other: "list_all html_safe other" "length other \<le> 100" "keys (crypto (remote n)) other = Some ko"
    and rej: "rejects x (kex_answer (fst (genRef 5 n)) (public ko))" and me: "resolve me = Some me"
  shows "\<exists>req resp n'. ConfigureKeyExClientPkt other pkt = Inr req \<and> ask svr resolve me c req n = Inr (Some resp, n') \<and>
    crypto n' = crypto n \<and> crypto (remote n') = crypto (remote n) \<and> Data resp = marshalPublicKey (public ko) \<and>
    pool_ok (cpc n') \<and> open_ok (remote n') \<and> sendStream (remote n') = [] \<and> writeStream (remote n') = [] \<and>
    rints n' = rints n \<and> rand_ok (rand n')"
proof -
  obtain req where req: "ConfigureKeyExClientPkt other pkt = Inr (Close req)" "pkt_synced req"
    "Data req = CHR ''{'' # dquote # ''ip'' @ dquote # CHR '':'' # dquote # other @ dquote # ''}''"
    "dest req = dest pkt" "MetaMap req = gm_put KeyTarget TargetKeyExchangeClient (MetaMap pkt)"
    using ConfigureKeyExClientPkt_ok [OF pkt(1)] by blast
  have meta: "MetaMap req = [(KeyRef, ''''), (KeyTarget, TargetKeyExchangeClient)]"
    using req(5) pkt(2) by (simp add: key_defs)
  have "meta_utf8 (MetaMap req)" "MetaGet KeyTarget req = TargetKeyExchangeClient" "MetaGet KeyNoCrypto req = ''''"
    "MetaGet KeyRef req = ''''"
    by (simp_all add: meta meta_utf8_def utf8_valid_def to_valid_ascii key_defs TargetKeyExchangeClient_def MetaGet_MetaMap
        gm_str_def KeyNoCrypto_def)
  moreover have "pkt_weight (Close req) + 60 \<le> gcm_limit"
    using pkt_weight_Close [of req] other(2)
    by (simp add: meta req(3) map_weight_def key_defs TargetKeyExchangeClient_def gcm_limit_def)
  moreover have "unmarshalIP (Data req) = Some other"
    using unmarshalIP_request [OF other(1)] by (simp add: req(3))
  ultimately have "\<exists>resp n'. ask svr resolve me c (Close req) n = Inr (Some resp, n') \<and> crypto n' = crypto n \<and>
    crypto (remote n') = crypto (remote n) \<and> Data resp = marshalPublicKey (public ko) \<and>
    pool_ok (cpc n') \<and> open_ok (remote n') \<and> sendStream (remote n') = [] \<and> writeStream (remote n') = [] \<and>
    rints n' = rints n \<and> rand_ok (rand n')"
    using ckex_asked [where resolve = resolve, OF stages svr key n req(2)] req(4) pkt(3) other(3) rej me by simp
  then show ?thesis
    using req(1) by blast
qed

section \<open>End-to-end encrypted packets\<close>

lemma EncryptE2E_keyed:
  assumes "keyed a x cr" and "aes_key_ok (big_Bytes x)" and "length (Data p) \<le> gcm_limit" and "rand_ok r"
  shows "\<exists>c r'. EncryptE2E a p cr r = Inr (None, Close (Write c (Clear p)), r') \<and> rand_ok r' \<and>
    length c = length (Data p) + 28 \<and> decryptAES (big_Bytes x) c = Inr (Data p, None)"
proof -
  obtain c r' where "encryptAES (big_Bytes x) (Data p) r = Inr (c, None, r')" "rand_ok r'"
    "decryptAES (big_Bytes x) c = Inr (Data p, None)"
    using encryptAES_ok [OF assms(2-4)] by blast
  then show ?thesis
    using assms(1) encryptAES_length
    by (intro exI [of _ c] exI [of _ r']) (auto simp: keyed_def EncryptE2E_def EncryptFor_def getKeyStore_def)
qed

lemma DecryptE2E_keyed:
  assumes "keyed a x cr" and "decryptAES (big_Bytes x) (Data d) = Inr (m, None)"
  shows "\<exists>dec. DecryptE2E a d cr = Inr (None, dec) \<and> Data dec = m"
  using assms
  by (auto simp: keyed_def DecryptE2E_def DecryptFrom_def getKeyStore_def Data_def Close_def Write_def Clear_def)

text \<open>A server takes a datagram, and the first packet it queues leaves as a datagram.\<close>

definition server_hop ::
  "'z ServerState_scheme UDPServer \<Rightarrow> (string \<Rightarrow> string option) \<Rightarrow> string \<Rightarrow> bytes \<Rightarrow> 'z ServerState_scheme \<Rightarrow>
     (writePacket option \<times> 'z ServerState_scheme) go" where
  "server_hop svr resolve sender wb s =
     gbind (UDPServer_processIncoming svr wb sender s) (\<lambda>s1.
       case sendStream s1 of
         [] \<Rightarrow> Inr (None, s1)
       | q # qs \<Rightarrow>
           gbind (UDPServer_processOutgoing svr resolve q (s1\<lparr>sendStream := qs\<rparr>)) (\<lambda>s2.
             case writeStream s2 of
               [] \<Rightarrow> Inr (None, s2)
             | w # ws \<Rightarrow> Inr (Some w, s2\<lparr>writeStream := ws\<rparr>)))"

definition idle :: "'z ServerState_scheme \<Rightarrow> bool" where
  "idle s \<longleftrightarrow> pool_ok (pc s) \<and> \<not> streamsClosed s \<and> sendStream s = [] \<and> writeStream s = [] \<and> rand_ok (rand s)"

definition ready :: "'z ClientState_scheme \<Rightarrow> bool" where
  "ready w \<longleftrightarrow> pool_ok (cpc w) \<and> rand_ok (rand w)"

text \<open>A packet leaves a secured client \<dots>\<close>

lemma secure_sent:
  fixes w :: "'z ClientState_scheme"
  assumes "stages_of (pipelines (dataP (cprocs c))) ''_out_'' = [encryptTransport]"
    and p: "pkt_synced p" "meta_utf8 (MetaMap p)" "\<not> skips_crypto (MetaGet KeyNoCrypto p)" "pkt_weight (Close p) + 60 \<le> gcm_limit"
    and "keyed (dest p) x (crypto w)" and "aes_key_ok (big_Bytes x)" and "ready w"
  shows "\<exists>q b wb w'. Send_prepare c (Close p) ch w = Inr (Inr (\<lparr>cpData = wb, cpCh = ch\<rparr>, MetaGet KeyRef q), q, w') \<and>
    ready w' \<and> crypto w' = crypto w \<and>
    decryptAES (big_Bytes x) wb = Inr (b, None) \<and> Marshal (Close q) = Some b \<and> pkt_synced q \<and> Data q = Data p \<and>
    meta_utf8 (MetaMap q) \<and> (\<forall>k. k \<noteq> KeyRef \<longrightarrow> MetaGet k q = MetaGet k p) \<and>
    (if MetaGet KeyRef p = '''' then length (MetaGet KeyRef q) = 5 else MetaGet KeyRef q = MetaGet KeyRef p)"
proof -
  obtain q n b where q: "Marshal (Close q) = Some b" "pkt_synced q" "Data q = Data p" "dest q = dest p"
    "meta_utf8 (MetaMap q)" "\<forall>k. k \<noteq> KeyRef \<longrightarrow> MetaGet k q = MetaGet k p" "length b \<le> pkt_weight (Close p) + 60"
    "if MetaGet KeyRef p = '''' then length (MetaGet KeyRef q) = 5 else MetaGet KeyRef q = MetaGet KeyRef p"
    and send: "\<And>wb w'. ProcessData (dataP (cprocs c)) (out_ctx q) b (w\<lparr>rused := n\<rparr>) = Inr (None, out_ctx q, wb, w') \<Longrightarrow>
      Send_prepare c (Close p) ch w = Inr (Inr (\<lparr>cpData = wb, cpCh = ch\<rparr>, MetaGet KeyRef q), q, w')"
    using request_sent [OF p(1,2), where c = c and w = w and ch = ch] by blast
  have "MetaGet KeyNoCrypto q = MetaGet KeyNoCrypto p"
    using q(6) by (simp add: key_defs KeyNoCrypto_def)
  then obtain wb r' where wb: "ProcessData (dataP (cprocs c)) (out_ctx q) b (w\<lparr>rused := n\<rparr>) =
      Inr (None, out_ctx q, wb, w\<lparr>rused := n, rand := r'\<rparr>)" "decryptAES (big_Bytes x) wb = Inr (b, None)" "rand_ok r'"
    using encrypt_out [OF assms(1), of q x "w\<lparr>rused := n\<rparr>" b] assms(3-8) q(4,7) by (auto simp: Dest_def ready_def)
  then have "ready (w\<lparr>rused := n, rand := r'\<rparr>)" "crypto (w\<lparr>rused := n, rand := r'\<rparr>) = crypto w"
    using assms(8) by (simp_all add: ready_def)
  then show ?thesis
    using send [OF wb(1)] wb(2) q by blast
qed

text \<open>\dots and is relayed by a secured server \<dots>\<close>

lemma secure_relayed:
  fixes s :: "'z ServerState_scheme"
  assumes svr: "secured svr" "callbackQueues (packetP (procs svr)) TargetRelay = Some [relayCallback]" and s: "idle s"
    and "keyed sender x (crypto s)" and "decryptAES (big_Bytes x) wb = Inr (b, None)"
    and p: "pkt_synced p" "meta_utf8 (MetaMap p)" "Marshal (Close p) = Some b" "MetaGet KeyTarget p = TargetRelay"
    and "keyed (MetaGet KeyRelayTo p) y (crypto s)" and "aes_key_ok (big_Bytes y)"
    and "resolve (MetaGet KeyRelayTo p) = Some a"
    and "length sender + length (MetaGet KeyRef p) + 2 * length (Data p) \<le> 1000000"
  shows "\<exists>fwd out s' fb. server_hop svr resolve sender wb s = Inr (Some out, s') \<and> wpAddr out = a \<and>
    idle s' \<and> crypto s' = crypto s \<and>
    pkt_synced fwd \<and> Data fwd = Data p \<and> MetaMap fwd = [(KeyRef, MetaGet KeyRef p), (KeyRelayFrom, sender)] \<and>
    Marshal (Close fwd) = Some fb \<and> decryptAES (big_Bytes y) (wpData out) = Inr (fb, None)"
proof -
  obtain k where "keys (crypto s) sender = Some k" "shared k = x"
    using assms(4) by (auto simp: keyed_def)
  then have "ProcessData (dataP (procs svr)) (in_ctx sender) wb s = Inr (None, in_ctx sender, b, s)"
    using decrypt_in [of "dataP (procs svr)" s sender k wb b] svr(1) assms(5) by (simp add: secured_def)
  note processIncoming_relays [OF this _ p(1,2,3) svr(2) p(4)]
  then obtain fwd pc' where fwd: "UDPServer_processIncoming svr wb sender s = Inr (s\<lparr>pc := pc', sendStream := [fwd]\<rparr>)"
    "pool_ok pc'" "pkt_synced fwd" "Close fwd = fwd" "Dest fwd = MetaGet KeyRelayTo p" "Data fwd = Data p"
    "MetaMap fwd = [(KeyRef, MetaGet KeyRef p), (KeyRelayFrom, sender)]"
    using s by (auto simp: idle_def)
  obtain fb where fb: "Marshal fwd = Some fb" "length fb \<le> gcm_limit"
    using Marshal_length [OF fwd(3)] pkt_weight_Close [of fwd] assms(13)
    by (simp add: fwd(4,6,7) Marshal_def map_weight_def key_defs relay_keys gcm_limit_def)
  let ?s1 = "s\<lparr>pc := pc', sendStream := []\<rparr>"
  have "\<not> skips_crypto (MetaGet KeyNoCrypto fwd)"
    by (simp add: MetaGet_MetaMap fwd(7) gm_str_def key_defs relay_keys KeyNoCrypto_def skips_crypto_def)
  then obtain ow r' where ow: "ProcessData (dataP (procs svr)) (out_ctx fwd) fb ?s1 = Inr (None, out_ctx fwd, ow, ?s1\<lparr>rand := r'\<rparr>)"
    "rand_ok r'" "decryptAES (big_Bytes y) ow = Inr (fb, None)"
    using encrypt_out [of "dataP (procs svr)" fwd y ?s1 fb] svr(1) s assms(10,11) fb(2) fwd(5)
    by (auto simp: secured_def idle_def)
  let ?s' = "s\<lparr>pc := PutBack fwd pc', rand := r'\<rparr>"
  have "server_hop svr resolve sender wb s = Inr (Some \<lparr>wpData = ow, wpAddr = a\<rparr>, ?s')"
    using processOutgoing_leaves [OF ow(1), of resolve a] fwd(1,5) fb(1) s assms(12)
    by (simp add: svr_PutBack_def server_hop_def idle_def)
  moreover have "idle ?s'"
    using s fwd(2,3) ow(2) by (simp add: idle_def)
  ultimately show ?thesis
    using fwd(3,4,6,7) fb(1) ow(3) by (intro exI [of _ fwd] exI [of _ "\<lparr>wpData = ow, wpAddr = a\<rparr>"] exI [of _ ?s'] exI [of _ fb]) simp
qed

text \<open>\dots and delivered by a secured client.\<close>

lemma secure_received:
  fixes v :: "'z ClientState_scheme"
  assumes "stages_of (pipelines (dataP (cprocs c))) ''_in_'' = [decryptTransport]"
    and "keyed (svrAddr c) y (crypto v)" and "decryptAES (big_Bytes y) wb = Inr (b, None)"
    and "ready v" and "pkt_synced p" and "meta_utf8 (MetaMap p)" and "Marshal (Close p) = Some b"
  shows "\<exists>d v'. UDPClient_processIncoming c reqs wb v =
      Inr (Some (case reqs (MetaGet KeyRef p) of Some ctx \<Rightarrow> reqCh ctx | None \<Rightarrow> None, d, MetaGet KeyRef p), v') \<and>
    ready v' \<and> crypto v' = crypto v \<and> pkt_synced d \<and> Data d = Data p \<and> (\<forall>k. MetaGet k d = MetaGet k p)"
proof -
  obtain k where "keys (crypto v) (svrAddr c) = Some k" "shared k = y"
    using assms(2) by (auto simp: keyed_def)
  then have arrives: "ProcessData (dataP (cprocs c)) (in_ctx (svrAddr c)) wb v = Inr (None, in_ctx (svrAddr c), b, v)"
    using decrypt_in [OF assms(1)] assms(3) by blast
  obtain d pc' where d: "UDPClient_processIncoming c reqs wb v =
      Inr (Some (case reqs (MetaGet KeyRef p) of Some ctx \<Rightarrow> reqCh ctx | None \<Rightarrow> None, d, MetaGet KeyRef p), v\<lparr>cpc := pc'\<rparr>)"
    "pool_ok pc'" "pkt_synced d" "Data d = Data p" "\<forall>k. MetaGet k d = MetaGet k p"
    using processIncoming_delivers [OF arrives _ assms(5-7), of reqs] assms(4) by (auto simp: ready_def)
  then show ?thesis
    using assms(4) by (intro exI [of _ d] exI [of _ "v\<lparr>cpc := pc'\<rparr>"]) (simp add: ready_def)
qed


text \<open>All three together: one relayed packet, from the call of \<open>Send\<close> on one side to the delivery on the
  other.\<close>

lemma relay_hop:
  fixes w :: "'a ClientState_scheme" and s :: "'z ServerState_scheme" and v :: "'b ClientState_scheme"
  assumes stages: "stages_of (pipelines (dataP (cprocs cA))) ''_out_'' = [encryptTransport]"
    "stages_of (pipelines (dataP (cprocs cB))) ''_in_'' = [decryptTransport]"
    "secured svr" "callbackQueues (packetP (procs svr)) TargetRelay = Some [relayCallback]"
    and keys: "keyed (dest p) x (crypto w)" "keyed addrA x (crypto s)" "aes_key_ok (big_Bytes x)"
    "keyed addrB y (crypto s)" "keyed (svrAddr cB) y (crypto v)" "aes_key_ok (big_Bytes y)"
    and states: "ready w" "idle s" "ready v"
    and p: "pkt_synced p" "MetaMap p = [(KeyRef, ref), (KeyRelayTo, addrB), (KeyTarget, TargetRelay)]"
    and addrs: "resolve addrB = Some addrB" "utf8_valid addrA" "utf8_valid addrB" "utf8_valid ref"
    and small: "length (Data p) \<le> 10000" "length addrA \<le> 100" "length addrB \<le> 100" "length ref \<le> 5"
  shows "\<exists>wp ref' q w' out s' d v'. Send_prepare cA (Close p) ch w = Inr (Inr (wp, ref'), q, w') \<and>
    server_hop svr resolve addrA (cpData wp) s = Inr (Some out, s') \<and> wpAddr out = addrB \<and>
    UDPClient_processIncoming cB reqs (wpData out) v =
      Inr (Some (case reqs ref' of Some ctx \<Rightarrow> reqCh ctx | None \<Rightarrow> None, d, ref'), v') \<and>
    pkt_synced d \<and> Data d = Data p \<and> MetaGet KeyRef d = ref' \<and> MetaGet KeyRelayFrom d = addrA \<and>
    utf8_valid ref' \<and> (if ref = '''' then length ref' = 5 else ref' = ref) \<and>
    ready w' \<and> crypto w' = crypto w \<and> idle s' \<and> crypto s' = crypto s \<and> ready v' \<and> crypto v' = crypto v"
proof -
  have m: "meta_utf8 (MetaMap p)" "\<not> skips_crypto (MetaGet KeyNoCrypto p)" "MetaGet KeyRef p = ref"
    "MetaGet KeyTarget p = TargetRelay" "MetaGet KeyRelayTo p = addrB"
    using addrs(3,4) by (simp_all add: p(2) meta_utf8_def MetaGet_MetaMap gm_str_def key_defs relay_keys KeyNoCrypto_def
        skips_crypto_def utf8_valid_def to_valid_ascii TargetRelay_def)
  have "pkt_weight (Close p) + 60 \<le> gcm_limit"
    using pkt_weight_Close [of p] small
    by (simp add: p(2) map_weight_def key_defs relay_keys TargetRelay_def gcm_limit_def)
  then obtain q b wb w' where q: "Send_prepare cA (Close p) ch w = Inr (Inr (\<lparr>cpData = wb, cpCh = ch\<rparr>, MetaGet KeyRef q), q, w')"
    "ready w'" "crypto w' = crypto w"
    "decryptAES (big_Bytes x) wb = Inr (b, None)" "Marshal (Close q) = Some b" "pkt_synced q" "Data q = Data p"
    "meta_utf8 (MetaMap q)" "\<forall>k. k \<noteq> KeyRef \<longrightarrow> MetaGet k q = MetaGet k p"
    "if ref = '''' then length (MetaGet KeyRef q) = 5 else MetaGet KeyRef q = ref"
    using secure_sent [OF stages(1) p(1) m(1,2) _ keys(1,3) states(1), of ch] m(3) by auto
  have t: "MetaGet KeyTarget q = TargetRelay" "MetaGet KeyRelayTo q = addrB" "length (MetaGet KeyRef q) \<le> 5"
    using q(9,10) m(4,5) small(4) by (simp_all add: key_defs relay_keys split: if_splits)
  obtain fwd out s' fb where f: "server_hop svr resolve addrA wb s = Inr (Some out, s')" "wpAddr out = addrB"
    "idle s'" "crypto s' = crypto s" "pkt_synced fwd" "Data fwd = Data p"
    "MetaMap fwd = [(KeyRef, MetaGet KeyRef q), (KeyRelayFrom, addrA)]"
    "Marshal (Close fwd) = Some fb" "decryptAES (big_Bytes y) (wpData out) = Inr (fb, None)"
    using secure_relayed [OF stages(3,4) states(2) keys(2) q(4,6,8,5) t(1), of y resolve addrB] keys(4,6) addrs(1) small t q(7) by auto
  have fm: "meta_utf8 (MetaMap fwd)" "MetaGet KeyRef fwd = MetaGet KeyRef q" "MetaGet KeyRelayFrom fwd = addrA"
    using addrs(2) MetaGet_utf8 [OF q(8), of KeyRef]
    by (simp_all add: f(7) meta_utf8_def MetaGet_MetaMap gm_str_def key_defs relay_keys utf8_valid_def to_valid_ascii)
  obtain d v' where "UDPClient_processIncoming cB reqs (wpData out) v =
      Inr (Some (case reqs (MetaGet KeyRef q) of Some ctx \<Rightarrow> reqCh ctx | None \<Rightarrow> None, d, MetaGet KeyRef q), v')"
    "ready v'" "crypto v' = crypto v" "pkt_synced d" "Data d = Data p" "\<forall>k. MetaGet k d = MetaGet k fwd"
    using secure_received [OF stages(2) keys(5) f(9) states(3) f(5) fm(1) f(8), of reqs] fm(2) f(6) by auto
  then show ?thesis
    using q(1,2,3,10) f(1-4) fm(2,3) MetaGet_utf8 [OF q(8), of KeyRef]
    by (intro exI [of _ "\<lparr>cpData = wb, cpCh = ch\<rparr>"] exI [of _ "MetaGet KeyRef q"] exI [of _ q] exI [of _ w']
        exI [of _ out] exI [of _ s'] exI [of _ d] exI [of _ v']) simp
qed

end
