(* ===== verification/Examples.thy ===== *)
theory Examples
  imports Network
begin

text \<open>
  The example programs (\<open>src/examples\<close>): the echo server with and without the crypto extension, the
  echo client's request, and the packets and set-up of the crypto client. The programs log and call
  \<open>log.Fatal\<close>; a fatal exit is \<open>None\<close>, like a wait that never ends, and log lines are not modelled.
  Addresses are their texts.
\<close>

section \<open>The echo servers\<close>

text \<open>\<open>appNow\<close> is what \<open>time.Now().String()\<close> gives at the moment; only the environment changes it.\<close>

record AppState = ServerState +
  requestsServed :: "64 word"
  appNow :: string

text \<open>\<open>json.Unmarshal\<close> into \<open>struct { Msg string }\<close>: names match without regard to case, and the long s
  (U+017F) counts as an s.\<close>

definition msgNames :: "string list" where
  "msgNames = [[m] @ s @ [g]. m \<leftarrow> ''mM'', s \<leftarrow> [''s'', ''S'', [CHR 0xC5, CHR 0xBF]], g \<leftarrow> ''gG'']"

definition unmarshalMsg :: "bytes \<Rightarrow> string option" where
  "unmarshalMsg b = unmarshal_string msgNames b"

definition TargetEcho :: string where "TargetEcho = ''app.echo''"

definition echo :: "'z AppState_scheme TargetCallback" where
  "echo ctx pw s =
     (case Pkt ctx of
        None \<Rightarrow> Inl NilDeref
      | Some p \<Rightarrow>
          (case unmarshalMsg (Data p) of
             None \<Rightarrow> Inr (ctx\<lparr>Stat := -1, Msg := ''malformed packet data''\<rparr>, pw, s)
           | Some msg \<Rightarrow>
               Inr (ctx, Close (Write (''Received at '' @ appNow s) pw),
                    s\<lparr>requestsServed := requestsServed s + 1\<rparr>)))"

definition listenAddr :: string where "listenAddr = ''0.0.0.0:10000''"

definition echo_server :: "string option \<Rightarrow> 'z AppState_scheme UDPServer option go" where
  "echo_server listen =
     gbind (NewUDPServer listen listenAddr 4096 Rate10k) (\<lambda>res.
       case res of
         Inl e \<Rightarrow> Inr None
       | Inr svr \<Rightarrow>
           Inr (Some (svr\<lparr>procs := (procs svr)\<lparr>packetP := AddCallback TargetEcho echo (packetP (procs svr))\<rparr>\<rparr>)))"

text \<open>The server with the crypto extension; \<open>gen\<close> is the outcome of \<open>ecdsa.GenerateKey\<close>. The error of
  \<open>Extend\<close> is ignored.\<close>

definition crypto_server ::
  "string option \<Rightarrow> string + PrivateKey \<Rightarrow> ('z AppState_scheme UDPServer \<times> Crypto) option go" where
  "crypto_server listen gen =
     gbind (NewUDPServer listen listenAddr 4096 Rate10k) (\<lambda>res.
       case res of
         Inl e \<Rightarrow> Inr None
       | Inr svr \<Rightarrow>
           (case gen of
              Inl e \<Rightarrow> Inr None
            | Inr key \<Rightarrow>
                (case NewCrypto (Some key) gen of
                   Inl e \<Rightarrow> Inr None
                 | Inr cr \<Rightarrow>
                     (let p = fst (Extend ''server'' (procs svr)) in
                      Inr (Some (svr\<lparr>procs := p\<lparr>packetP := AddCallback TargetEcho echo (packetP p)\<rparr>\<rparr>, cr))))))"

section \<open>The clients\<close>

definition exampleSvrAddr :: string where "exampleSvrAddr = ''127.0.0.1:10000''"

text \<open>The construction of the client in both echo clients; \<open>None\<close> is the fatal exit and \<open>choices\<close> are
  those of the pool.\<close>

definition example_client ::
  "string option \<Rightarrow> int \<Rightarrow> nat list \<Rightarrow> 'z ClientState_scheme \<Rightarrow>
     ('z ClientState_scheme UDPClient \<times> 'z ClientState_scheme ClientRun) option go" where
  "example_client listen now choices w =
     gbind (NewUDPClient listen exampleSvrAddr 4096 Rate10k now
         (w\<lparr>cpc := NewJSONPktCreator (sint Rate10k div 2) choices\<rparr>)) (\<lambda>res.
       Inr (case res of Inl e \<Rightarrow> None | Inr cm \<Rightarrow> Some cm))"

definition echo_request :: "JSONPktCreator \<Rightarrow> (JSONPkt \<times> JSONPktCreator) go" where
  "echo_request c =
     gbind (NewPkt '''' exampleSvrAddr c) (\<lambda>(req, c1).
     gbind (MetaAdd KeyTarget TargetEcho req) (\<lambda>req1.
       Inr (Close (Write (CHR ''{'' # dquote # ''msg'' @ dquote # CHR '':'' # dquote # ''hello'' @ dquote # ''}'') req1), c1)))"

definition makeRelayPkt :: "string \<Rightarrow> string \<Rightarrow> JSONPktCreator \<Rightarrow> (JSONPkt \<times> JSONPktCreator) go" where
  "makeRelayPkt to' msg c =
     gbind (NewPkt '''' exampleSvrAddr c) (\<lambda>(pkt, c1).
     gbind (MetaAdd KeyTarget TargetRelay pkt) (\<lambda>pkt1.
     gbind (MetaAdd KeyRelayTo to' pkt1) (\<lambda>pkt2.
       Inr (Close (Write msg pkt2), c1))))"

text \<open>The echo client: compose the request, send it and wait for the response, whose data it logs.\<close>

definition echo_client ::
  "('z ClientState_scheme asking) \<Rightarrow> 'z ClientState_scheme \<Rightarrow> (bytes option \<times> 'z ClientState_scheme) go" where
  "echo_client send_wait w =
     gbind (echo_request (cpc w)) (\<lambda>(req, pc').
     gbind (send_wait req (w\<lparr>cpc := pc'\<rparr>)) (\<lambda>(resp, w'). Inr (map_option Data resp, w')))"

text \<open>\<open>createSecureClient\<close>; \<open>net\<close> is the client's \<open>Send\<close> and wait, given its processor.\<close>

definition createSecureClient ::
  "string option \<Rightarrow> string + PrivateKey \<Rightarrow> int \<Rightarrow>
     ('z ClientState_scheme UDPClient \<Rightarrow> 'z ClientState_scheme asking) \<Rightarrow> 'z ClientState_scheme \<Rightarrow>
     ('z ClientState_scheme UDPClient option \<times> 'z ClientState_scheme) go" where
  "createSecureClient listen gen now net w =
     gbind (NewUDPClient listen exampleSvrAddr 4096 Rate10k now w) (\<lambda>res.
       case res of
         Inl e \<Rightarrow> Inr (None, w)
       | Inr (cl, m) \<Rightarrow>
           gbind (NewPkt '''' exampleSvrAddr (cpc w)) (\<lambda>(pkt, pc').
           gbind (ConfigureClient (\<lambda>p. net (cl\<lparr>cprocs := p\<rparr>)) gen exampleSvrAddr pkt (cprocs cl) (w\<lparr>cpc := pc'\<rparr>)) (\<lambda>(r, w').
             case r of
               Some (Inr p) \<Rightarrow> Inr (Some (cl\<lparr>cprocs := p\<rparr>), w')
             | _ \<Rightarrow> Inr (None, w'))))"

section \<open>The set-up of the crypto example\<close>

definition clientA_Addr :: string where "clientA_Addr = ''127.0.0.1:10001''"
definition clientB_Addr :: string where "clientB_Addr = ''127.0.0.1:10002''"

text \<open>
  The extension of one client asking over another client: \<open>lent\<close> is the state of the client that is
  used, with its own extension, beside the extension that asks.
\<close>

record 'w Lent = CryptoState +
  lent :: 'w

definition lend :: "'w asking \<Rightarrow> 'w Lent asking" where
  "lend send_wait pkt l = gbind (send_wait pkt (lent l)) (\<lambda>(r, n). Inr (r, l\<lparr>lent := n\<rparr>))"

text \<open>
  \<open>main\<close> up to the conversation: two secured clients, and their key exchange with each other. Packets
  and random numbers are global, so one client's exchange continues in the state the other left, with
  its own extension. Both exchanges are made over client A. The result has the clients and their
  extensions; it is \<open>None\<close> where the code exits or waits for ever.
\<close>

definition crypto_clients ::
  "'z ServerState_scheme UDPServer \<Rightarrow> (string \<Rightarrow> string option) \<Rightarrow> string option \<Rightarrow> string option \<Rightarrow>
     string + PrivateKey \<Rightarrow> string + PrivateKey \<Rightarrow> int \<Rightarrow> 'z ServerState_scheme Net \<Rightarrow>
     (('z ServerState_scheme Net UDPClient \<times> Crypto \<times> 'z ServerState_scheme Net UDPClient \<times> Crypto) option \<times>
      'z ServerState_scheme Net) go" where
  "crypto_clients svr resolve listenA listenB genA genB now n =
     gbind (createSecureClient listenA genA now (ask svr resolve clientA_Addr) n) (\<lambda>(resA, n1).
     case resA of
       None \<Rightarrow> Inr (None, n1)
     | Some clientA \<Rightarrow>
         gbind (createSecureClient listenB genB now (ask svr resolve clientB_Addr) n1) (\<lambda>(resB, n2).
         case resB of
           None \<Rightarrow> Inr (None, n2)
         | Some clientB \<Rightarrow>
             gbind (NewPkt '''' exampleSvrAddr (cpc n2)) (\<lambda>(pkt, c1).
             gbind (ClientKEx (ask svr resolve clientA_Addr clientA) clientB_Addr pkt
                 (n2\<lparr>crypto := crypto n1, cpc := c1\<rparr>)) (\<lambda>(kexA, n3).
             case kexA of
               Some (Inr u) \<Rightarrow>
                 gbind (NewPkt '''' exampleSvrAddr (cpc n3)) (\<lambda>(pkt2, c2).
                 gbind (ClientKEx (lend (ask svr resolve clientA_Addr clientA)) clientA_Addr pkt2
                     \<lparr>crypto = crypto n2, rand = rand n3, lent = n3\<lparr>cpc := c2\<rparr>\<rparr>) (\<lambda>(kexB, l).
                 case kexB of
                   Some (Inr u) \<Rightarrow> Inr (Some (clientA, crypto (lent l), clientB, crypto l), lent l)
                 | _ \<Rightarrow> Inr (None, lent l)))
             | _ \<Rightarrow> Inr (None, n3)))))"

section \<open>The conversation of the crypto example\<close>

text \<open>Client A composes, encrypts and sends its message; the response channel is number 0. The error of
  \<open>EncryptE2E\<close> is ignored.\<close>

definition clientA_send ::
  "'z ClientState_scheme UDPClient \<Rightarrow> 'z ClientState_scheme \<Rightarrow>
     ((string + clientPacket \<times> string) \<times> JSONPkt \<times> 'z ClientState_scheme) go" where
  "clientA_send c w =
     gbind (makeRelayPkt clientB_Addr ''super-secret-msg-from-A'' (cpc w)) (\<lambda>(pkt, pc').
     gbind (EncryptE2E clientB_Addr pkt (crypto w) (rand w)) (\<lambda>(err, pkt1, r').
       Send_prepare c pkt1 (Some 0) (w\<lparr>cpc := pc', rand := r'\<rparr>)))"

text \<open>Client B's listener with a packet from \<open>Misc\<close>: the data it logs and the call of \<open>Send\<close>, or nothing
  if the packet cannot be decrypted.\<close>

definition clientB_listen ::
  "'z ClientState_scheme UDPClient \<Rightarrow> JSONPkt \<Rightarrow> 'z ClientState_scheme \<Rightarrow>
     ((bytes \<times> (string + clientPacket \<times> string) \<times> JSONPkt \<times> 'z ClientState_scheme) option) go" where
  "clientB_listen c pkt w =
     gbind (DecryptE2E (MetaGet KeyRelayFrom pkt) pkt (crypto w)) (\<lambda>(err, pkt1).
       case err of
         Some e \<Rightarrow> Inr None
       | None \<Rightarrow>
           gbind (makeRelayPkt clientA_Addr ''super-secret-msg-from-B'' (cpc w)) (\<lambda>(resp, pc').
           gbind (MetaAdd KeyRef (MetaGet KeyRef pkt1) resp) (\<lambda>resp1.
           gbind (EncryptE2E clientA_Addr resp1 (crypto w) (rand w)) (\<lambda>(err, resp2, r').
           gbind (Send_prepare c resp2 None (w\<lparr>cpc := pc', rand := r'\<rparr>)) (\<lambda>res.
             Inr (Some (Data pkt1, res)))))))"

text \<open>Client A's wait ends with a packet, of which it logs the decrypted data.\<close>

definition clientA_receive :: "JSONPkt \<Rightarrow> 'z ClientState_scheme \<Rightarrow> bytes go" where
  "clientA_receive resp w =
     gbind (DecryptE2E clientB_Addr resp (crypto w)) (\<lambda>(err, resp'). Inr (Data resp'))"

section \<open>The echo callback as a handler\<close>

type_synonym echo_view = "Crypto \<times> 64 word \<times> string"

definition echo_state :: "'z AppState_scheme \<Rightarrow> echo_view" where
  "echo_state s = (crypto s, requestsServed s, appNow s)"

definition echo_pre :: "bytes \<Rightarrow> echo_view \<Rightarrow> bool" where
  "echo_pre d v \<longleftrightarrow> unmarshalMsg d \<noteq> None"

fun echo_post :: "bytes \<Rightarrow> string \<Rightarrow> echo_view \<Rightarrow> JSONPkt \<Rightarrow> echo_view \<Rightarrow> bool" where
  "echo_post d from' (cr, n, now) resp v \<longleftrightarrow>
     v = (cr, n + 1, now) \<and> Data resp = ''Received at '' @ now \<and> (\<exists>ref. MetaMap resp = [(KeyRef, ref)])"

interpretation echo: target_handler echo_state echo echo_pre echo_post
proof unfold_locales
  fix ctx :: TargetCtx and p resp ref and s :: "'z AppState_scheme"
  assume ctx: "Pkt ctx = Some p" "Stat ctx = 0" and resp: "pkt_synced resp" "MetaMap resp = [(KeyRef, ref)]" "Data resp = []"
    and s: "pool_ok (pc s) \<and> \<not> streamsClosed s" and "echo_pre (Data p) (echo_state s)"
  then obtain msg where msg: "unmarshalMsg (Data p) = Some msg"
    by (auto simp: echo_pre_def)
  let ?r = "Close (Write (''Received at '' @ appNow s) resp)"
  have r: "pkt_synced ?r" "dest ?r = dest resp" "MetaMap ?r = [(KeyRef, ref)]" "Data ?r = ''Received at '' @ appNow s"
    using resp by (simp_all add: Close_def Write_def Data_def)
  have "echo ctx resp s = Inr (ctx\<lparr>Stat := CodeContinue\<rparr>, ?r, s\<lparr>requestsServed := requestsServed s + 1\<rparr>)"
    using ctx msg by (cases ctx) (simp add: echo_def code_defs)
  then show "\<exists>stat resp' s'. echo ctx resp s = Inr (ctx\<lparr>Stat := stat\<rparr>, resp', s') \<and>
      stat \<in> {CodeContinue, CodeStopCloseSend} \<and> pkt_synced resp' \<and> dest resp' = dest resp \<and> MetaGet KeyRef resp' = ref \<and>
      (utf8_valid ref \<longrightarrow> meta_utf8 (MetaMap resp')) \<and>
      pool_ok (pc s') \<and> \<not> streamsClosed s' \<and> sendStream s' = sendStream s \<and> writeStream s' = writeStream s \<and>
      rand s' = rand s \<and> echo_post (Data p) (TargetFrom ctx) (echo_state s) resp' (echo_state s')"
    using r s
    by (intro exI [of _ CodeContinue] exI [of _ ?r] exI [of _ "s\<lparr>requestsServed := requestsServed s + 1\<rparr>"])
      (simp add: echo_state_def MetaGet_MetaMap gm_str_def meta_utf8_def)
qed (simp_all add: echo_state_def)

lemma unmarshalMsg_hello:
  "unmarshalMsg (CHR ''{'' # dquote # ''msg'' @ dquote # CHR '':'' # dquote # ''hello'' @ dquote # ''}'') = Some ''hello''"
proof -
  have "json_parse (CHR ''{'' # json_quote ''msg'' @ CHR '':'' # json_quote ''hello'' @ ''}'') = Some (JObj [(''msg'', JStr ''hello'')])"
    by (intro json_parse_string_member to_valid_ascii) simp_all
  then have "json_parse (CHR ''{'' # dquote # ''msg'' @ dquote # CHR '':'' # dquote # ''hello'' @ dquote # ''}'') =
      Some (JObj [(''msg'', JStr ''hello'')])"
    by (simp add: json_quote_plain html_safe_def)
  then show ?thesis
    by (simp add: unmarshalMsg_def unmarshal_string_def msgNames_def)
qed

lemma echo_request_ok:
  assumes "pool_ok c"
  shows "\<exists>req c'. echo_request c = Inr (Close req, c') \<and> pool_ok c' \<and> pkt_synced req \<and> dest req = exampleSvrAddr \<and>
    MetaMap req = [(KeyRef, ''''), (KeyTarget, TargetEcho)] \<and>
    Data req = CHR ''{'' # dquote # ''msg'' @ dquote # CHR '':'' # dquote # ''hello'' @ dquote # ''}''"
proof -
  obtain p c' where p: "NewPkt '''' exampleSvrAddr c = Inr (p, c')" "pkt_synced p" "pool_ok c'"
    "MetaMap p = [(KeyRef, '''')]" "Data p = []" "Dest p = exampleSvrAddr"
    using NewPkt_synced [OF assms] by blast
  obtain p1 where "MetaAdd KeyTarget TargetEcho p = Inr p1" "pkt_synced p1" "MetaMap p1 = [(KeyRef, ''''), (KeyTarget, TargetEcho)]"
    "buff p1 = []" "dest p1 = exampleSvrAddr"
    using MetaAdd_synced [OF p(2), of KeyTarget TargetEcho] p(4-6) by (auto simp: key_defs Data_def Dest_def)
  then show ?thesis
    using p(1,3)
    by (intro exI [of _ "Write _ p1"] exI [of _ c']) (simp add: echo_request_def Write_def Data_def)
qed

lemma makeRelayPkt_ok:
  assumes "pool_ok c"
  shows "\<exists>pkt c'. makeRelayPkt to' msg c = Inr (Close pkt, c') \<and> pool_ok c' \<and> pkt_synced pkt \<and> dest pkt = exampleSvrAddr \<and>
    MetaMap pkt = [(KeyRef, ''''), (KeyRelayTo, to'), (KeyTarget, TargetRelay)] \<and> Data pkt = msg"
proof -
  obtain p c' where p: "NewPkt '''' exampleSvrAddr c = Inr (p, c')" "pkt_synced p" "pool_ok c'"
    "MetaMap p = [(KeyRef, '''')]" "Data p = []" "Dest p = exampleSvrAddr"
    using NewPkt_synced [OF assms] by blast
  obtain p1 where p1: "MetaAdd KeyTarget TargetRelay p = Inr p1" "pkt_synced p1"
    "MetaMap p1 = [(KeyRef, ''''), (KeyTarget, TargetRelay)]" "buff p1 = []" "dest p1 = exampleSvrAddr"
    using MetaAdd_synced [OF p(2), of KeyTarget TargetRelay] p(4-6) by (auto simp: key_defs Data_def Dest_def)
  obtain p2 where "MetaAdd KeyRelayTo to' p1 = Inr p2" "pkt_synced p2"
    "MetaMap p2 = [(KeyRef, ''''), (KeyRelayTo, to'), (KeyTarget, TargetRelay)]" "buff p2 = []" "dest p2 = exampleSvrAddr"
    using MetaAdd_synced [OF p1(2), of KeyRelayTo to'] p1(3-5) by (auto simp: key_defs relay_keys)
  then show ?thesis
    using p(1,3) p1(1)
    by (intro exI [of _ "Write msg p2"] exI [of _ c']) (simp add: makeRelayPkt_def Write_def Data_def)
qed


text \<open>A closed packet after \<open>EncryptE2E\<close>.\<close>

lemma EncryptE2E_packet:
  assumes "pkt_synced p" and "keyed a z cr" and "aes_key_ok (big_Bytes z)" and "rand_ok r" and "length (Data p) \<le> 5000"
  shows "\<exists>e r'. EncryptE2E a p cr r = Inr (None, Close e, r') \<and> rand_ok r' \<and> pkt_synced e \<and> MetaMap e = MetaMap p \<and>
    dest e = dest p \<and> length (Data e) \<le> 10000 \<and> decryptAES (big_Bytes z) (Data e) = Inr (Data p, None)"
proof -
  obtain c r' where c: "EncryptE2E a p cr r = Inr (None, Close (Write c (Clear p)), r')" "rand_ok r'"
    "length c = length (Data p) + 28" "decryptAES (big_Bytes z) c = Inr (Data p, None)"
    using EncryptE2E_keyed [OF assms(2,3) _ assms(4), of p] assms(5) by (auto simp: gcm_limit_def)
  then show ?thesis
    using assms(1,5) by (intro exI [of _ "Write c (Clear p)"] exI [of _ r']) (simp add: Write_def Clear_def Data_def)
qed

lemma clientA_send_ok:
  fixes w :: "'z ClientState_scheme"
  assumes "ready w" and "keyed clientB_Addr z (crypto w)" and "aes_key_ok (big_Bytes z)"
  shows "\<exists>e w1. clientA_send c w = Send_prepare c (Close e) (Some 0) w1 \<and> ready w1 \<and> crypto w1 = crypto w \<and>
    pkt_synced e \<and> MetaMap e = [(KeyRef, ''''), (KeyRelayTo, clientB_Addr), (KeyTarget, TargetRelay)] \<and>
    dest e = exampleSvrAddr \<and> length (Data e) \<le> 10000 \<and>
    decryptAES (big_Bytes z) (Data e) = Inr (''super-secret-msg-from-A'', None)"
proof -
  obtain p pc' where p: "makeRelayPkt clientB_Addr ''super-secret-msg-from-A'' (cpc w) = Inr (Close p, pc')" "pool_ok pc'"
    "pkt_synced (Close p)" "dest (Close p) = exampleSvrAddr"
    "MetaMap (Close p) = [(KeyRef, ''''), (KeyRelayTo, clientB_Addr), (KeyTarget, TargetRelay)]"
    "Data (Close p) = ''super-secret-msg-from-A''"
    using makeRelayPkt_ok [of "cpc w"] assms(1) by (fastforce simp: ready_def Close_def Data_def)
  obtain e r' where "EncryptE2E clientB_Addr (Close p) (crypto w) (rand w) = Inr (None, Close e, r')" "rand_ok r'"
    "pkt_synced e" "MetaMap e = MetaMap (Close p)" "dest e = exampleSvrAddr" "length (Data e) \<le> 10000"
    "decryptAES (big_Bytes z) (Data e) = Inr (''super-secret-msg-from-A'', None)"
    using EncryptE2E_packet [OF p(3) assms(2,3), of "rand w"] assms(1) p(4,6) by (auto simp: ready_def)
  then show ?thesis
    using p(1,2,5) by (intro exI [of _ e] exI [of _ "w\<lparr>cpc := pc', rand := r'\<rparr>"]) (simp add: clientA_send_def ready_def)
qed

lemma clientB_listen_ok:
  fixes w :: "'z ClientState_scheme"
  assumes "ready w" and "keyed clientA_Addr z (crypto w)" and "aes_key_ok (big_Bytes z)"
    and d: "pkt_synced d" "MetaGet KeyRelayFrom d = clientA_Addr" "MetaGet KeyRef d = ref"
    "decryptAES (big_Bytes z) (Data d) = Inr (msg, None)"
  shows "\<exists>e w1. clientB_listen c d w = gbind (Send_prepare c (Close e) None w1) (\<lambda>res. Inr (Some (msg, res))) \<and>
    ready w1 \<and> crypto w1 = crypto w \<and>
    pkt_synced e \<and> MetaMap e = [(KeyRef, ref), (KeyRelayTo, clientA_Addr), (KeyTarget, TargetRelay)] \<and>
    dest e = exampleSvrAddr \<and> length (Data e) \<le> 10000 \<and>
    decryptAES (big_Bytes z) (Data e) = Inr (''super-secret-msg-from-B'', None)"
proof -
  obtain d' where d': "DecryptE2E clientA_Addr d (crypto w) = Inr (None, d')" "Data d' = msg" "MetaGet KeyRef d' = ref"
    using assms(2) d(3,4)
    by (auto simp: keyed_def DecryptE2E_def DecryptFrom_def getKeyStore_def Data_def Close_def Write_def Clear_def MetaGet_MetaMap)
  obtain p pc' where p: "makeRelayPkt clientA_Addr ''super-secret-msg-from-B'' (cpc w) = Inr (p, pc')" "pool_ok pc'"
    "pkt_synced p" "dest p = exampleSvrAddr"
    "MetaMap p = [(KeyRef, ''''), (KeyRelayTo, clientA_Addr), (KeyTarget, TargetRelay)]" "Data p = ''super-secret-msg-from-B''"
    using makeRelayPkt_ok [of "cpc w"] assms(1) by (fastforce simp: ready_def Close_def Data_def)
  obtain p1 where p1: "MetaAdd KeyRef ref p = Inr p1" "pkt_synced p1" "dest p1 = exampleSvrAddr" "Data p1 = ''super-secret-msg-from-B''"
    "MetaMap p1 = [(KeyRef, ref), (KeyRelayTo, clientA_Addr), (KeyTarget, TargetRelay)]"
    using MetaAdd_synced [OF p(3), of KeyRef ref] p(4-6) by (auto simp: Data_def)
  obtain e r' where "EncryptE2E clientA_Addr p1 (crypto w) (rand w) = Inr (None, Close e, r')" "rand_ok r'"
    "pkt_synced e" "MetaMap e = MetaMap p1" "dest e = exampleSvrAddr" "length (Data e) \<le> 10000"
    "decryptAES (big_Bytes z) (Data e) = Inr (''super-secret-msg-from-B'', None)"
    using EncryptE2E_packet [OF p1(2) assms(2,3), of "rand w"] assms(1) p1(3,4) by (auto simp: ready_def)
  then show ?thesis
    using d(2) d' p(1,2) p1(1,5)
    by (intro exI [of _ e] exI [of _ "w\<lparr>cpc := pc', rand := r'\<rparr>"]) (simp add: clientB_listen_def ready_def)
qed

end
