(* ===== verification/Load_Client.thy ===== *)
theory Load_Client
  imports Examples
begin

text \<open>
  The load client (\<open>src/examples/echo/load-client\<close>): one client shared by many goroutines, each of which
  sends a request and waits for its response, a collector that counts completions, and \<open>main\<close>, which
  waits for all of them.

  The program is composed with the client's own goroutines. A step is one action of one goroutine; an
  action that cannot proceed is \<open>None\<close>. The goroutine with index \<open>k\<close> makes the response channel \<open>k\<close>. A
  panic in any goroutine ends the program.
\<close>

section \<open>The program\<close>

text \<open>The flags are Go's \<open>int\<close>, 64 bits wide.\<close>

record Flags =
  requestsPerClient :: "64 word"
  numClients :: "64 word"

definition default_flags :: Flags where
  "default_flags = \<lparr>requestsPerClient = 1000, numClients = 1\<rparr>"

definition totalRequests :: "Flags \<Rightarrow> 64 word" where
  "totalRequests f = requestsPerClient f * numClients f"

text \<open>Where the goroutine of a request is: composing the request, inside \<open>Send\<close>, waiting for the
  response, reporting its completion, or returned; and where the goroutine of a client is: launching
  requests, so many so far, and then waiting for them, or returned.\<close>

datatype stage = Compose | Sending | Waiting | Report | Finished

datatype launcher = Launching nat | LauncherDone

record 'w LoadState =
  lrun :: "'w ClientRun"
  launchers :: "launcher list"
  goroutines :: "(nat \<times> stage) list"   \<comment> \<open>of which client, and where\<close>
  completed :: "64 word"
  collecting :: bool
  mainDone :: bool
  llog :: "(int \<times> int) list"   \<comment> \<open>the collector's lines\<close>

text \<open>\<open>main\<close> up to its loop; \<open>None\<close> is the fatal exit. \<open>oracle\<close> is the choice of the pool.\<close>

definition load_start ::
  "string option \<Rightarrow> int \<Rightarrow> nat list \<Rightarrow> 'z ClientState_scheme \<Rightarrow>
     ('z ClientState_scheme UDPClient \<times> 'z ClientState_scheme LoadState) option go" where
  "load_start listen now oracle w =
     gbind (example_client listen now oracle w) (\<lambda>res.
       Inr (map_option (\<lambda>(c, m).
         (c, \<lparr>lrun = m, launchers = [], goroutines = [], completed = 1, collecting = True, mainDone = False, llog = []\<rparr>))
         res))"

definition alive :: "'w LoadState \<Rightarrow> bool" where
  "alive s \<longleftrightarrow> cpanic (lrun s) = None \<and> \<not> mainDone s"

definition launch_client :: "Flags \<Rightarrow> 'w LoadState \<Rightarrow> 'w LoadState option" where
  "launch_client f s =
     (if alive s \<and> int (length (launchers s)) < sint (numClients f)
      then Some (s\<lparr>launchers := launchers s @ [Launching 0]\<rparr>) else None)"

definition launch_request :: "Flags \<Rightarrow> nat \<Rightarrow> 'w LoadState \<Rightarrow> 'w LoadState option" where
  "launch_request f i s =
     (if alive s \<and> i < length (launchers s)
      then case launchers s ! i of
          Launching r \<Rightarrow>
            if int r < sint (requestsPerClient f)
            then Some (s\<lparr>launchers := (launchers s)[i := Launching (Suc r)], goroutines := goroutines s @ [(i, Compose)]\<rparr>)
            else None
        | LauncherDone \<Rightarrow> None
      else None)"

definition set_stage :: "nat \<Rightarrow> stage \<Rightarrow> 'w LoadState \<Rightarrow> 'w LoadState" where
  "set_stage k st s = s\<lparr>goroutines := (goroutines s)[k := (fst (goroutines s ! k), st)]\<rparr>"

definition at_stage :: "nat \<Rightarrow> stage \<Rightarrow> 'w LoadState \<Rightarrow> bool" where
  "at_stage k st s \<longleftrightarrow> k < length (goroutines s) \<and> snd (goroutines s ! k) = st"

text \<open>Composing the request and calling \<open>Send\<close>, whose error is ignored.\<close>

definition request_send ::
  "'z ClientState_scheme UDPClient \<Rightarrow> nat \<Rightarrow> 'z ClientState_scheme LoadState \<Rightarrow> 'z ClientState_scheme LoadState option" where
  "request_send c k s =
     (if alive s \<and> at_stage k Compose s
      then case echo_request (cpc (cworld (lrun s))) of
          Inl p \<Rightarrow> Some (set_stage k Sending (s\<lparr>lrun := crash p (lrun s)\<rparr>))
        | Inr (req, pc') \<Rightarrow>
            map_option (\<lambda>m. set_stage k Sending (s\<lparr>lrun := m\<rparr>))
              (Send c req (Some k) ((lrun s)\<lparr>cworld := (cworld (lrun s))\<lparr>cpc := pc'\<rparr>\<rparr>))
      else None)"

text \<open>A call of \<open>Send\<close> has returned when it is past the request table.\<close>

definition Send_returned :: "nat \<Rightarrow> 'w ClientRun \<Rightarrow> bool" where
  "Send_returned k m \<longleftrightarrow>
     list_all (\<lambda>h. cpCh (fst h) \<noteq> Some k) (handing m) \<and> list_all (\<lambda>r. snd r \<noteq> Some k) (registering m)"

definition request_sent :: "nat \<Rightarrow> 'w LoadState \<Rightarrow> 'w LoadState option" where
  "request_sent k s =
     (if alive s \<and> at_stage k Sending s \<and> Send_returned k (lrun s) then Some (set_stage k Waiting s) else None)"

text \<open>The response, or the client's report of a failed write, is received on the channel.\<close>

definition offers :: "nat \<Rightarrow> 'w ClientRun \<Rightarrow> 'w ClientRun \<Rightarrow> bool" where
  "offers k m m' \<longleftrightarrow>
     (\<exists>i. i < length (delivering m) \<and> fst (delivering m ! i) = Some k \<and> deliver i m = Some m') \<or>
     (\<exists>p. cwriter m = WReport k p \<and> write_report m = Some m')"

definition request_report :: "Flags \<Rightarrow> nat \<Rightarrow> 'w LoadState \<Rightarrow> 'w LoadState option" where
  "request_report f k s =
     (if alive s \<and> at_stage k Report s \<and> collecting s \<and> sint (completed s) \<le> sint (totalRequests f)
      then Some (set_stage k Finished (s\<lparr>completed := completed s + 1,
        llog := llog s @ [(sint (completed s), sint (requestsPerClient f))]\<rparr>)) else None)"

definition collector_finish :: "Flags \<Rightarrow> 'w LoadState \<Rightarrow> 'w LoadState option" where
  "collector_finish f s =
     (if alive s \<and> collecting s \<and> \<not> sint (completed s) \<le> sint (totalRequests f)
      then Some (s\<lparr>collecting := False\<rparr>) else None)"

definition launcher_finish :: "Flags \<Rightarrow> nat \<Rightarrow> 'w LoadState \<Rightarrow> 'w LoadState option" where
  "launcher_finish f i s =
     (if alive s \<and> i < length (launchers s)
      then case launchers s ! i of
          Launching r \<Rightarrow>
            if \<not> int r < sint (requestsPerClient f) \<and> list_all (\<lambda>(j, st). j = i \<longrightarrow> st = Finished) (goroutines s)
            then Some (s\<lparr>launchers := (launchers s)[i := LauncherDone]\<rparr>) else None
        | LauncherDone \<Rightarrow> None
      else None)"

definition main_return :: "Flags \<Rightarrow> 'w LoadState \<Rightarrow> 'w LoadState option" where
  "main_return f s =
     (if alive s \<and> \<not> int (length (launchers s)) < sint (numClients f) \<and> \<not> collecting s \<and>
         list_all (\<lambda>l. l = LauncherDone) (launchers s)
      then Some (s\<lparr>mainDone := True\<rparr>) else None)"

text \<open>The client's goroutines: everything but the calls of its user and the receipt of packets.\<close>

inductive background_step ::
  "'z ClientState_scheme UDPClient \<Rightarrow> 'z ClientState_scheme ClientRun \<Rightarrow> 'z ClientState_scheme ClientRun \<Rightarrow> bool"
  for c where
  bs_throttle: "th_step (cth m) t \<Longrightarrow> own_step (cth m) t \<Longrightarrow> background_step c m (m\<lparr>cth := t\<rparr>)"
| bs_register: "Send_register i m = Some m' \<Longrightarrow> background_step c m m'"
| bs_take: "write_take c m = Some m' \<Longrightarrow> background_step c m m'"
| bs_answer: "write_answer m = Some m' \<Longrightarrow> background_step c m m'"
| bs_recv: "recv_packet m = Some m' \<Longrightarrow> background_step c m m'"
| bs_process: "process_packet c i m = Some m' \<Longrightarrow> background_step c m m'"
| bs_delete: "delete_request i m = Some m' \<Longrightarrow> background_step c m m'"

text \<open>A step of the whole; the flag tells the program's own steps from those of the client.\<close>

inductive load_step ::
  "Flags \<Rightarrow> 'z ClientState_scheme UDPClient \<Rightarrow> bool \<Rightarrow> 'z ClientState_scheme LoadState \<Rightarrow>
     'z ClientState_scheme LoadState \<Rightarrow> bool" for f c where
  ls_client: "alive s \<Longrightarrow> background_step c (lrun s) m \<Longrightarrow> load_step f c False s (s\<lparr>lrun := m\<rparr>)"
| ls_launch_client: "launch_client f s = Some s' \<Longrightarrow> load_step f c True s s'"
| ls_launch_request: "launch_request f i s = Some s' \<Longrightarrow> load_step f c True s s'"
| ls_send: "request_send c k s = Some s' \<Longrightarrow> load_step f c True s s'"
| ls_sent: "request_sent k s = Some s' \<Longrightarrow> load_step f c True s s'"
| ls_receive: "alive s \<Longrightarrow> at_stage k Waiting s \<Longrightarrow> offers k (lrun s) m \<Longrightarrow>
    load_step f c True s (set_stage k Report (s\<lparr>lrun := m\<rparr>))"
| ls_report: "request_report f k s = Some s' \<Longrightarrow> load_step f c True s s'"
| ls_collector: "collector_finish f s = Some s' \<Longrightarrow> load_step f c True s s'"
| ls_launcher: "launcher_finish f i s = Some s' \<Longrightarrow> load_step f c True s s'"
| ls_return: "main_return f s = Some s' \<Longrightarrow> load_step f c True s s'"

text \<open>An execution, with the number of the program's own steps.\<close>

inductive load_run ::
  "Flags \<Rightarrow> 'z ClientState_scheme UDPClient \<Rightarrow> nat \<Rightarrow> 'z ClientState_scheme LoadState \<Rightarrow>
     'z ClientState_scheme LoadState \<Rightarrow> bool" for f c where
  lr_start: "load_run f c 0 s s"
| lr_step: "load_run f c n s s' \<Longrightarrow> load_step f c own s' s'' \<Longrightarrow> load_run f c (n + of_bool own) s s''"

section \<open>The work that is left\<close>

definition per_client :: "Flags \<Rightarrow> nat" where "per_client f = nat (sint (requestsPerClient f))"
definition client_count :: "Flags \<Rightarrow> nat" where "client_count f = nat (sint (numClients f))"

fun stage_work :: "stage \<Rightarrow> nat" where
  "stage_work Compose = 4"
| "stage_work Sending = 3"
| "stage_work Waiting = 2"
| "stage_work Report = 1"
| "stage_work Finished = 0"

fun launcher_work :: "nat \<Rightarrow> launcher \<Rightarrow> nat" where
  "launcher_work n (Launching r) = 5 * (n - r) + 1"
| "launcher_work n LauncherDone = 0"

definition work :: "Flags \<Rightarrow> 'w LoadState \<Rightarrow> nat" where
  "work f s = (client_count f - length (launchers s)) * (5 * per_client f + 2) + sum_list (map (launcher_work (per_client f)) (launchers s)) +
     sum_list (map (stage_work \<circ> snd) (goroutines s)) + of_bool (collecting s) + of_bool (\<not> mainDone s)"

lemma sum_list_change:
  fixes g :: "'a \<Rightarrow> nat"
  shows "i < length xs \<Longrightarrow> g (xs ! i) = g y + d \<Longrightarrow> sum_list (map g xs) = sum_list (map g (xs[i := y])) + d"
  by (induction xs arbitrary: i) (auto simp: nth_Cons' split: nat.splits)

lemma set_stage_work:
  assumes "at_stage k st s" and "stage_work st = Suc (stage_work st')"
  shows "work f s = Suc (work f (set_stage k st' s))"
  using assms sum_list_change [of k "goroutines s" "stage_work \<circ> snd" "(fst (goroutines s ! k), st')" 1]
  by (simp add: work_def set_stage_def at_stage_def)

lemma work_lrun [simp]: "work f (s\<lparr>lrun := m\<rparr>) = work f s"
  by (simp add: work_def)

lemma own_work:
  assumes "load_step f c own s s'"
  shows "work f s = work f s' + of_bool own"
  using assms
proof cases
  case ls_launch_client
  then have "client_count f - length (launchers s) = Suc (client_count f - length (launchers s'))"
    and s': "s' = s\<lparr>launchers := launchers s @ [Launching 0]\<rparr>" and own
    by (auto simp: launch_client_def client_count_def split: if_splits)
  then show ?thesis
    by (simp add: work_def)
next
  case (ls_launch_request i)
  then obtain r where r: "i < length (launchers s)" "launchers s ! i = Launching r" "r < per_client f" and own
    and s': "s' = s\<lparr>launchers := (launchers s)[i := Launching (Suc r)], goroutines := goroutines s @ [(i, Compose)]\<rparr>"
    by (auto simp: launch_request_def per_client_def split: if_splits launcher.splits)
  then show ?thesis
    using sum_list_change [of i "launchers s" "launcher_work (per_client f)" "Launching (Suc r)" 5]
    by (simp add: work_def)
next
  case (ls_launcher i)
  then obtain r where "i < length (launchers s)" "launchers s ! i = Launching r" "per_client f \<le> r" and own
    and s': "s' = s\<lparr>launchers := (launchers s)[i := LauncherDone]\<rparr>"
    by (auto simp: launcher_finish_def per_client_def split: if_splits launcher.splits)
  then show ?thesis
    using sum_list_change [of i "launchers s" "launcher_work (per_client f)" LauncherDone 1]
    by (simp add: work_def)
next
  case (ls_send k)
  then obtain m where "at_stage k Compose s" "s' = set_stage k Sending (s\<lparr>lrun := m\<rparr>)" own
    by (auto simp: request_send_def split: if_splits sum.splits)
  then show ?thesis
    using set_stage_work [of k Compose "s\<lparr>lrun := m\<rparr>" Sending] by (simp add: at_stage_def)
next
  case (ls_sent k)
  then show ?thesis
    using set_stage_work [of k Sending s Waiting] by (auto simp: request_sent_def split: if_splits)
next
  case (ls_receive k m)
  then show ?thesis
    using set_stage_work [of k Waiting "s\<lparr>lrun := m\<rparr>" Report] by (simp add: at_stage_def)
next
  case (ls_report k)
  then obtain n l where "at_stage k Report s" "s' = set_stage k Finished (s\<lparr>completed := n, llog := l\<rparr>)" own
    by (auto simp: request_report_def split: if_splits)
  then show ?thesis
    using set_stage_work [of k Report "s\<lparr>completed := n, llog := l\<rparr>" Finished] by (simp add: at_stage_def work_def)
qed (auto simp: collector_finish_def main_return_def alive_def work_def split: if_splits)

lemma run_work: "load_run f c n s s' \<Longrightarrow> work f s = n + work f s'"
  by (induction rule: load_run.induct) (auto dest: own_work)

section \<open>The invariant\<close>

text \<open>
  Every client goroutine has as many requests as it launched, those of one that returned are finished;
  the collector counted the finished requests and logged one line for each; it stopped only when it had
  all of them; and \<open>main\<close> returned only when everybody had.
\<close>

definition of_client :: "nat \<Rightarrow> 'w LoadState \<Rightarrow> nat" where
  "of_client i s = length (filter (\<lambda>g. fst g = i) (goroutines s))"

definition finished :: "'w LoadState \<Rightarrow> nat" where
  "finished s = length (filter (\<lambda>g. snd g = Finished) (goroutines s))"

definition launcher_ok :: "Flags \<Rightarrow> 'w LoadState \<Rightarrow> nat \<Rightarrow> bool" where
  "launcher_ok f s i \<longleftrightarrow>
     (case launchers s ! i of
        Launching r \<Rightarrow> r \<le> per_client f \<and> of_client i s = r
      | LauncherDone \<Rightarrow> of_client i s = per_client f \<and> list_all (\<lambda>(j, st). j = i \<longrightarrow> st = Finished) (goroutines s))"

definition collected :: "Flags \<Rightarrow> 'w LoadState \<Rightarrow> bool" where
  "collected f s \<longleftrightarrow>
     completed s = of_nat (Suc (finished s)) \<and>
     llog s = map (\<lambda>n. (int n, sint (requestsPerClient f))) [1..<Suc (finished s)] \<and>
     (collecting s \<or> \<not> sint (completed s) \<le> sint (totalRequests f))"

definition load_inv :: "Flags \<Rightarrow> 'w LoadState \<Rightarrow> bool" where
  "load_inv f s \<longleftrightarrow>
     length (launchers s) \<le> client_count f \<and> (\<forall>i < length (launchers s). launcher_ok f s i) \<and>
     list_all (\<lambda>g. fst g < length (launchers s)) (goroutines s) \<and> collected f s \<and>
     (mainDone s \<longrightarrow> \<not> collecting s \<and> length (launchers s) = client_count f \<and> list_all (\<lambda>l. l = LauncherDone) (launchers s))"

text \<open>The flags for which the number of requests is what it should be.\<close>

definition sane :: "Flags \<Rightarrow> bool" where
  "sane f \<longleftrightarrow> 0 \<le> sint (requestsPerClient f) \<and> 0 \<le> sint (numClients f) \<and>
     sint (requestsPerClient f) * sint (numClients f) < 2 ^ 63 - 1"

lemma sane_total:
  assumes "sane f"
  shows "sint (totalRequests f) = int (per_client f * client_count f)" and "int (per_client f * client_count f) < 2 ^ 63 - 1"
proof -
  let ?n = "sint (requestsPerClient f) * sint (numClients f)"
  have "0 \<le> ?n" "?n < 2 ^ 63"
    using assms by (simp_all add: sane_def)
  then have "signed_take_bit 63 ?n = ?n"
    by (intro signed_take_bit_int_eq_self) simp_all
  then show "sint (totalRequests f) = int (per_client f * client_count f)"
    using assms
    by (simp add: sane_def totalRequests_def per_client_def client_count_def sint_word_ariths)
  show "int (per_client f * client_count f) < 2 ^ 63 - 1"
    using assms by (simp add: sane_def per_client_def client_count_def)
qed

lemma goroutines_counted:
  fixes gs :: "(nat \<times> 'b) list"
  assumes "list_all (\<lambda>g. fst g < n) gs"
  shows "length gs = (\<Sum>i<n. length (filter (\<lambda>g. fst g = i) gs))"
  using assms
proof (induction gs)
  case (Cons g gs)
  then have "(\<Sum>i<n. length (filter (\<lambda>h. fst h = i) (g # gs))) =
      (\<Sum>i<n. of_bool (i = fst g) + length (filter (\<lambda>h. fst h = i) gs))"
    by (intro sum.cong) auto
  also have "\<dots> = 1 + length gs"
    using Cons by (simp add: sum.distrib of_bool_def)
  finally show ?case by simp
qed simp

lemma launcher_ok_le: "launcher_ok f s i \<Longrightarrow> of_client i s \<le> per_client f"
  by (cases "launchers s ! i") (simp_all add: launcher_ok_def)

lemma load_inv_counts:
  assumes "load_inv f s"
  shows "length (goroutines s) \<le> per_client f * client_count f" and "finished s \<le> length (goroutines s)"
proof -
  let ?n = "length (launchers s)"
  have "length (goroutines s) = (\<Sum>i<?n. of_client i s)"
    using assms goroutines_counted [of ?n "goroutines s"] by (simp add: load_inv_def of_client_def)
  also have "\<dots> \<le> (\<Sum>i<?n. per_client f)"
    using assms by (intro sum_mono launcher_ok_le) (simp add: load_inv_def)
  also have "\<dots> \<le> per_client f * client_count f"
    using assms by (simp add: load_inv_def)
  finally show "length (goroutines s) \<le> per_client f * client_count f" .
qed (simp add: finished_def)

lemma load_inv_completed:
  assumes "load_inv f s" and "sane f"
  shows "sint (completed s) = int (finished s) + 1"
proof -
  have "int (finished s) + 1 < 2 ^ 63"
    using load_inv_counts [OF assms(1)] sane_total(2) [OF assms(2)] by linarith
  then have "sint (word_of_int (int (finished s) + 1) :: 64 word) = int (finished s) + 1"
    by (intro sint_word_of_int64) simp_all
  then show ?thesis
    using assms(1) by (simp add: load_inv_def collected_def add.commute)
qed

lemma collected_cong:
  "completed s' = completed s \<Longrightarrow> llog s' = llog s \<Longrightarrow> collecting s' = collecting s \<Longrightarrow> finished s' = finished s \<Longrightarrow>
     collected f s' = collected f s"
  by (simp add: collected_def)

lemma collected_frame [simp]:
  "collected f (s\<lparr>lrun := m\<rparr>) = collected f s" "collected f (s\<lparr>launchers := ls\<rparr>) = collected f s"
  "collected f (s\<lparr>launchers := ls, goroutines := goroutines s @ [(i, Compose)]\<rparr>) = collected f s"
  "collected f (s\<lparr>mainDone := b\<rparr>) = collected f s"
  by (rule collected_cong; simp add: finished_def)+

lemma set_stage_owner:
  "map fst (goroutines (set_stage k st s)) = map fst (goroutines s)"
  by (cases "k < length (goroutines s)") (simp_all add: set_stage_def map_update list_update_same_conv list_update_beyond)

lemma of_client_owners: "of_client i s = length (filter (\<lambda>j. j = i) (map fst (goroutines s)))"
  by (simp add: of_client_def filter_map o_def)

lemma owners_below: "list_all (\<lambda>g. fst g < n) gs \<longleftrightarrow> list_all (\<lambda>j. j < n) (map fst gs)"
  by (simp add: list_all_iff)

lemma set_stage_frame [simp]:
  "launchers (set_stage k st s) = launchers s" "completed (set_stage k st s) = completed s"
  "collecting (set_stage k st s) = collecting s" "mainDone (set_stage k st s) = mainDone s"
  "llog (set_stage k st s) = llog s" "lrun (set_stage k st s) = lrun s"
  by (simp_all add: set_stage_def)

lemma set_stage_ok:
  assumes "at_stage k st s" and "st \<noteq> Finished" and "launcher_ok f s i"
  shows "launcher_ok f (set_stage k st' s) i"
proof (cases "launchers s ! i")
  case (Launching r)
  then show ?thesis
    using assms(3) by (simp add: launcher_ok_def of_client_owners set_stage_owner)
next
  case LauncherDone
  let ?P = "\<lambda>(j, st). j = i \<longrightarrow> st = Finished"
  have all: "list_all ?P (goroutines s)" "of_client i s = per_client f"
    using assms(3) LauncherDone by (simp_all add: launcher_ok_def)
  then have "fst (goroutines s ! k) \<noteq> i"
    using assms(1,2) by (auto simp: at_stage_def list_all_length split: prod.splits)
  then have "?P (fst (goroutines s ! k), st')"
    by simp
  then have "list_all ?P (goroutines (set_stage k st' s))"
    using all(1) set_update_subset_insert [of "goroutines s" k "(fst (goroutines s ! k), st')"]
    unfolding set_stage_def list_all_iff by auto
  then show ?thesis
    using all(2) LauncherDone by (simp add: launcher_ok_def of_client_owners set_stage_owner)
qed

lemma finished_sum: "finished s = sum_list (map (\<lambda>g. of_bool (snd g = Finished)) (goroutines s))"
proof -
  have "length (filter P xs) = sum_list (map (\<lambda>x. of_bool (P x)) xs)" for P and xs :: "(nat \<times> stage) list"
    by (induction xs) auto
  then show ?thesis
    by (simp add: finished_def)
qed

lemma set_stage_finished:
  assumes "at_stage k st s" and "st \<noteq> Finished"
  shows "finished (set_stage k st' s) = finished s + of_bool (st' = Finished)"
proof -
  let ?g = "\<lambda>g :: nat \<times> stage. of_bool (snd g = Finished) :: nat"
  let ?xs = "goroutines s" and ?y = "(fst (goroutines s ! k), st')"
  have k: "k < length ?xs" "snd (?xs ! k) = st"
    using assms(1) by (simp_all add: at_stage_def)
  have "sum_list (map ?g (?xs[k := ?y])) = sum_list (map ?g (?xs[k := ?y, k := ?xs ! k])) + of_bool (st' = Finished)"
    by (rule sum_list_change) (use k assms(2) in simp_all)
  then show ?thesis
    by (simp add: finished_sum set_stage_def)
qed

lemma load_inv_stage:
  assumes "load_inv f s" and "at_stage k st s" and "st \<noteq> Finished" and "st' \<noteq> Finished"
  shows "load_inv f (set_stage k st' s)"
  using assms set_stage_ok [OF assms(2,3)] set_stage_finished [OF assms(2,3), of st']
    collected_cong [of "set_stage k st' s" s f]
  by (simp add: load_inv_def owners_below set_stage_owner)

lemma load_inv_lrun [simp]: "load_inv f (s\<lparr>lrun := m\<rparr>) = load_inv f s"
  by (simp add: load_inv_def launcher_ok_def of_client_def cong: launcher.case_cong)

lemma launcher_ok_frame [simp]:
  "launcher_ok f (s\<lparr>collecting := b\<rparr>) i = launcher_ok f s i" "launcher_ok f (s\<lparr>mainDone := b\<rparr>) i = launcher_ok f s i"
  by (simp_all add: launcher_ok_def of_client_def cong: launcher.case_cong)

lemma load_inv_launch_client:
  assumes "load_inv f s" and "launch_client f s = Some s'"
  shows "load_inv f s'"
proof -
  have s': "s' = s\<lparr>launchers := launchers s @ [Launching 0]\<rparr>" and "length (launchers s) < client_count f" "\<not> mainDone s"
    using assms(2) by (auto simp: launch_client_def client_count_def alive_def split: if_splits)
  moreover have "launcher_ok f s' i" if "i < Suc (length (launchers s))" for i
  proof (cases "i = length (launchers s)")
    case True
    then have "filter (\<lambda>g. fst g = i) (goroutines s) = []"
      using assms(1) by (auto simp: load_inv_def filter_empty_conv list_all_iff)
    then show ?thesis
      using True by (simp add: s' launcher_ok_def of_client_def)
  next
    case False
    then have "i < length (launchers s)"
      using that by simp
    then show ?thesis
      using assms(1) by (simp add: s' load_inv_def launcher_ok_def of_client_def nth_append cong: launcher.case_cong)
  qed
  moreover have "list_all (\<lambda>g. fst g < Suc (length (launchers s))) (goroutines s)"
    using assms(1) by (auto simp: load_inv_def list_all_iff)
  ultimately show ?thesis
    using assms(1) by (simp add: load_inv_def)
qed

lemma load_inv_launch_request:
  assumes "load_inv f s" and "launch_request f i s = Some s'"
  shows "load_inv f s'"
proof -
  obtain r where r: "launchers s ! i = Launching r" "i < length (launchers s)" "Suc r \<le> per_client f" "\<not> mainDone s"
    and s': "s' = s\<lparr>launchers := (launchers s)[i := Launching (Suc r)], goroutines := goroutines s @ [(i, Compose)]\<rparr>"
    using assms(2) by (auto simp: launch_request_def per_client_def alive_def split: if_splits launcher.splits)
  have "launcher_ok f s' j" if j: "j < length (launchers s)" for j
  proof -
    have "launcher_ok f s j" "launcher_ok f s i"
      using assms(1) j r(2) by (simp_all add: load_inv_def)
    then show ?thesis
      using r j by (cases "j = i") (auto simp: s' launcher_ok_def of_client_def split: launcher.splits)
  qed
  then show ?thesis
    using assms(1) r(2,4) by (simp add: s' load_inv_def)
qed

lemma load_inv_launcher:
  assumes "load_inv f s" and "launcher_finish f i s = Some s'"
  shows "load_inv f s'"
proof -
  obtain r where r: "launchers s ! i = Launching r" "i < length (launchers s)" "per_client f \<le> r" "\<not> mainDone s"
    "list_all (\<lambda>(j, st). j = i \<longrightarrow> st = Finished) (goroutines s)" and s': "s' = s\<lparr>launchers := (launchers s)[i := LauncherDone]\<rparr>"
    using assms(2) by (auto simp: launcher_finish_def per_client_def alive_def split: if_splits launcher.splits)
  have "launcher_ok f s' j" if j: "j < length (launchers s)" for j
  proof -
    have "launcher_ok f s j" "launcher_ok f s i"
      using assms(1) j r(2) by (simp_all add: load_inv_def)
    then show ?thesis
      using r j by (cases "j = i") (auto simp: s' launcher_ok_def of_client_def split: launcher.splits)
  qed
  then show ?thesis
    using assms(1) r(2,4) by (simp add: s' load_inv_def)
qed

lemma load_inv_report:
  assumes "load_inv f s" and "sane f" and "request_report f k s = Some s'"
  shows "load_inv f s'"
proof -
  let ?s = "s\<lparr>completed := completed s + 1, llog := llog s @ [(sint (completed s), sint (requestsPerClient f))]\<rparr>"
  have k: "at_stage k Report s" "collecting s" "\<not> mainDone s" and s': "s' = set_stage k Finished ?s"
    using assms(3) by (auto simp: request_report_def alive_def split: if_splits)
  have "at_stage k Report ?s" "finished ?s = finished s"
    using k(1) by (simp_all add: at_stage_def finished_def)
  then have fin: "finished s' = Suc (finished s)"
    using set_stage_finished [of k Report ?s Finished] by (simp add: s')
  have "launcher_ok f ?s i = launcher_ok f s i" for i
    by (simp add: launcher_ok_def of_client_def cong: launcher.case_cong)
  then have "launcher_ok f s' i" if "i < length (launchers s)" for i
    using set_stage_ok [OF \<open>at_stage k Report ?s\<close>, of f i Finished] assms(1) that by (simp add: s' load_inv_def)
  moreover have "collected f s'"
    using assms(1) load_inv_completed [OF assms(1,2)] k(2) fin by (simp add: s' load_inv_def collected_def)
  ultimately show ?thesis
    using assms(1) k(3) by (simp add: s' load_inv_def owners_below set_stage_owner)
qed

lemma load_inv_step:
  assumes "sane f" and "load_inv f s" and "load_step f c own s s'"
  shows "load_inv f s'"
  using assms(3)
proof cases
  case (ls_send k)
  then obtain m where "at_stage k Compose s" "s' = set_stage k Sending (s\<lparr>lrun := m\<rparr>)"
    by (auto simp: request_send_def split: if_splits sum.splits)
  then show ?thesis
    using assms(2) load_inv_stage [of f "s\<lparr>lrun := m\<rparr>" k Compose Sending] by (simp add: at_stage_def)
next
  case (ls_sent k)
  then show ?thesis
    using assms(2) load_inv_stage [of f s k Sending Waiting] by (auto simp: request_sent_def split: if_splits)
next
  case (ls_receive k m)
  then show ?thesis
    using assms(2) load_inv_stage [of f "s\<lparr>lrun := m\<rparr>" k Waiting Report] by (simp add: at_stage_def)
next
  case ls_collector
  then show ?thesis
    using assms(2)
    by (auto simp: collector_finish_def alive_def load_inv_def collected_def finished_def split: if_splits)
next
  case ls_return
  then show ?thesis
    using assms(2)
    by (auto simp: main_return_def alive_def load_inv_def client_count_def split: if_splits)
qed (use assms(1,2) in \<open>auto intro: load_inv_launch_client load_inv_launch_request load_inv_launcher load_inv_report\<close>)

interpretation load: transition_invariant "\<lambda>s. sane f \<and> load_inv f s" "\<lambda>s s'. \<exists>own. load_step f c own s s'"
  "\<lambda>s. sane f \<and> load_inv f s" for f and c :: "'z ClientState_scheme UDPClient"
  by unfold_locales (auto intro: load_inv_step)

section \<open>The program returns\<close>

lemma Send_total: "cpanic m = None \<Longrightarrow> \<exists>m'. Send c pkt ch m = Some m'"
  by (cases "Send_prepare c pkt ch (cworld m)") (auto simp: Send_def split: sum.split prod.split)

lemma request_send_total:
  assumes "alive s" and "at_stage k Compose s"
  shows "\<exists>s'. request_send c k s = Some s'"
proof (cases "echo_request (cpc (cworld (lrun s)))")
  case (Inr x)
  obtain req pc' where x: "x = (req, pc')"
    by fastforce
  have "cpanic ((lrun s)\<lparr>cworld := (cworld (lrun s))\<lparr>cpc := pc'\<rparr>\<rparr>) = None"
    using assms(1) by (simp add: alive_def)
  from Send_total [OF this] obtain m where "Send c req (Some k) ((lrun s)\<lparr>cworld := (cworld (lrun s))\<lparr>cpc := pc'\<rparr>\<rparr>) = Some m"
    by blast
  then show ?thesis
    using assms Inr x by (simp add: request_send_def)
qed (use assms in \<open>simp add: request_send_def\<close>)

lemma all_done_counts:
  assumes "load_inv f s" and "list_all (\<lambda>l. l = LauncherDone) (launchers s)" and "length (launchers s) = client_count f"
  shows "length (goroutines s) = per_client f * client_count f" and "\<forall>g \<in> set (goroutines s). snd g = Finished"
proof -
  have done': "of_client i s = per_client f \<and> list_all (\<lambda>(j, st). j = i \<longrightarrow> st = Finished) (goroutines s)"
    if "i < length (launchers s)" for i
    using assms(1,2) that by (auto simp: load_inv_def launcher_ok_def list_all_length split: launcher.splits)
  show "length (goroutines s) = per_client f * client_count f"
    using assms(1,3) goroutines_counted [of "length (launchers s)" "goroutines s"] done'
    by (simp add: load_inv_def of_client_def)
  show "\<forall>g \<in> set (goroutines s). snd g = Finished"
    using assms(1) done' by (fastforce simp: load_inv_def list_all_iff)
qed

lemma all_finished: "\<forall>g \<in> set (goroutines s). snd g = Finished \<Longrightarrow> finished s = length (goroutines s)"
  by (simp add: finished_def)

lemma some_unfinished: "at_stage k st s \<Longrightarrow> st \<noteq> Finished \<Longrightarrow> finished s < length (goroutines s)"
  unfolding finished_def at_stage_def by (rule length_filter_less [of "goroutines s ! k"]) auto

lemma report_enabled:
  assumes "load_inv f s" and "sane f" and "alive s" and "at_stage k Report s"
  shows "\<exists>s'. request_report f k s = Some s'"
proof -
  have "sint (completed s) \<le> sint (totalRequests f)"
    using load_inv_completed [OF assms(1,2)] load_inv_counts(1) [OF assms(1)] sane_total(1) [OF assms(2)]
      some_unfinished [OF assms(4)] by (simp del: of_nat_mult)
  moreover from this have "collecting s"
    using assms(1) by (auto simp: load_inv_def collected_def)
  ultimately show ?thesis
    using assms(3,4) by (simp add: request_report_def)
qed

lemma launcher_enabled:
  assumes "load_inv f s" and "alive s" and "\<forall>g \<in> set (goroutines s). snd g = Finished" and "i < length (launchers s)"
  shows "launchers s ! i = LauncherDone \<or> (\<exists>s'. launch_request f i s = Some s') \<or> (\<exists>s'. launcher_finish f i s = Some s')"
proof (cases "launchers s ! i")
  case (Launching r)
  have "list_all (\<lambda>(j, st). j = i \<longrightarrow> st = Finished) (goroutines s)"
    using assms(3) by (auto simp: list_all_iff)
  then show ?thesis
    using assms(2,4) Launching
    by (cases "int r < sint (requestsPerClient f)") (simp_all add: launch_request_def launcher_finish_def)
qed simp

text \<open>When the program can make no step and no request waits for the client, it has returned.\<close>

lemma not_stuck:
  assumes inv: "load_inv f s" and sane: "sane f" and "cpanic (lrun s) = None"
    and stuck: "\<nexists>s'. load_step f c True s s'" and wait: "\<And>k. \<not> at_stage k Sending s \<and> \<not> at_stage k Waiting s"
  shows "mainDone s"
proof (rule ccontr)
  assume "\<not> mainDone s"
  then have alive: "alive s"
    using assms(3) by (simp add: alive_def)
  have "snd g = Finished" if g: "g \<in> set (goroutines s)" for g
  proof -
    obtain k where "k < length (goroutines s)" "goroutines s ! k = g"
      using g by (auto simp: in_set_conv_nth)
    then have "at_stage k (snd g) s"
      by (simp add: at_stage_def)
    moreover have "\<not> at_stage k Compose s" "\<not> at_stage k Report s"
      using request_send_total [OF alive] report_enabled [OF inv sane alive] stuck by (blast intro: ls_send ls_report)+
    ultimately show ?thesis
      using wait [of k] by (cases "snd g") auto
  qed
  then have fin: "\<forall>g \<in> set (goroutines s). snd g = Finished"
    by blast
  have "launchers s ! i = LauncherDone" if "i < length (launchers s)" for i
    using launcher_enabled [OF inv alive fin that] stuck by (blast intro: ls_launch_request ls_launcher)
  then have all: "list_all (\<lambda>l. l = LauncherDone) (launchers s)"
    by (simp add: list_all_length)
  have "launch_client f s = None"
    using stuck by (metis ls_launch_client not_None_eq)
  then have clients: "\<not> int (length (launchers s)) < sint (numClients f)"
    using alive by (simp add: launch_client_def split: if_splits)
  then have len: "length (launchers s) = client_count f"
    using inv by (auto simp: load_inv_def client_count_def)
  have "\<not> sint (completed s) \<le> sint (totalRequests f)"
    using load_inv_completed [OF inv sane] sane_total(1) [OF sane] all_finished [OF fin] all_done_counts(1) [OF inv all len]
    by simp
  moreover have "collector_finish f s = None" "main_return f s = None"
    using stuck by (metis ls_collector ls_return not_None_eq)+
  ultimately show False
    using alive clients all by (simp add: collector_finish_def main_return_def split: if_splits)
qed

lemma load_start_inv:
  assumes "load_start None now oracle w = Inr (Some (c, s0))"
  shows "load_inv f s0" and "work f s0 = client_count f * (5 * per_client f + 2) + 2"
  using assms by (auto simp: load_start_def example_client_def NewUDPClient_def go_simps load_inv_def collected_def finished_def work_def)

lemma load_run_inv: "load_run f c n s s' \<Longrightarrow> sane f \<Longrightarrow> load_inv f s \<Longrightarrow> load_inv f s'"
  by (induction rule: load_run.induct) (auto intro: load_inv_step)

text \<open>
  C12: the load client terminates. Its own steps are bounded: in every execution, with any behaviour of
  the network and any scheduling, each of the \<open>c\<close> clients takes two steps and five more for each of
  its \<open>r\<close> requests, and two are left for the collector and \<open>main\<close>. When the program cannot make a
  step and no request is inside \<open>Send\<close> or without a response, \<open>main\<close> has returned. When it has
  returned, exactly that many steps were made, all \<open>c * r\<close> requests were completed, and the collector
  logged them in order, from the first to the last. The flags must not be negative and their product
  must stay below the largest \<open>int\<close>.
\<close>

theorem load_client_terminates:
  fixes c :: "'z ClientState_scheme UDPClient"
  assumes "load_start None now oracle w = Inr (Some (c, s0))" and "load_run f c n s0 s"
    and "requestsPerClient f = of_nat r" and "numClients f = of_nat cl" and "r * cl < 2 ^ 63 - 1" and "r < 2 ^ 63" and "cl < 2 ^ 63"
  shows "n \<le> cl * (5 * r + 2) + 2 \<and>
    (mainDone s \<longrightarrow> n = cl * (5 * r + 2) + 2 \<and> map snd (goroutines s) = replicate (r * cl) Finished \<and>
      llog s = map (\<lambda>i. (int i, int r)) [1..<Suc (r * cl)]) \<and>
    (cpanic (lrun s) = None \<and> (\<nexists>s'. load_step f c True s s') \<and> (\<forall>k. \<not> at_stage k Sending s \<and> \<not> at_stage k Waiting s) \<longrightarrow>
      mainDone s)"
proof -
  have r: "sint (requestsPerClient f) = int r" and cl: "sint (numClients f) = int cl"
    using assms(3,4,6,7) sint_word_of_int64 [of "int r"] sint_word_of_int64 [of "int cl"] by simp_all
  then have pc: "per_client f = r" "client_count f = cl"
    by (simp_all add: per_client_def client_count_def)
  have sane: "sane f"
    using assms(5) by (simp add: sane_def r cl flip: of_nat_mult)
  have inv: "load_inv f s"
    by (rule load_run_inv [OF assms(2) sane load_start_inv(1) [OF assms(1)]])
  have n: "cl * (5 * r + 2) + 2 = n + work f s"
    using run_work [OF assms(2)] load_start_inv(2) [OF assms(1), of f] by (simp add: pc)
  moreover have "work f s = 0 \<and> map snd (goroutines s) = replicate (r * cl) Finished \<and>
      llog s = map (\<lambda>i. (int i, int r)) [1..<Suc (r * cl)]" if "mainDone s"
  proof -
    have all: "list_all (\<lambda>l. l = LauncherDone) (launchers s)" "length (launchers s) = client_count f" "\<not> collecting s"
      using inv that by (auto simp: load_inv_def)
    note counts = all_done_counts [OF inv all(1,2)]
    have "map snd (goroutines s) = replicate (length (goroutines s)) Finished"
      using counts(2) by (auto intro!: replicate_eqI simp flip: map_replicate_const)
    moreover have "map (stage_work \<circ> snd) (goroutines s) = map (\<lambda>_. 0) (goroutines s)"
      "map (launcher_work (per_client f)) (launchers s) = map (\<lambda>_. 0) (launchers s)"
      using counts(2) all(1) by (auto simp: list_all_iff)
    ultimately show ?thesis
      using inv all that counts(1) all_finished [OF counts(2)]
      by (simp add: work_def load_inv_def collected_def pc r del: upt_Suc)
  qed
  ultimately show ?thesis
    using not_stuck [OF inv sane, of c] by auto
qed

text \<open>A complete execution: one client, one request, and a connection that refuses the write.\<close>

definition demo_flags :: Flags where
  "demo_flags = \<lparr>requestsPerClient = 1, numClients = 1\<rparr>"

definition on_client :: "('w ClientRun \<Rightarrow> 'w ClientRun option) \<Rightarrow> 'w LoadState \<Rightarrow> 'w LoadState option" where
  "on_client g s = (if alive s then map_option (\<lambda>m. s\<lparr>lrun := m\<rparr>) (g (lrun s)) else None)"

definition receive_report :: "'w LoadState \<Rightarrow> 'w LoadState option" where
  "receive_report s =
     (case cwriter (lrun s) of
        WReport k p \<Rightarrow>
          if alive s \<and> at_stage k Waiting s
          then map_option (\<lambda>m. set_stage k Report (s\<lparr>lrun := m\<rparr>)) (write_report (lrun s)) else None
      | _ \<Rightarrow> None)"

fun load_ops :: "(bool \<times> ('w LoadState \<Rightarrow> 'w LoadState option)) list \<Rightarrow> 'w LoadState \<Rightarrow> 'w LoadState option" where
  "load_ops [] s = Some s"
| "load_ops ((own, g) # ops) s = (case g s of None \<Rightarrow> None | Some s' \<Rightarrow> load_ops ops s')"

lemma load_ops_run:
  "load_ops ops s = Some s' \<Longrightarrow> (\<And>own g a b. (own, g) \<in> set ops \<Longrightarrow> g a = Some b \<Longrightarrow> load_step f c own a b) \<Longrightarrow>
     load_run f c n s0 s \<Longrightarrow> load_run f c (n + length (filter fst ops)) s0 s'"
proof (induction ops arbitrary: n s)
  case (Cons op ops)
  obtain own g where op: "op = (own, g)"
    by fastforce
  then obtain s1 where s1: "g s = Some s1" "load_ops ops s1 = Some s'"
    using Cons.prems(1) by (auto split: option.splits)
  then have "load_step f c own s s1"
    using Cons.prems(2) [of own g s s1] op by simp
  then have "load_run f c (n + of_bool own) s0 s1"
    by (rule lr_step [OF Cons.prems(3)])
  from Cons.IH [OF s1(2) _ this] show ?case
    using Cons.prems(2) op by (cases own) auto
qed simp

definition demo_load :: "ClientState UDPClient \<Rightarrow> (bool \<times> (ClientState LoadState \<Rightarrow> ClientState LoadState option)) list" where
  "demo_load c = [(True, launch_client demo_flags), (True, launch_request demo_flags 0), (True, request_send c 0),
     (False, on_client (write_take c)), (False, on_client (on_throttle write_start)),
     (False, on_client (on_throttle (write_conn \<lparr>written = 0, werr = Some ''refused''\<rparr>))),
     (False, on_client (on_throttle write_reply)), (False, on_client (Send_register 0)), (False, on_client write_answer),
     (True, request_sent 0), (True, receive_report), (True, request_report demo_flags 0),
     (True, launcher_finish demo_flags 0), (True, collector_finish demo_flags), (True, main_return demo_flags)]"

lemma on_client_step:
  assumes "on_client g s = Some s'" and "\<And>m m'. g m = Some m' \<Longrightarrow> background_step c m m'"
  shows "load_step f c False s s'"
  using assms by (auto simp: on_client_def split: if_splits intro: ls_client)

lemma on_throttle_background:
  assumes "on_throttle f m = Some m'" and "\<And>t t'. f t = Some t' \<Longrightarrow> run_step t t' \<and> own_step t t'"
  shows "background_step c m m'"
  using assms by (auto simp: on_throttle_def intro!: bs_throttle ts_run)

lemma receive_report_step: "receive_report s = Some s' \<Longrightarrow> load_step f c True s s'"
  by (auto simp: receive_report_def offers_def split: cwriter.splits if_splits intro!: ls_receive)

lemma demo_load_steps:
  assumes "(own, g) \<in> set (demo_load c)" and "g a = Some b"
  shows "load_step demo_flags c own a b"
proof -
  have th: "write_start t = Some t' \<Longrightarrow> run_step t t' \<and> own_step t t'"
    "write_conn st t = Some t' \<Longrightarrow> run_step t t' \<and> own_step t t'"
    "write_reply t = Some t' \<Longrightarrow> run_step t t' \<and> own_step t t'" for t t' st
    using rs_write_start [of t t'] rs_write_conn [of st t t'] rs_write_reply [of t t']
      write_start_effect [of t t'] write_conn_effect [of st t t'] write_reply_effect [of t t']
    by (auto simp: own_step_def)
  show ?thesis
    using assms
    by (auto simp: demo_load_def
        intro: ls_launch_client ls_launch_request ls_send ls_sent ls_report ls_collector ls_launcher ls_return receive_report_step
          bs_register bs_take bs_answer
        elim!: on_client_step on_throttle_background dest: th)
qed

lemma demo_load_runs:
  assumes "load_start None 0 [] (demo_cstate []) = Inr (Some (c, s0))"
  shows "\<exists>s. load_ops (demo_load c) s0 = Some s \<and> mainDone s"
proof -
  let ?pc = "NewJSONPktCreator (sint Rate10k div 2) []"
  let ?w = "(demo_cstate [])\<lparr>cpc := ?pc\<rparr>"
  obtain t where t: "NewUDPThrottle Rate10k 4096 = Inr t" "send t = []"
    by (simp add: NewUDPThrottle_def tpo_of_def quo_def Rate10k_def)
  have c: "plain_client c" and s0: "s0 = \<lparr>lrun = \<lparr>cworld = ?w, cth = th_init t 0, requests = Map.empty, handing = [],
       registering = [], cwriter = WIdle, recvDone = False, arriving = [], delivering = [], deleting = [],
       doneClosed = False, connClosed = False, inbox = [], misc = [], sent = [], cpanic = None\<rparr>,
     launchers = [], goroutines = [], completed = 1, collecting = True, mainDone = False, llog = []\<rparr>"
    using assms t by (auto simp: load_start_def example_client_def NewUDPClient_def plain_client_def NewDataPipeline_def)
  obtain req pc' where req: "echo_request ?pc = Inr (Close req, pc')" "pool_ok pc'" "pkt_synced req"
    using echo_request_ok [OF pool_ok_NewJSONPktCreator] by blast
  then have synced: "pkt_synced (Close req)"
    by simp
  obtain p1 ref w1 b where prep: "Send_prepare c (Close req) (Some 0) (?w\<lparr>cpc := pc'\<rparr>) =
      Inr (Inr (\<lparr>cpData = b, cpCh = Some 0\<rparr>, ref), p1, w1)" and w1: "cpc w1 = pc'"
    using Send_prepare_plain [OF c synced, of "Some 0" "?w\<lparr>cpc := pc'\<rparr>"] by auto
  obtain ep pc2 where "NewErrPkt '''' '''' ''packet write error: refused'' pc' = Inr (ep, pc2)"
    using NewErrPkt_synced [OF req(2)] by blast
  then have ep: "NewErrPkt '''' '''' ''packet write error: refused'' (cpc w1) = Inr (ep, pc2)"
    by (simp add: w1)
  let ?M = "\<lambda>w t h r cw reqs ib. \<lparr>cworld = w, cth = t, requests = reqs, handing = h, registering = r, cwriter = cw,
    recvDone = False, arriving = [], delivering = [], deleting = [], doneClosed = False, connClosed = False, inbox = ib,
    misc = [], sent = [(ref, Some 0)], cpanic = None\<rparr>"
  let ?S = "\<lambda>m l st k col md lg. \<lparr>lrun = m, launchers = [l], goroutines = [(0, st)], completed = k, collecting = col,
    mainDone = md, llog = lg\<rparr>"
  let ?pkt = "\<lparr>wdata = b, wto = svrAddr c, respCh = 0\<rparr>"
  let ?reqs = "Map.empty(ref \<mapsto> \<lparr>reqCh = Some 0, reqMsg = '''', reqStatus = requestStatusWaiting\<rparr>)"
  let ?t0 = "th_init t 0"
  let ?t1 = "?t0\<lparr>th := t\<lparr>send := [?pkt]\<rparr>, submitted := [?pkt]\<rparr>"
  let ?t2 = "?t1\<lparr>th := t\<lparr>send := []\<rparr>, writer := Op 0 ?pkt, wstarts := [0]\<rparr>"
  let ?ans = "(?pkt, \<lparr>written = 0, werr = Some ''refused''\<rparr>)"
  let ?t3 = "?t2\<lparr>writer := Out 0 ?ans\<rparr>"
  let ?t4 = "?t3\<lparr>writer := Asleep (throttleOperation (t\<lparr>send := []\<rparr>) (time_Sub 0 0)), answered := [?ans]\<rparr>"
  let ?m3 = "?M w1 ?t0 [(\<lparr>cpData = b, cpCh = Some 0\<rparr>, ref)] [] WIdle Map.empty []"
  let ?m4 = "?M w1 ?t1 [] [(ref, Some 0)] (WAwait 0 (Some 0)) Map.empty []"
  let ?m8 = "?M w1 ?t4 [] [] (WAwait 0 (Some 0)) ?reqs []"
  let ?m9 = "?M (w1\<lparr>cpc := pc2\<rparr>) ?t4 [] [] (WReport 0 ep) ?reqs []"
  let ?mA = "?M (w1\<lparr>cpc := pc2\<rparr>) ?t4 [] [] WIdle ?reqs [(0, ep)]"
  let ?s1 = "s0\<lparr>launchers := [Launching 0]\<rparr>"
  let ?s2 = "s0\<lparr>launchers := [Launching 1], goroutines := [(0, Compose)]\<rparr>"
  let ?s3 = "?S ?m3 (Launching 1) Sending 1 True False []"
  have 1: "launch_client demo_flags s0 = Some ?s1"
    by (simp add: s0 launch_client_def alive_def demo_flags_def)
  have 2: "launch_request demo_flags 0 ?s1 = Some ?s2"
    by (simp add: s0 launch_request_def alive_def demo_flags_def)
  have 3: "request_send c 0 ?s2 = Some ?s3"
    using req(1) prep by (simp add: s0 request_send_def alive_def at_stage_def set_stage_def Send_def)
  have 4: "write_take c ?m3 = Some ?m4"
    by (simp add: write_take_def WriteTo_def th_init_def chan_cap_def t(2) Let_def)
  have 5: "on_throttle write_start ?m4 = Some (?m4\<lparr>cth := ?t2\<rparr>)"
    "on_throttle (write_conn (snd ?ans)) (?m4\<lparr>cth := ?t2\<rparr>) = Some (?m4\<lparr>cth := ?t3\<rparr>)"
    "on_throttle write_reply (?m4\<lparr>cth := ?t3\<rparr>) = Some (?m4\<lparr>cth := ?t4\<rparr>)"
    by (simp_all add: on_throttle_def write_start_def write_conn_def write_reply_def th_init_def)
  have 6: "Send_register 0 (?m4\<lparr>cth := ?t4\<rparr>) = Some ?m8"
    by (simp add: Send_register_def)
  have 7: "write_answer ?m8 = Some ?m9"
    using ep by (simp add: write_answer_def write_status_def)
  have 8: "request_sent 0 (?S ?m9 (Launching 1) Sending 1 True False []) = Some (?S ?m9 (Launching 1) Waiting 1 True False [])"
    by (simp add: request_sent_def alive_def at_stage_def set_stage_def Send_returned_def)
  have 9: "receive_report (?S ?m9 (Launching 1) Waiting 1 True False []) = Some (?S ?mA (Launching 1) Report 1 True False [])"
    by (simp add: receive_report_def alive_def at_stage_def set_stage_def write_report_def)
  have 10: "request_report demo_flags 0 (?S ?mA (Launching 1) Report 1 True False []) =
      Some (?S ?mA (Launching 1) Finished 2 True False [(1, 1)])"
    by (simp add: request_report_def alive_def at_stage_def set_stage_def demo_flags_def totalRequests_def)
  have 11: "launcher_finish demo_flags 0 (?S ?mA (Launching 1) Finished 2 True False [(1, 1)]) =
      Some (?S ?mA LauncherDone Finished 2 True False [(1, 1)])"
    "collector_finish demo_flags (?S ?mA LauncherDone Finished 2 True False [(1, 1)]) =
      Some (?S ?mA LauncherDone Finished 2 False False [(1, 1)])"
    "main_return demo_flags (?S ?mA LauncherDone Finished 2 False False [(1, 1)]) =
      Some (?S ?mA LauncherDone Finished 2 False True [(1, 1)])"
    by (simp_all add: launcher_finish_def collector_finish_def main_return_def alive_def demo_flags_def totalRequests_def)
  have "load_ops (demo_load c) s0 = Some (?S ?mA LauncherDone Finished 2 False True [(1, 1)])"
    unfolding demo_load_def load_ops.simps 1 2 3 option.case on_client_def
    using 4 5 6 7 8 9 10 11 by (simp add: alive_def)
  then show ?thesis by auto
qed

theorem load_client_terminates_witness:
  "\<exists>c s0 s. load_start None 0 [] (demo_cstate []) = Inr (Some (c, s0)) \<and> load_run demo_flags c 9 s0 s \<and> mainDone s \<and>
     map snd (goroutines s) = [Finished] \<and> llog s = [(1, 1)]"
proof -
  obtain c s0 where start: "load_start None 0 [] (demo_cstate []) = Inr (Some (c, s0))"
    by (simp add: load_start_def example_client_def NewUDPClient_def NewUDPThrottle_def tpo_of_def quo_def Rate10k_def)
  obtain s where s: "load_ops (demo_load c) s0 = Some s" "mainDone s"
    using demo_load_runs [OF start] by blast
  have "load_run demo_flags c (0 + length (filter fst (demo_load c))) s0 s"
    by (rule load_ops_run [OF s(1) demo_load_steps lr_start])
  moreover have "0 + length (filter fst (demo_load c)) = 9"
    by (simp add: demo_load_def)
  ultimately have run: "load_run demo_flags c 9 s0 s"
    by (simp only:)
  have "requestsPerClient demo_flags = of_nat 1" "numClients demo_flags = of_nat 1" "(1 :: nat) * 1 < 2 ^ 63 - 1" "(1 :: nat) < 2 ^ 63"
    by (simp_all add: demo_flags_def)
  from load_client_terminates [OF start run this this(4), THEN conjunct2, THEN conjunct1] s(2)
  have "map snd (goroutines s) = [Finished]" "llog s = [(1, 1)]"
    by simp_all
  then show ?thesis
    using start run s(2) by (intro exI [of _ c] exI [of _ s0] exI [of _ s] conjI)
qed

text \<open>
  With two negative flags the product is positive: the collector waits for requests that nobody makes,
  and \<open>main\<close> never returns.
\<close>

definition nothing_launched :: "'w LoadState \<Rightarrow> bool" where
  "nothing_launched s \<longleftrightarrow> launchers s = [] \<and> goroutines s = [] \<and> completed s = 1 \<and> collecting s \<and> \<not> mainDone s"

lemma nothing_launched_step:
  assumes "load_step f c own s s'" and "nothing_launched s" and "sint (numClients f) < 0" and "1 \<le> sint (totalRequests f)"
  shows "nothing_launched s'"
  using assms
  by cases (auto simp: nothing_launched_def launch_client_def launch_request_def request_send_def request_sent_def at_stage_def
      request_report_def collector_finish_def launcher_finish_def main_return_def split: if_splits)

theorem negative_flags_hang:
  fixes c :: "'z ClientState_scheme UDPClient"
  assumes "load_start None now oracle w = Inr (Some (c, s0))" and "load_run f c n s0 s"
    and "requestsPerClient f = - 1" and "numClients f = - of_nat (Suc k)" and "Suc k < 2 ^ 63"
  shows "\<not> mainDone s \<and> goroutines s = []"
proof -
  have "sint (word_of_int (- int (Suc k)) :: 64 word) = - int (Suc k)" "sint (word_of_int (int (Suc k)) :: 64 word) = int (Suc k)"
    using assms(5) by (intro sint_word_of_int64; simp)+
  moreover have "numClients f = word_of_int (- int (Suc k))" "totalRequests f = word_of_int (int (Suc k))"
    using assms(3,4) by (simp_all add: totalRequests_def)
  ultimately have flags: "sint (numClients f) < 0" "1 \<le> sint (totalRequests f)"
    by simp_all
  have "nothing_launched s0"
    using assms(1) by (auto simp: load_start_def example_client_def NewUDPClient_def go_simps nothing_launched_def)
  with assms(2) have "nothing_launched s"
    by (induction rule: load_run.induct) (auto intro: nothing_launched_step flags)
  then show ?thesis
    by (simp add: nothing_launched_def)
qed

end
