(* ===== verification/Udp_Serving.thy ===== *)
theory Udp_Serving
  imports Udp_Server "HOL-Library.Multiset"
begin

text \<open>
  What holds of \<open>Serve\<close> (\<open>src/server/udp_server.go\<close>) in every schedule of its goroutines and of those of
  its throttle: how often the server works on its connection, which replies it writes, and that a
  datagram can get its reply.
\<close>

section \<open>The server's throttle\<close>

text \<open>Whatever the server does, its throttle makes steps at a constant rate.\<close>

lemma serve_step_throttle:
  assumes "serve_step svr resolve m m'"
  shows "run_step\<^sup>*\<^sup>* (sth m) (sth m')"
  using assms
proof cases
  case ss_read
  from readPkts_effect [OF this] obtain rp t where rt: "ReadFrom (sth m) = Some (rp, t)" "sth m' = t"
    by (auto split: option.splits)
  show ?thesis
    unfolding rt(2) by (rule r_into_rtranclp, rule rs_ReadFrom, rule rt(1))
next
  case ss_write
  from writePkts_effect [OF this] obtain d a where "WriteTo d a (sth m) = Some (sth m')"
    by auto
  then show ?thesis
    by (intro r_into_rtranclp rs_WriteTo)
next
  case (ss_process i)
  then have "sth m' = sth m"
    by (auto simp: process_next_def outcome_def split: if_splits sum.splits prod.splits)
  then show ?thesis by simp
next
  case (ss_send i)
  then have "sth m' = sth m"
    by (auto simp: sendPkts_def outcome_def Let_def split: if_splits sum.splits)
  then show ?thesis by simp
next
  case ss_written
  from writePkts_next_effect [OF this] show ?thesis by simp
next
  case ss_return
  then have "sth m' = sth m"
    by (auto simp: Serve_return_def split: serve_phase.splits nat.splits)
  then show ?thesis by simp
qed auto

lemma serve_steps_throttle: "(serve_step svr resolve)\<^sup>*\<^sup>* m m' \<Longrightarrow> run_step\<^sup>*\<^sup>* (sth m) (sth m')"
  by (induction rule: rtranclp_induct) (auto dest: serve_step_throttle intro: rtranclp_trans)

text \<open>
  C11: a server works at its rate. Whatever extensions it has, whatever arrives and however its
  goroutines are scheduled, from the making of the server on it takes at most one datagram from its
  connection per time per operation, and one more, and it completes at most as many writes; the time
  per operation is the integer quotient of a second and the rate.
\<close>

theorem server_keeps_rate:
  fixes svr0 :: "'z ServerState_scheme UDPServer"
  assumes "NewUDPServer None a sz r = Inr (Inr svr0)" and "0 < sint r"
    and "run_step\<^sup>*\<^sup>* (th_init (throttle svr0) now) t"
    and "Serve_start (svr0\<lparr>procs := pr\<rparr>) t w = (svr, m0)" and "(serve_step svr resolve)\<^sup>*\<^sup>* m0 m"
  shows "int (length (taken (sth m))) * (sec div sint r) \<le> clock (sth m) - now + sec div sint r \<and>
    int (length (answered (sth m))) * (sec div sint r) \<le> clock (sth m) - now + sec div sint r"
proof -
  have "NewUDPThrottle r sz = Inr (throttle svr0)"
    using assms(1) by (auto simp: NewUDPServer_def go_simps)
  from new_throttle_paced [OF this assms(2)] have init: "pace_inv (sec div sint r) (th_init (throttle svr0) now) \<and>
      count_inv now (th_init (throttle svr0) now) \<and> queue_inv (th_init (throttle svr0) now)"
    by blast
  have "sth m0 = t"
    using assms(4) by (auto simp: Serve_start_def)
  then have "run_step\<^sup>*\<^sup>* (th_init (throttle svr0) now) (sth m)"
    using assms(3) serve_steps_throttle [OF assms(5)] by (simp add: rtranclp_trans)
  from counted.steps_inv [OF this init] show ?thesis
    using throughput_bounded [of "sec div sint r" "sth m" now] by blast
qed

theorem server_keeps_rate_witness:
  "\<exists>t svr m0 m. run_step\<^sup>*\<^sup>* (th_init demo_throttle 0) t \<and>
     Serve_start (demo_svr\<lparr>procs := demo_secure\<rparr>) t (demo_world [] Map.empty) = (svr, m0) \<and>
     (serve_step svr Some)\<^sup>*\<^sup>* m0 m \<and> taken (sth m) \<noteq> [] \<and>
     int (length (taken (sth m))) * 1000000 \<le> clock (sth m) + 1000000"
proof -
  obtain t where t: "run_step\<^sup>*\<^sup>* (th_init demo_throttle 0) t" "recv (th t) \<noteq> []"
    using demo_run by blast
  obtain svr m0 where start: "Serve_start (demo_svr\<lparr>procs := demo_secure\<rparr>) t (demo_world [] Map.empty) = (svr, m0)"
    by fastforce
  then have "phase m0 = Serving (Suc 4)" "sth m0 = t"
    by (auto simp: Serve_start_def numReaders_def)
  then obtain m where m: "readPkts m0 = Some m" "taken (sth m) \<noteq> []"
    using t(2) by (cases "recv (th t)"; cases "rerr (hd (recv (th t)))") (auto simp: readPkts_def ReadFrom_def)
  have "throttle demo_svr = demo_throttle" "0 < sint Rate1k" "sec div sint Rate1k = 1000000"
    by (simp_all add: demo_svr_def Rate1k_def sec_def)
  then show ?thesis
    using server_keeps_rate [OF demo_svr_new _ _ start, of 0 Some m] t(1) start m
    by (intro exI [of _ t] exI [of _ svr] exI [of _ m0] exI [of _ m]) (auto intro: r_into_rtranclp ss_read)
qed

section \<open>The replies of a server without extensions\<close>

text \<open>
  The datagrams among what was taken from the throttle; a packet that reads as the reply the
  specification gives for a datagram, decoded into some packet of a sound pool; a packet that was
  marshalled into a write.
\<close>

definition datagrams :: "readPkt list \<Rightarrow> (bytes \<times> string) list" where
  "datagrams rps = map (\<lambda>rp. (rdata rp, addr_String (rsender rp))) (filter (\<lambda>rp. rerr rp = None) rps)"

definition harmless :: "bytes \<Rightarrow> bool" where
  "harmless data \<longleftrightarrow> (\<nexists>ms. json_parse data = Some (JObj ms) \<and> nulls_meta ms)"

definition answers :: "bytes \<times> string \<Rightarrow> JSONPkt \<Rightarrow> bool" where
  "answers d p \<longleftrightarrow> (\<exists>c pkt c'. pool_ok c \<and> NewPkt '''' '''' c = Inr (pkt, c') \<and>
     reply_of p = serve_spec (snd d) (decoded (Unmarshal (fst d) pkt)))"

definition written_as :: "(string \<Rightarrow> string option) \<Rightarrow> JSONPkt \<Rightarrow> bytes \<times> string \<Rightarrow> bool" where
  "written_as resolve p w \<longleftrightarrow> Marshal p = Some (fst w) \<and> resolve (Dest p) = Some (snd w)"

text \<open>
  The bookkeeping: \<open>hist\<close> pairs the datagrams that were processed with the packets queued for them,
  \<open>out\<close> the packets that were marshalled with the writes, and \<open>lost\<close> are the packets whose destination
  did not resolve. The writes are in the order of \<open>writeStream\<close>, the rest may be reordered.
\<close>

definition writes_of :: "'z ServerState_scheme ServeState \<Rightarrow> (bytes \<times> string) list" where
  "writes_of m = map (\<lambda>w. (wdata w, wto w)) (submitted (sth m)) @
     map (\<lambda>w. (wpData w, wpAddr w)) (writeStream (world m))"

definition ledger ::
  "(string \<Rightarrow> string option) \<Rightarrow> 'z ServerState_scheme ServeState \<Rightarrow> ((bytes \<times> string) \<times> JSONPkt) list \<Rightarrow>
     (JSONPkt \<times> (bytes \<times> string)) list \<Rightarrow> JSONPkt list \<Rightarrow> bool" where
  "ledger resolve m hist out lost \<longleftrightarrow>
     mset (datagrams (taken (sth m))) = mset (map fst hist) + mset (incoming m) \<and>
     list_all (\<lambda>(d, p). answers d p) hist \<and>
     mset (map snd hist) = mset (sendStream (world m)) + mset (map fst out) + mset lost \<and>
     map snd out = writes_of m \<and> list_all (\<lambda>(p, w). written_as resolve p w) out \<and>
     list_all (\<lambda>p. resolve (Dest p) = None) lost"

definition accounted :: "(string \<Rightarrow> string option) \<Rightarrow> 'z ServerState_scheme ServeState \<Rightarrow> bool" where
  "accounted resolve m \<longleftrightarrow>
     pool_ok (pc (world m)) \<and> list_all pkt_synced (sendStream (world m)) \<and> (\<exists>hist out lost. ledger resolve m hist out lost)"

lemma mset_remove_at: "i < length xs \<Longrightarrow> mset xs = add_mset (xs ! i) (mset (remove_at i xs))"
  by (induction i xs rule: remove_at.induct) auto

text \<open>After the streams were closed every request ends in a panic.\<close>

abbreviation panics :: "'a go \<Rightarrow> bool" where
  "panics m \<equiv> yields UNIV (\<lambda>_. False) m"

lemma panics_bind: "(\<And>x. panics (f x)) \<Longrightarrow> panics (gbind m f)"
  by (rule yields_bind [where Q = "\<lambda>_. True"]) (cases m; simp)+

lemma panics_first: "panics m \<Longrightarrow> panics (gbind m f)"
  by (erule yields_bind) simp

lemma closed_send: "streamsClosed s \<Longrightarrow> panics (svr_send p s)"
  by (simp add: svr_send_def)

lemma closed_send_err: "streamsClosed s \<Longrightarrow> panics (svr_send_err ref d msg s)"
  unfolding svr_send_err_def by (rule panics_bind) (auto intro: closed_send)

lemma closed_relay: "streamsClosed s \<Longrightarrow> panics (relayCallback ctx pw s)"
  by (cases "Pkt ctx")
    (simp_all add: relayCallback_def Let_def split_beta closed_send panics_bind panics_first)

lemma closed_run_target:
  assumes "plain svr" and "streamsClosed s"
  shows "panics (run_target (packetP (procs svr)) pkt sender s)"
proof -
  have "panics (relayCallback ctx pw (s\<lparr>pc := c\<rparr>))" for ctx pw c
    using assms(2) by (simp add: closed_relay)
  then have "panics (run_callbacks [relayCallback] (ctx, pw, s\<lparr>pc := c\<rparr>))" for ctx pw c
    by (simp add: panics_first)
  moreover have "panics (svr_send_err ref d msg (svr_PutBack p (s\<lparr>pc := c\<rparr>)))" for ref d msg p c
    using assms(2) by (simp add: closed_send_err svr_PutBack_def)
  ultimately show ?thesis
    unfolding run_target_def Let_def plain_ProcessPacket [OF assms(1)]
    by (intro panics_bind) (simp add: split_beta panics_first del: run_callbacks.simps)
qed

lemma processIncoming_closed:
  assumes "plain svr" and "streamsClosed s"
  shows "panics (UDPServer_processIncoming svr data sender s)"
proof -
  have "panics (svr_send_err '''' sender ''malformed packet'' (s\<lparr>pc := c\<rparr>))" for c
    using assms(2) by (simp add: closed_send_err)
  moreover have "panics (run_target (packetP (procs svr)) pkt sender (s\<lparr>pc := c\<rparr>))" for pkt c
    using assms by (intro closed_run_target) simp_all
  ultimately show ?thesis
    using assms(1)
    by (simp add: UDPServer_processIncoming_def code_defs, intro panics_bind)
      (simp add: panics_first split: prod.split option.split)
qed

lemma processOutgoing_closed:
  assumes "plain svr" and "streamsClosed s" and "UDPServer_processOutgoing svr resolve p s = Inr s'"
  shows "resolve (Dest p) = None \<and> s' = svr_PutBack p s"
  using assms by (auto simp: UDPServer_processOutgoing_def svr_dist_def code_defs Marshal_def Let_def split: option.splits)

lemma accounted_return:
  assumes "accounted resolve m" and "Serve_return m = Some m'"
  shows "accounted resolve m'"
proof -
  obtain ph where "m' = m\<lparr>world := (world m)\<lparr>streamsClosed := True\<rparr>, phase := ph\<rparr>"
    using assms(2) by (auto simp: Serve_return_def split: serve_phase.splits nat.splits)
  then show ?thesis
    using assms(1) by (auto simp: accounted_def ledger_def writes_of_def)
qed

lemma accounted_read:
  assumes "accounted resolve m" and "readPkts m = Some m'"
  shows "accounted resolve m'"
proof -
  obtain n rp t where rt: "ReadFrom (sth m) = Some (rp, t)" and
    m': "m' = (case rerr rp of
            Some e \<Rightarrow> m\<lparr>sth := t, phase := Serving n\<rparr>
          | None \<Rightarrow> m\<lparr>sth := t, incoming := incoming m @ [(rdata rp, addr_String (rsender rp))]\<rparr>)"
    using readPkts_effect [OF assms(2)] by blast
  have "taken t = taken (sth m) @ [rp]" "submitted t = submitted (sth m)"
    using ReadFrom_effect [OF rt] by auto
  then show ?thesis
    using assms(1) by (auto simp: m' accounted_def ledger_def writes_of_def datagrams_def split: option.split)
qed

lemma accounted_write:
  assumes "accounted resolve m" and "writePkts m = Some m'"
  shows "accounted resolve m'"
proof -
  obtain w ws t where w: "writeStream (world m) = w # ws" and t: "WriteTo (wpData w) (wpAddr w) (sth m) = Some t"
    and m': "m' = m\<lparr>world := (world m)\<lparr>writeStream := ws\<rparr>, sth := t, swriter := Some (length (submitted (sth m)))\<rparr>"
    using writePkts_effect [OF assms(2)] by blast
  have "taken t = taken (sth m)"
    "submitted t = submitted (sth m) @ [\<lparr>wdata = wpData w, wto = wpAddr w, respCh = length (submitted (sth m))\<rparr>]"
    using WriteTo_effect [OF t] by (auto simp: Let_def)
  then show ?thesis
    using assms(1) w by (auto simp: m' accounted_def ledger_def writes_of_def)
qed

lemma outcome_running: "running (outcome r m) \<Longrightarrow> \<exists>w. r = Inr w \<and> outcome r m = m\<lparr>world := w\<rparr>"
  by (cases r) (simp_all add: outcome_def running_def)

lemma accounted_process:
  fixes svr :: "'z ServerState_scheme UDPServer"
  assumes "plain svr" and "accounted resolve m" and "process_next svr i m = Some m'" and "running m'"
    and "\<forall>d \<in> set (datagrams (taken (sth m))). harmless (fst d)"
  shows "accounted resolve m'"
proof -
  obtain hist out lost where l: "ledger resolve m hist out lost"
    using assms(2) by (auto simp: accounted_def)
  obtain d a where da: "incoming m ! i = (d, a)"
    by fastforce
  let ?m1 = "m\<lparr>incoming := remove_at i (incoming m)\<rparr>"
  have i: "i < length (incoming m)" and "m' = outcome (UDPServer_processIncoming svr d a (world m)) ?m1"
    using assms(3) da by (auto simp: process_next_def split: if_splits)
  then obtain w where w: "UDPServer_processIncoming svr d a (world m) = Inr w" and m': "m' = ?m1\<lparr>world := w\<rparr>"
    using outcome_running assms(4) by blast
  have open': "open_ok (world m)"
    using assms(2) w processIncoming_closed [OF assms(1), of "world m" d a] by (auto simp: accounted_def)
  have "(d, a) \<in> set (datagrams (taken (sth m)))"
    using l i da by (metis ledger_def nth_mem set_mset_mset union_iff)
  then have "harmless d"
    using assms(5) by force
  obtain pkt pc' where new: "NewPkt '''' '''' (pc (world m)) = Inr (pkt, pc')"
    using NewPkt_synced open' by blast
  obtain p where p: "open_ok w" "sendStream w = sendStream (world m) @ [p]" "pkt_synced p"
    "writeStream w = writeStream (world m)" "reply_of p = serve_spec a (decoded (Unmarshal d pkt))"
    using processIncoming_plain [OF assms(1) open' _ new, of d a] \<open>harmless d\<close> w by (auto simp: harmless_def)
  have "answers (d, a) p"
    using open' new p(5) by (auto simp: answers_def)
  then have "ledger resolve m' (hist @ [((d, a), p)]) out lost"
    using l mset_remove_at [OF i] da p(2,4) by (simp add: m' ledger_def writes_of_def)
  then show ?thesis
    using assms(2) p(1-3) by (auto simp: m' accounted_def)
qed

lemma accounted_send:
  fixes svr :: "'z ServerState_scheme UDPServer"
  assumes "plain svr" and "accounted resolve m" and "sendPkts svr resolve i m = Some m'" and "running m'"
  shows "accounted resolve m'"
proof -
  obtain hist out lost where l: "ledger resolve m hist out lost"
    using assms(2) by (auto simp: accounted_def)
  let ?q = "sendStream (world m)" and ?p = "sendStream (world m) ! i"
  let ?s = "(world m)\<lparr>sendStream := remove_at i ?q\<rparr>"
  have i: "i < length ?q" and "m' = outcome (UDPServer_processOutgoing svr resolve ?p ?s) m"
    using assms(3) by (auto simp: sendPkts_def Let_def split: if_splits)
  then obtain w where w: "UDPServer_processOutgoing svr resolve ?p ?s = Inr w" and m': "m' = m\<lparr>world := w\<rparr>"
    using outcome_running assms(4) by blast
  have rest: "pool_ok (pc (world m))" "pkt_synced ?p" "list_all pkt_synced (remove_at i ?q)"
    using assms(2) i by (auto simp: accounted_def list_all_nth list_all_remove_at)
  obtain b where b: "Marshal ?p = Some b"
    by (simp add: Marshal_def)
  show ?thesis
  proof (cases "resolve (Dest ?p)")
    case None
    then have "w = svr_PutBack ?p ?s"
      using w b by (simp add: UDPServer_processOutgoing_def)
    moreover from this have "ledger resolve m' hist out (lost @ [?p])"
      using l mset_remove_at [OF i] None by (simp add: m' ledger_def writes_of_def svr_PutBack_def)
    ultimately show ?thesis
      using rest by (auto simp: m' accounted_def svr_PutBack_def)
  next
    case (Some a)
    then have "\<not> streamsClosed ?s"
      using processOutgoing_closed [OF assms(1) _ w] by auto
    then have "w = svr_PutBack ?p (?s\<lparr>writeStream := writeStream ?s @ [\<lparr>wpData = b, wpAddr = a\<rparr>]\<rparr>)"
      using processOutgoing_plain [of svr ?s resolve ?p a b] assms(1) Some b w by simp
    moreover from this have "ledger resolve m' hist (out @ [(?p, (b, a))]) lost"
      using l mset_remove_at [OF i] Some b by (simp add: m' ledger_def writes_of_def svr_PutBack_def written_as_def)
    ultimately show ?thesis
      using rest by (auto simp: m' accounted_def svr_PutBack_def)
  qed
qed

text \<open>The invariant: as long as the program runs and no datagram set the metadata to null.\<close>

definition account_inv :: "(string \<Rightarrow> string option) \<Rightarrow> 'z ServerState_scheme ServeState \<Rightarrow> bool" where
  "account_inv resolve m \<longleftrightarrow>
     (running m \<and> (\<forall>d \<in> set (datagrams (taken (sth m))). harmless (fst d)) \<longrightarrow> accounted resolve m)"

lemma run_step_taken: "run_step t t' \<Longrightarrow> \<exists>rps. taken t' = taken t @ rps"
  by (erule run_step.cases)
    (auto simp: elapse_def Let_def dest!: read_start_effect read_conn_effect
      read_send_effect read_wake_effect write_start_effect write_conn_effect write_reply_effect
      write_wake_effect stop_reader_effect stop_writer_effect idle_effects)

lemma run_steps_taken: "run_step\<^sup>*\<^sup>* t t' \<Longrightarrow> \<exists>rps. taken t' = taken t @ rps"
  by (induction rule: rtranclp_induct) (auto dest!: run_step_taken)

lemma step_was_running: "serve_step svr resolve m m' \<Longrightarrow> running m"
  by (erule serve_step.cases)
    (auto simp: process_next_def sendPkts_def running_def Serve_return_def Let_def
      dest!: readPkts_effect writePkts_effect writePkts_next_effect split: if_splits serve_phase.splits)

lemma account_inv_step:
  assumes "plain svr" and "account_inv resolve m" and "serve_step svr resolve m m'"
  shows "account_inv resolve m'"
  unfolding account_inv_def
proof (intro impI, elim conjE)
  assume run': "running m'" and ok: "\<forall>d \<in> set (datagrams (taken (sth m'))). harmless (fst d)"
  have "\<exists>rps. taken (sth m') = taken (sth m) @ rps"
    by (rule run_steps_taken [OF serve_step_throttle [OF assms(3)]])
  then have ok: "\<forall>d \<in> set (datagrams (taken (sth m))). harmless (fst d)"
    using ok by (auto simp: datagrams_def)
  then have acc: "accounted resolve m"
    using assms(2) step_was_running [OF assms(3)] by (simp add: account_inv_def)
  show "accounted resolve m'"
    using assms(3)
  proof cases
    case (ss_throttle t)
    then show ?thesis
      using acc by (simp add: accounted_def ledger_def writes_of_def own_step_def)
  next
    case ss_written
    from writePkts_next_effect [OF this] show ?thesis
      using acc by (simp add: accounted_def ledger_def writes_of_def)
  qed (use assms(1) acc run' ok in \<open>blast intro: accounted_read accounted_process accounted_send accounted_write
    accounted_return\<close>)+
qed

interpretation acc: transition_invariant "\<lambda>m. plain svr \<and> account_inv resolve m" "serve_step svr resolve"
  "\<lambda>m. plain svr \<and> account_inv resolve m" for svr :: "'z ServerState_scheme UDPServer" and resolve
  by unfold_locales (auto intro: account_inv_step)

section \<open>The way of one datagram\<close>

text \<open>
  A server that waits: its throttle is reading from the connection, nothing is queued and nothing is
  being processed.
\<close>

definition quiet :: "'z ServerState_scheme ServeState \<Rightarrow> bool" where
  "quiet m \<longleftrightarrow> (\<exists>n. phase m = Serving (Suc n)) \<and> (\<exists>s. reader (sth m) = Op s ()) \<and> writer (sth m) = Top \<and>
     recv (th (sth m)) = [] \<and> send (th (sth m)) = [] \<and> incoming m = [] \<and> swriter m = None \<and>
     sendStream (world m) = [] \<and> writeStream (world m) = []"


text \<open>Reading a datagram: from the connection into the throttle's queue, and to a goroutine.\<close>

lemma quiet_reads:
  fixes m :: "'z ServerState_scheme ServeState"
  assumes "quiet m"
  shows "\<exists>m1. (serve_step svr resolve)\<^sup>*\<^sup>* m m1 \<and> world m1 = world m \<and> phase m1 = phase m \<and> swriter m1 = None \<and>
    incoming m1 = [(take (rbuffSize (th (sth m))) data, sender)] \<and> writer (sth m1) = Top \<and> send (th (sth m1)) = [] \<and>
    submitted (sth m1) = submitted (sth m) \<and>
    datagrams (taken (sth m1)) = datagrams (taken (sth m)) @ [(take (rbuffSize (th (sth m))) data, sender)]"
proof -
  obtain n s where q: "phase m = Serving (Suc n)" "reader (sth m) = Op s ()" "recv (th (sth m)) = []"
    and run: "running m"
    using assms by (auto simp: quiet_def running_def)
  let ?rp = "\<lparr>rdata = take (rbuffSize (th (sth m))) data, rsender = Some sender, rerr = None\<rparr>"
  let ?t1 = "(sth m)\<lparr>reader := Out s ?rp, arrived := arrived (sth m) @ [?rp]\<rparr>"
  let ?t2 = "?t1\<lparr>th := (th (sth m))\<lparr>recv := [?rp]\<rparr>,
    reader := Asleep (clock (sth m) + throttleOperation (th (sth m)) (time_Sub (clock (sth m)) s))\<rparr>"
  let ?t3 = "?t2\<lparr>th := th (sth m), taken := taken (sth m) @ [?rp]\<rparr>"
  let ?m3 = "m\<lparr>sth := ?t3, incoming := [(rdata ?rp, sender)]\<rparr>"
  have 1: "read_conn (Inr (data, sender)) (sth m) = Some ?t1"
    using q by (simp add: read_conn_def Let_def)
  then have "serve_step svr resolve m (m\<lparr>sth := ?t1\<rparr>)"
    by (intro ss_throttle run rs_read_conn) (auto simp: own_step_def)
  moreover have 2: "read_send (sth (m\<lparr>sth := ?t1\<rparr>)) = Some ?t2"
    using q by (simp add: read_send_def chan_cap_def)
  then have "serve_step svr resolve (m\<lparr>sth := ?t1\<rparr>) (m\<lparr>sth := ?t1\<rparr>\<lparr>sth := ?t2\<rparr>)"
    using run by (intro ss_throttle rs_read_send) (auto simp: own_step_def running_def)
  moreover have "readPkts (m\<lparr>sth := ?t1\<rparr>\<lparr>sth := ?t2\<rparr>) = Some ?m3"
    using q assms by (simp add: readPkts_def ReadFrom_def addr_String_def quiet_def)
  then have "serve_step svr resolve (m\<lparr>sth := ?t1\<rparr>\<lparr>sth := ?t2\<rparr>) ?m3"
    by (rule ss_read)
  ultimately have "(serve_step svr resolve)\<^sup>*\<^sup>* m ?m3"
    by (meson converse_rtranclp_into_rtranclp r_into_rtranclp)
  then show ?thesis
    using assms by (intro exI [of _ ?m3]) (simp add: quiet_def datagrams_def addr_String_def)
qed

text \<open>Processing the one datagram: from its goroutine to the write stream.\<close>

lemma one_processed:
  fixes m :: "'z ServerState_scheme ServeState"
  assumes "plain svr" and "running m" and "open_ok (world m)" and "incoming m = [(d, a)]" and "harmless d"
    and "sendStream (world m) = []" and "writeStream (world m) = []"
    and "\<And>p. answers (d, a) p \<Longrightarrow> resolve (Dest p) \<noteq> None"
  shows "\<exists>w p bin dst. (serve_step svr resolve)\<^sup>*\<^sup>* m (m\<lparr>incoming := [], world := w\<rparr>) \<and> answers (d, a) p \<and>
    written_as resolve p (bin, dst) \<and> open_ok w \<and> sendStream w = [] \<and> writeStream w = [\<lparr>wpData = bin, wpAddr = dst\<rparr>]"
proof -
  obtain pkt pc' where new: "NewPkt '''' '''' (pc (world m)) = Inr (pkt, pc')"
    using NewPkt_synced assms(3) by blast
  obtain w1 p where w1: "UDPServer_processIncoming svr d a (world m) = Inr w1" "open_ok w1" "sendStream w1 = [p]"
    "pkt_synced p" "writeStream w1 = []" "reply_of p = serve_spec a (decoded (Unmarshal d pkt))"
    using processIncoming_plain [OF assms(1,3) _ new, of d a] assms(5-7) by (auto simp: harmless_def)
  obtain bin where bin: "Marshal p = Some bin"
    by (simp add: Marshal_def)
  have ans: "answers (d, a) p"
    using assms(3) new w1(6) by (auto simp: answers_def)
  then obtain dst where dst: "resolve (Dest p) = Some dst"
    using assms(8) by fastforce
  let ?w2 = "svr_PutBack p (w1\<lparr>sendStream := [], writeStream := [\<lparr>wpData = bin, wpAddr = dst\<rparr>]\<rparr>)"
  let ?m1 = "m\<lparr>incoming := [], world := w1\<rparr>" and ?m2 = "m\<lparr>incoming := [], world := ?w2\<rparr>"
  have "process_next svr 0 m = Some ?m1"
    using assms(2,4) w1(1) by (simp add: process_next_def outcome_def)
  moreover have "sendPkts svr resolve 0 ?m1 = Some ?m2"
    using assms(1,2) w1 bin processOutgoing_plain [of svr "w1\<lparr>sendStream := []\<rparr>" resolve p dst bin, OF _ _ dst]
    by (simp add: sendPkts_def outcome_def running_def)
  ultimately have "(serve_step svr resolve)\<^sup>*\<^sup>* m ?m2"
    by (meson ss_process ss_send converse_rtranclp_into_rtranclp r_into_rtranclp)
  moreover have "written_as resolve p (bin, dst)"
    using bin dst by (simp add: written_as_def)
  ultimately show ?thesis
    using ans w1(2,4) by (intro exI [of _ ?w2] exI [of _ p] exI [of _ bin] exI [of _ dst]) (simp add: svr_PutBack_def)
qed

text \<open>Writing the one packet: through the throttle to the connection.\<close>

lemma one_written:
  fixes m :: "'z ServerState_scheme ServeState"
  assumes "phase m = Serving n" and "swriter m = None" and "writeStream (world m) = [\<lparr>wpData = bin, wpAddr = dst\<rparr>]"
    and "writer (sth m) = Top" and "send (th (sth m)) = []"
  shows "\<exists>m' k. (serve_step svr resolve)\<^sup>*\<^sup>* m m' \<and> writer (sth m') = Op (clock (sth m')) \<lparr>wdata = bin, wto = dst, respCh = k\<rparr> \<and>
    submitted (sth m') = submitted (sth m) @ [\<lparr>wdata = bin, wto = dst, respCh = k\<rparr>] \<and>
    taken (sth m') = taken (sth m) \<and> phase m' = phase m"
proof -
  let ?k = "length (submitted (sth m))"
  let ?w = "\<lparr>wdata = bin, wto = dst, respCh = ?k\<rparr>"
  let ?t1 = "(sth m)\<lparr>th := (th (sth m))\<lparr>send := [?w]\<rparr>, submitted := submitted (sth m) @ [?w]\<rparr>"
  let ?t2 = "?t1\<lparr>th := (th (sth m))\<lparr>send := []\<rparr>, writer := Op (clock (sth m)) ?w, wstarts := wstarts (sth m) @ [clock (sth m)]\<rparr>"
  let ?m1 = "m\<lparr>world := (world m)\<lparr>writeStream := []\<rparr>, sth := ?t1, swriter := Some ?k\<rparr>"
  have "writePkts m = Some ?m1"
    using assms by (simp add: writePkts_def WriteTo_def chan_cap_def Let_def)
  moreover have "write_start (sth ?m1) = Some ?t2"
    using assms by (simp add: write_start_def)
  then have "serve_step svr resolve ?m1 (?m1\<lparr>sth := ?t2\<rparr>)"
    using assms(1) by (intro ss_throttle rs_write_start) (auto simp: own_step_def running_def)
  ultimately have "(serve_step svr resolve)\<^sup>*\<^sup>* m (?m1\<lparr>sth := ?t2\<rparr>)"
    by (meson ss_write converse_rtranclp_into_rtranclp r_into_rtranclp)
  then show ?thesis
    by (intro exI [of _ "?m1\<lparr>sth := ?t2\<rparr>"] exI [of _ ?k]) simp
qed

lemma quiet_answers:
  fixes m :: "'z ServerState_scheme ServeState"
  assumes "plain svr" and "quiet m" and "open_ok (world m)"
    and "\<And>p. answers (take (rbuffSize (th (sth m))) data, sender) p \<Longrightarrow> resolve (Dest p) \<noteq> None"
    and "harmless (take (rbuffSize (th (sth m))) data)"
  shows "\<exists>m' p bin dst k. (serve_step svr resolve)\<^sup>*\<^sup>* m m' \<and> answers (take (rbuffSize (th (sth m))) data, sender) p \<and>
    written_as resolve p (bin, dst) \<and> writer (sth m') = Op (clock (sth m')) \<lparr>wdata = bin, wto = dst, respCh = k\<rparr> \<and>
    submitted (sth m') = submitted (sth m) @ [\<lparr>wdata = bin, wto = dst, respCh = k\<rparr>] \<and>
    datagrams (taken (sth m')) = datagrams (taken (sth m)) @ [(take (rbuffSize (th (sth m))) data, sender)] \<and>
    phase m' = phase m"
proof -
  let ?d = "take (rbuffSize (th (sth m))) data"
  obtain m1 where m1: "(serve_step svr resolve)\<^sup>*\<^sup>* m m1" "world m1 = world m" "phase m1 = phase m" "swriter m1 = None"
    "incoming m1 = [(?d, sender)]" "writer (sth m1) = Top" "send (th (sth m1)) = []"
    "submitted (sth m1) = submitted (sth m)" "datagrams (taken (sth m1)) = datagrams (taken (sth m)) @ [(?d, sender)]"
    using quiet_reads [OF assms(2)] by blast
  obtain n where n: "phase m1 = Serving n"
    using assms(2) m1(3) by (auto simp: quiet_def)
  then have "running m1" "open_ok (world m1)" "sendStream (world m1) = []" "writeStream (world m1) = []"
    using assms(2,3) m1(2) by (auto simp: quiet_def running_def)
  from one_processed [where resolve = resolve, OF assms(1) this(1,2) m1(5) assms(5) this(3,4) assms(4)]
  obtain w p bin dst where w: "(serve_step svr resolve)\<^sup>*\<^sup>* m1 (m1\<lparr>incoming := [], world := w\<rparr>)" "answers (?d, sender) p"
    "written_as resolve p (bin, dst)" "writeStream w = [\<lparr>wpData = bin, wpAddr = dst\<rparr>]"
    by blast
  let ?m2 = "m1\<lparr>incoming := [], world := w\<rparr>"
  obtain m' k where m': "(serve_step svr resolve)\<^sup>*\<^sup>* ?m2 m'"
    "writer (sth m') = Op (clock (sth m')) \<lparr>wdata = bin, wto = dst, respCh = k\<rparr>"
    "submitted (sth m') = submitted (sth m) @ [\<lparr>wdata = bin, wto = dst, respCh = k\<rparr>]"
    "taken (sth m') = taken (sth m1)" "phase m' = phase m"
    using one_written [of ?m2 n bin dst svr resolve] n m1(3,4,6-8) w(4) by auto
  have "(serve_step svr resolve)\<^sup>*\<^sup>* m m'"
    using m1(1) w(1) m'(1) by (meson rtranclp_trans)
  then show ?thesis
    using w(2,3) m' m1(9) by metis
qed

section \<open>Properties of serving\<close>


text \<open>A server that waits for its first datagram, and its answer to one.\<close>

definition demo_waiting :: ThState where
  "demo_waiting = (th_init demo_throttle 0)\<lparr>reader := Op 0 (), rstarts := [0]\<rparr>"

lemma demo_waiting_quiet:
  assumes "Serve_start demo_svr demo_waiting (demo_world [] Map.empty) = (svr, m)"
  shows "quiet m" and "plain svr" and "open_ok (world m)" and "rbuffSize (th (sth m)) = 4096"
    and "taken (sth m) = []" and "submitted (sth m) = []" and "phase m = Serving 5"
proof -
  show "plain svr"
    using Serve_start_plain [OF NewUDPServer_plain [OF demo_svr_new] assms] by blast
  show "quiet m"
    using assms by (auto simp: quiet_def Serve_start_def numReaders_def demo_waiting_def th_init_def demo_world_def demo_throttle_def)
qed (use assms in \<open>auto simp: Serve_start_def numReaders_def demo_waiting_def th_init_def demo_throttle_def\<close>)

lemma harmless_junk: "harmless ''junk''"
  by (simp add: harmless_def json_parse_def read_value.simps read_literal_def read_number_def read_int_def
      read_digits_def is_ws_def is_digit_def)

lemma demo_answers:
  assumes "Serve_start demo_svr demo_waiting (demo_world [] Map.empty) = (svr, m0)"
  shows "\<exists>m w. (serve_step svr Some)\<^sup>*\<^sup>* m0 m \<and> phase m = Serving 5 \<and>
    datagrams (taken (sth m)) = [(''junk'', ''10.0.0.1:9'')] \<and> submitted (sth m) = [w]"
proof -
  note q = demo_waiting_quiet [OF assms]
  have "take (rbuffSize (th (sth m0))) ''junk'' = ''junk''" "datagrams (taken (sth m0)) = []"
    by (simp_all add: q(4,5) datagrams_def)
  then show ?thesis
    using quiet_answers [OF q(2,1,3), of "''junk''" "''10.0.0.1:9''" Some] harmless_junk q(6,7) by auto
qed


text \<open>
  C21: a datagram can be answered. From every state in which a server without extensions waits for a
  datagram, whatever arrives next, up to the size of the read buffer, the goroutines of the server and
  of its throttle have a common continuation that ends with the reply the specification gives for it
  being written to the connection, for the address of the reply's destination.
\<close>

theorem datagram_can_be_answered:
  fixes m :: "'z ServerState_scheme ServeState"
  assumes "NewUDPServer None a sz r = Inr (Inr svr0)" and "Serve_start svr0 t w = (svr, m0)"
    and "quiet m" and "pool_ok (pc (world m))" and "\<not> streamsClosed (world m)" and "length data \<le> rbuffSize (th (sth m))"
    and "harmless data" and "\<And>p. answers (data, sender) p \<Longrightarrow> resolve (Dest p) \<noteq> None"
  shows "\<exists>m' p pkt. (serve_step svr resolve)\<^sup>*\<^sup>* m m' \<and> answers (data, sender) p \<and>
    written_as resolve p (wdata pkt, wto pkt) \<and> writer (sth m') = Op (clock (sth m')) pkt \<and>
    submitted (sth m') = submitted (sth m) @ [pkt]"
proof -
  have "plain svr"
    using Serve_start_plain [OF NewUDPServer_plain [OF assms(1)] assms(2)] by blast
  moreover have "take (rbuffSize (th (sth m))) data = data"
    using assms(6) by simp
  ultimately obtain m' p bin dst k where "(serve_step svr resolve)\<^sup>*\<^sup>* m m'" "answers (data, sender) p"
    "written_as resolve p (bin, dst)" "writer (sth m') = Op (clock (sth m')) \<lparr>wdata = bin, wto = dst, respCh = k\<rparr>"
    "submitted (sth m') = submitted (sth m) @ [\<lparr>wdata = bin, wto = dst, respCh = k\<rparr>]"
    using quiet_answers [of svr m data sender resolve] assms(3-5,7,8) by auto
  then show ?thesis
    by (intro exI [of _ m'] exI [of _ p] exI [of _ "\<lparr>wdata = bin, wto = dst, respCh = k\<rparr>"]) simp
qed

theorem datagram_can_be_answered_witness:
  "\<exists>svr m0 m' p pkt. Serve_start demo_svr demo_waiting (demo_world [] Map.empty) = (svr, m0) \<and>
     (serve_step svr Some)\<^sup>*\<^sup>* m0 m' \<and> answers (''junk'', ''10.0.0.1:9'') p \<and>
     written_as Some p (wdata pkt, wto pkt) \<and> submitted (sth m') = [pkt]"
proof -
  obtain svr m0 where start: "Serve_start demo_svr demo_waiting (demo_world [] Map.empty) = (svr, m0)"
    by fastforce
  note q = demo_waiting_quiet [OF start]
  have "pool_ok (pc (world m0))" "\<not> streamsClosed (world m0)" "length ''junk'' \<le> rbuffSize (th (sth m0))"
    using q(3,4) by simp_all
  from datagram_can_be_answered [OF demo_svr_new start q(1) this harmless_junk, of "''10.0.0.1:9''" Some]
  obtain m' p pkt where "(serve_step svr Some)\<^sup>*\<^sup>* m0 m'" "answers (''junk'', ''10.0.0.1:9'') p"
    "written_as Some p (wdata pkt, wto pkt)" "submitted (sth m') = [pkt]"
    using q(6) by auto
  then show ?thesis
    using start by blast
qed

text \<open>
  A packet that names no target the server knows is answered by an error packet, which names no target
  either.
\<close>

definition bounces :: "JSONPkt \<Rightarrow> bool" where
  "bounces p \<longleftrightarrow> pkt_synced p \<and> meta_utf8 (MetaMap p) \<and> MetaGet KeyTarget p \<noteq> TargetRelay"

lemma error_bounces:
  assumes "pkt_synced e" and "MetaMap e = [(KeySvrMsg, msg), (KeyRef, ref), (KeySvrStatus, ''-1'')]"
    and "utf8_valid msg" and "utf8_valid ref"
  shows "bounces e \<and> MetaGet KeySvrStatus e = ''-1''"
proof -
  have "meta_utf8 (MetaMap e)"
    using assms(3,4) by (simp add: assms(2) meta_utf8_def key_defs utf8_valid_def to_valid_ascii)
  then show ?thesis
    using assms(1) by (simp add: bounces_def MetaGet_MetaMap assms(2) gm_str_def key_defs TargetRelay_def)
qed

lemma utf8_MetaGet: "meta_utf8 (MetaMap p) \<Longrightarrow> utf8_valid (MetaGet k p)"
proof (cases "map_of (MetaMap p) k")
  case None
  then show ?thesis
    by (simp add: MetaGet_MetaMap gm_str_def utf8_valid_def to_valid_ascii)
next
  case (Some v)
  then have "(k, v) \<in> set (MetaMap p)"
    by (rule map_of_SomeD)
  then show "meta_utf8 (MetaMap p) \<Longrightarrow> ?thesis"
    using Some by (auto simp: MetaGet_MetaMap gm_str_def meta_utf8_def list_all_iff)
qed

lemma bounce_step:
  fixes s :: "'z ServerState_scheme"
  assumes "plain svr" and "open_ok s" and "bounces p"
  shows "\<exists>b e s'. Marshal p = Some b \<and> UDPServer_processIncoming svr b sender s = Inr s' \<and> open_ok s' \<and>
    sendStream s' = sendStream s @ [e] \<and> Dest e = sender \<and> bounces e \<and> MetaGet KeySvrStatus e = ''-1''"
proof -
  obtain b where b: "Marshal p = Some b"
    by (simp add: Marshal_def)
  have p: "pkt_synced p" "meta_utf8 (MetaMap p)" "MetaGet KeyTarget p \<noteq> TargetRelay"
    using assms(3) by (simp_all add: bounces_def)
  obtain pkt pc' where pkt: "NewPkt '''' '''' (pc s) = Inr (pkt, pc')" "pkt_synced pkt" "pool_ok pc'"
    "MetaMap pkt = [(KeyRef, '''')]"
    using NewPkt_synced [of "pc s" "''''" "''''"] assms(2) by auto
  obtain q where q: "pkt_synced q" "map_of (MetaMap q) = map_of (MetaMap pkt) ++ map_of (MetaMap p)"
    "Unmarshal b pkt = (case b64_decode (to_valid (jData p)) of
       None \<Rightarrow> (q, Some CorruptBase64) | Some d \<Rightarrow> (q\<lparr>buff := d\<rparr>, None))"
    using Unmarshal_Marshal_meta [OF p(1,2) pkt(2) b] by blast
  have get: "MetaGet k q = MetaGet k p" for k
    using q(2) pkt(4) by (auto simp: MetaGet_MetaMap gm_str_def map_add_def split: option.splits)
  let ?s1 = "s\<lparr>pc := pc'\<rparr>"
  have open1: "open_ok ?s1"
    using assms(2) pkt(3) by simp
  show ?thesis
  proof (cases "b64_decode (to_valid (jData p))")
    case None
    obtain e pc2 where e: "svr_send_err '''' sender ''malformed packet'' ?s1 = Inr (?s1\<lparr>pc := pc2, sendStream := sendStream ?s1 @ [e]\<rparr>)"
      "pool_ok pc2" "pkt_synced e" "Dest e = sender"
      "MetaMap e = [(KeySvrMsg, ''malformed packet''), (KeyRef, ''''), (KeySvrStatus, ''-1'')]"
      using svr_send_err_ok [OF open1] by blast
    have "bounces e \<and> MetaGet KeySvrStatus e = ''-1''"
      by (rule error_bounces [OF e(3,5)]) (simp_all add: utf8_valid_def to_valid_ascii)
    then show ?thesis
      using None e b assms(2) q(1)
      by (simp add: UDPServer_processIncoming_def assms(1) pkt(1) q(3) code_defs svr_PutBack_def)
  next
    case (Some d)
    have get': "MetaGet k (q\<lparr>buff := d\<rparr>) = MetaGet k p" for k
      using get [of k] by (simp add: MetaGet_MetaMap)
    obtain s' e where run: "run_target (packetP (procs svr)) (q\<lparr>buff := d\<rparr>) sender ?s1 = Inr s'" "open_ok s'"
      "sendStream s' = sendStream s @ [e]" "pkt_synced e" "Dest e = sender"
      "MetaMap e = [(KeySvrMsg, ''packet pipeline error: target not found''), (KeyRef, MetaGet KeyRef p), (KeySvrStatus, ''-1'')]"
      using run_target_unknown [OF assms(1) open1, of "q\<lparr>buff := d\<rparr>" sender] q(1) p(3) get' by auto
    have "bounces e \<and> MetaGet KeySvrStatus e = ''-1''"
      by (rule error_bounces [OF run(4,6)]) (simp_all add: utf8_MetaGet p(2), simp add: utf8_valid_def to_valid_ascii)
    with run(1-3,5) show ?thesis
      using Some b by (simp add: UDPServer_processIncoming_def assms(1) pkt(1) q(3) code_defs)
  qed
qed

text \<open>
  C28: error packets bounce forever. A server answers a packet whose target it does not know by an error
  packet to the sender, and an error packet has no target: whoever sends what it gets back, another
  server, or the server itself when it relayed a packet to its own address, keeps the exchange going
  without end. From every sound state and every such packet there is an infinite sequence of states in
  which each error packet, once received, puts the next one into the queue.
\<close>

theorem errors_bounce_forever:
  fixes s :: "'z ServerState_scheme"
  assumes "NewUDPServer None a sz r = Inr (Inr svr)" and "pool_ok (pc s)" and "\<not> streamsClosed s"
    and "pkt_synced p" and "meta_utf8 (MetaMap p)" and "MetaGet KeyTarget p \<noteq> TargetRelay"
  shows "\<exists>f. f 0 = (p, s) \<and> (\<forall>n. \<exists>b. Marshal (fst (f n)) = Some b \<and>
    UDPServer_processIncoming svr b peer (snd (f n)) = Inr (snd (f (Suc n))) \<and>
    sendStream (snd (f (Suc n))) = sendStream (snd (f n)) @ [fst (f (Suc n))] \<and>
    Dest (fst (f (Suc n))) = peer \<and> MetaGet KeySvrStatus (fst (f (Suc n))) = ''-1'')"
proof -
  have plain: "plain svr"
    by (rule NewUDPServer_plain [OF assms(1)])
  let ?ok = "\<lambda>x :: JSONPkt \<times> 'z ServerState_scheme. bounces (fst x) \<and> open_ok (snd x)"
  let ?next = "\<lambda>x y :: JSONPkt \<times> 'z ServerState_scheme. \<exists>b. Marshal (fst x) = Some b \<and>
    UDPServer_processIncoming svr b peer (snd x) = Inr (snd y) \<and> sendStream (snd y) = sendStream (snd x) @ [fst y] \<and>
    Dest (fst y) = peer \<and> MetaGet KeySvrStatus (fst y) = ''-1''"
  have "\<exists>y. ?ok y \<and> ?next x y" if "?ok x" for x
    using bounce_step [OF plain, of "snd x" "fst x" peer] that by fastforce
  then have "\<exists>f. \<forall>n. (?ok (f n) \<and> (n = 0 \<longrightarrow> f n = (p, s))) \<and> ?next (f n) (f (Suc n))"
    using assms(2-6) by (intro dependent_nat_choice) (auto simp: bounces_def)
  then show ?thesis by blast
qed

theorem errors_bounce_forever_witness:
  "\<exists>f. f 0 = (newJSONPkt, demo_world [] Map.empty) \<and> (\<forall>n. \<exists>b. Marshal (fst (f n)) = Some b \<and>
     UDPServer_processIncoming demo_svr b ''127.0.0.1:10000'' (snd (f n)) = Inr (snd (f (Suc n))) \<and>
     length (sendStream (snd (f (Suc n)))) = Suc (length (sendStream (snd (f n)))))"
proof -
  have "meta_utf8 (MetaMap newJSONPkt)" "MetaGet KeyTarget newJSONPkt \<noteq> TargetRelay"
    by (simp_all add: newJSONPkt_def MetaMap_def meta_utf8_def MetaGet_def KVMeta_Get_def gm_str_def TargetRelay_def)
  from errors_bounce_forever [OF demo_svr_new _ _ newJSONPkt_synced this, of "demo_world [] Map.empty" "''127.0.0.1:10000''"]
  obtain f where f: "f 0 = (newJSONPkt, demo_world [] Map.empty)" "\<forall>n. \<exists>b. Marshal (fst (f n)) = Some b \<and>
     UDPServer_processIncoming demo_svr b ''127.0.0.1:10000'' (snd (f n)) = Inr (snd (f (Suc n))) \<and>
     sendStream (snd (f (Suc n))) = sendStream (snd (f n)) @ [fst (f (Suc n))] \<and>
     Dest (fst (f (Suc n))) = ''127.0.0.1:10000'' \<and> MetaGet KeySvrStatus (fst (f (Suc n))) = ''-1''"
    by auto
  then have "\<exists>b. Marshal (fst (f n)) = Some b \<and>
     UDPServer_processIncoming demo_svr b ''127.0.0.1:10000'' (snd (f n)) = Inr (snd (f (Suc n))) \<and>
     length (sendStream (snd (f (Suc n)))) = Suc (length (sendStream (snd (f n))))" for n
    by (metis length_append_singleton)
  then show ?thesis
    using f(1) by blast
qed

end
