(* ===== verification/Udp_System.thy ===== *)
theory Udp_System
  imports Udp_Serving Udp_Client
begin

text \<open>
  A UDP server and its clients on one network. The server is the transition system of \<open>Serve\<close> with its
  throttle, every client that of its goroutines with its throttle; a step of the system is a step of
  one of them. The network delivers datagrams that an endpoint has written, to the address they were
  written to; it may lose, delay, reorder and duplicate them, and cut them off at the size of the read
  buffer, but it does not invent any.
\<close>

section \<open>What a client receives\<close>

text \<open>A packet decoded from a datagram that was taken from the throttle, and the client's own report of a
  failed write.\<close>

definition decoded_from :: "readPkt list \<Rightarrow> JSONPkt \<Rightarrow> bool" where
  "decoded_from rps p \<longleftrightarrow> (\<exists>rp pkt. rp \<in> set rps \<and> rerr rp = None \<and> Unmarshal (rdata rp) pkt = (p, None))"

definition own_report :: "JSONPkt \<Rightarrow> bool" where
  "own_report p \<longleftrightarrow> (\<exists>e c c'. NewErrPkt '''' '''' (''packet write error: '' @ e) c = Inr (p, c'))"

definition datagram_in :: "readPkt list \<Rightarrow> bytes \<Rightarrow> bool" where
  "datagram_in rps b \<longleftrightarrow> (\<exists>rp \<in> set rps. rerr rp = None \<and> rdata rp = b)"

definition holds_from :: "readPkt list \<Rightarrow> 'w ClientRun \<Rightarrow> bool" where
  "holds_from rps m \<longleftrightarrow>
     list_all (datagram_in rps) (arriving m) \<and> list_all (\<lambda>d. decoded_from rps (fst (snd d))) (delivering m) \<and>
     (\<forall>k p. cwriter m = WReport k p \<longrightarrow> own_report p) \<and>
     list_all (\<lambda>d. own_report (snd d) \<or> decoded_from rps (snd d)) (inbox m) \<and> list_all (decoded_from rps) (misc m)"

definition source_inv :: "'z ClientState_scheme UDPClient \<Rightarrow> 'z ClientState_scheme ClientRun \<Rightarrow> bool" where
  "source_inv c m \<longleftrightarrow> client_inv m \<and> holds_from (taken (cth m)) m \<and> queue_inv (cth m) \<and>
     (\<forall>w \<in> set (submitted (cth m)). wto w = svrAddr c)"

lemma own_reportI: "NewErrPkt '''' '''' (''packet write error: '' @ e) c = Inr (p, c') \<Longrightarrow> own_report p"
  unfolding own_report_def by blast

lemma cth_crash [simp]: "cth (crash p m) = cth m"
  by (simp add: crash_def)

lemma decoded_from_mono: "decoded_from rps p \<Longrightarrow> set rps \<subseteq> set rps' \<Longrightarrow> decoded_from rps' p"
  by (auto simp: decoded_from_def)

lemma datagram_in_mono: "datagram_in rps b \<Longrightarrow> set rps \<subseteq> set rps' \<Longrightarrow> datagram_in rps' b"
  by (auto simp: datagram_in_def)

lemma holds_from_mono:
  assumes "holds_from rps m" and "set rps \<subseteq> set rps'"
  shows "holds_from rps' m"
  using assms decoded_from_mono [OF _ assms(2)] datagram_in_mono [OF _ assms(2)]
  by (auto simp: holds_from_def elim!: list_all_weaken)

lemma holds_from_frame [simp]:
  "holds_from rps (m\<lparr>cth := t\<rparr>) = holds_from rps m" "holds_from rps (m\<lparr>cworld := w\<rparr>) = holds_from rps m"
  "holds_from rps (m\<lparr>recvDone := b\<rparr>) = holds_from rps m" "holds_from rps (m\<lparr>connClosed := b\<rparr>) = holds_from rps m"
  "holds_from rps (m\<lparr>doneClosed := b\<rparr>) = holds_from rps m" "holds_from rps (crash p m) = holds_from rps m"
  "holds_from rps (m\<lparr>requests := r\<rparr>) = holds_from rps m" "holds_from rps (m\<lparr>registering := x\<rparr>) = holds_from rps m"
  "holds_from rps (m\<lparr>deleting := d\<rparr>) = holds_from rps m" "holds_from rps (m\<lparr>handing := h\<rparr>) = holds_from rps m"
  "holds_from rps (m\<lparr>sent := s\<rparr>) = holds_from rps m"
  by (simp_all add: holds_from_def crash_def)

subsection \<open>The throttle of a client\<close>

lemma th_step_arrived: "th_step t t' \<Longrightarrow> \<exists>rps. arrived t' = arrived t @ rps"
  by (erule th_step.cases, erule run_step.cases)
    (auto simp: elapse_def Let_def dest!: read_start_effect read_conn_effect
      read_send_effect read_wake_effect write_start_effect write_conn_effect write_reply_effect
      write_wake_effect stop_reader_effect stop_writer_effect idle_effects)

lemma th_steps_arrived: "th_step\<^sup>*\<^sup>* t t' \<Longrightarrow> \<exists>rps. arrived t' = arrived t @ rps"
  by (induction rule: rtranclp_induct) (auto dest!: th_step_arrived)

lemma th_steps_queue: "th_step\<^sup>*\<^sup>* t t' \<Longrightarrow> queue_inv t \<Longrightarrow> queue_inv t'"
  by (induction rule: rtranclp_induct) (auto intro: queue_inv_step)

lemma client_step_throttle:
  assumes "plain_client c" and "client_step c m m'" and "pool_wf (cpc (cworld m))"
  shows "th_step\<^sup>*\<^sup>* (cth m) (cth m')"
  using assms(2)
proof cases
  case (cs_Send pkt ch)
  from Send_effect [OF assms(1) this] show ?thesis
    by (auto simp: crash_def)
next
  case cs_take
  from take_effect [OF this] obtain d a t where "WriteTo d a (cth m) = Some t" "cth m' = t"
    by auto
  then show ?thesis
    by (auto intro: ts_run rs_WriteTo)
next
  case cs_recv
  from recv_effect [OF this] obtain rp t where "ReadFrom (cth m) = Some (rp, t)" "cth m' = t"
    by auto
  then show ?thesis
    by (auto intro: ts_run rs_ReadFrom)
next
  case cs_Cleanup_call
  from Cleanup_call_effect [OF this] have "cth m' = cth m \<or> Shutdown_call (cth m) = Some (cth m')"
    by auto
  then show ?thesis
    by (elim disjE) (simp, rule r_into_rtranclp, rule ts_run, rule rs_Shutdown_call)
next
  case cs_answer
  from answer_effect [OF this] show ?thesis
    by (auto simp: crash_def)
next
  case (cs_process i)
  from process_effect [OF assms(1) this assms(3)] show ?thesis
    by (auto simp: crash_def)
next
  case (cs_deliver i)
  from deliver_effect [OF this] show ?thesis
    by (auto split: option.splits)
qed (auto dest!: register_effect report_effect write_stop_effect recv_stop_effect delete_effect Cleanup_return_effect)

subsection \<open>The sources of what it holds\<close>

lemma source_throttle:
  assumes "source_inv c m" and "th_step (cth m) t" and "own_step (cth m) t"
  shows "source_inv c (m\<lparr>cth := t\<rparr>)"
proof -
  have "client_inv (m\<lparr>cth := t\<rparr>)"
    using assms stuck_inv_step [of "cth m" t] by (simp add: source_inv_def client_inv_def route_inv_def)
  then show ?thesis
    using assms queue_inv_step [of "cth m" t] by (simp add: source_inv_def own_step_def)
qed

lemma source_process:
  assumes "plain_client c" and "source_inv c m" and "process_packet c i m = Some m'"
  shows "holds_from (taken (cth m)) m' \<and> cth m' = cth m"
proof -
  let ?m1 = "m\<lparr>arriving := remove_at i (arriving m)\<rparr>"
  have inv: "holds_from (taken (cth m)) m" "pool_wf (cpc (cworld m))"
    using assms(2) by (simp_all add: source_inv_def client_inv_def)
  then have m1: "holds_from (taken (cth m)) ?m1"
    by (simp add: holds_from_def list_all_remove_at)
  from process_effect [OF assms(1,3) inv(2)] consider (crash) q where "m' = crash q ?m1"
    | (drop) pc' where "m' = ?m1\<lparr>cworld := (cworld m)\<lparr>cpc := pc'\<rparr>\<rparr>"
    | (packet) pc' ch p pkt where "i < length (arriving m)" "Unmarshal (arriving m ! i) pkt = (p, None)"
        "m' = ?m1\<lparr>cworld := (cworld m)\<lparr>cpc := pc'\<rparr>, delivering := delivering m @ [(ch, p, MetaGet KeyRef p)]\<rparr>"
    by blast
  then show ?thesis
  proof cases
    case packet
    then have "datagram_in (taken (cth m)) (arriving m ! i)"
      using inv(1) by (simp add: holds_from_def list_all_length)
    then have "decoded_from (taken (cth m)) p"
      using packet(2) by (metis datagram_in_def decoded_from_def)
    then show ?thesis
      using m1 packet(3) by (simp add: holds_from_def)
  qed (use m1 in \<open>simp_all add: crash_def holds_from_def\<close>)
qed

lemma source_deliver:
  assumes "holds_from rps m" and "deliver i m = Some m'"
  shows "holds_from rps m' \<and> cth m' = cth m"
proof -
  obtain ch p ref m1 where d: "(ch, p, ref) \<in> set (delivering m)"
    and m1: "m1 = m\<lparr>delivering := remove_at i (delivering m), deleting := deleting m @ [ref]\<rparr>"
    and m': "case ch of Some x \<Rightarrow> m' = m1\<lparr>inbox := inbox m @ [(x, p)]\<rparr> | None \<Rightarrow> m' = m1\<lparr>misc := misc m @ [p]\<rparr>"
    using deliver_effect [OF assms(2)] by blast
  have "decoded_from rps p"
    using assms(1) d by (auto simp: holds_from_def list_all_iff)
  moreover have "holds_from rps m1"
    using assms(1) by (simp add: m1 holds_from_def list_all_remove_at)
  ultimately show ?thesis
    using m' by (cases ch) (simp_all add: m1 holds_from_def)
qed

lemma source_answer:
  assumes "holds_from rps m" and "write_answer m = Some m'"
  shows "holds_from rps m' \<and> cth m' = cth m"
  using answer_effect [OF assms(2)] assms(1) by (auto simp: holds_from_def crash_def intro: own_reportI)

lemma source_take:
  assumes "source_inv c m" and "write_take c m = Some m'"
  shows "holds_from (taken (cth m')) m' \<and> (\<forall>w \<in> set (submitted (cth m')). wto w = svrAddr c)"
proof -
  obtain wp ref hs t where "handing m = (wp, ref) # hs" and t: "WriteTo (cpData wp) (svrAddr c) (cth m) = Some t"
    and m': "m' = m\<lparr>handing := hs, registering := registering m @ [(ref, cpCh wp)], cth := t,
           cwriter := WAwait (length (submitted (cth m))) (cpCh wp)\<rparr>"
    using take_effect [OF assms(2)] by blast
  have "taken t = taken (cth m)" "\<forall>w \<in> set (submitted t). wto w = svrAddr c"
    using assms(1) WriteTo_effect [OF t] by (auto simp: source_inv_def Let_def)
  then show ?thesis
    using assms(1) by (simp add: m' source_inv_def holds_from_def)
qed

lemma source_recv:
  assumes "source_inv c m" and "recv_packet m = Some m'"
  shows "holds_from (taken (cth m')) m' \<and> submitted (cth m') = submitted (cth m)"
proof -
  obtain rp t where t: "ReadFrom (cth m) = Some (rp, t)"
    and m': "m' = m\<lparr>cth := t\<rparr> \<or> rerr rp = None \<and> m' = m\<lparr>cth := t, arriving := arriving m @ [rdata rp]\<rparr>"
    using recv_effect [OF assms(2)] by blast
  have "taken t = taken (cth m) @ [rp]" "submitted t = submitted (cth m)"
    using ReadFrom_effect [OF t] by auto
  moreover from this have "holds_from (taken t) m"
    using assms(1) holds_from_mono [of "taken (cth m)" m "taken t"] by (auto simp: source_inv_def)
  ultimately show ?thesis
    using m' by (auto simp: holds_from_def datagram_in_def)
qed

lemma source_inv_step:
  assumes "plain_client c" and "source_inv c m" and "client_step c m m'"
  shows "source_inv c m'"
proof -
  have inv: "client_inv m" "pool_wf (cpc (cworld m))" "holds_from (taken (cth m)) m" "queue_inv (cth m)"
    "\<forall>w \<in> set (submitted (cth m)). wto w = svrAddr c"
    using assms(2) by (simp_all add: source_inv_def client_inv_def)
  have inv': "client_inv m'" "queue_inv (cth m')"
    using client_inv_step [OF assms(1) inv(1) assms(3)] th_steps_queue [OF client_step_throttle [OF assms(1,3) inv(2)] inv(4)]
    by simp_all
  show ?thesis
    using assms(3)
  proof cases
    case (cs_throttle t)
    then show ?thesis
      using source_throttle [OF assms(2)] by simp
  next
    case (cs_Send pkt ch)
    from Send_effect [OF assms(1) this] show ?thesis
      using inv inv' by (auto simp: source_inv_def)
  next
    case cs_take
    from source_take [OF assms(2) this] show ?thesis
      using inv' by (simp add: source_inv_def)
  next
    case cs_recv
    from source_recv [OF assms(2) this] show ?thesis
      using inv inv' by (simp add: source_inv_def)
  next
    case cs_report
    from report_effect [OF this] show ?thesis
      using inv inv' by (auto simp: source_inv_def holds_from_def)
  next
    case cs_Cleanup_call
    from Cleanup_call_effect [OF this] show ?thesis
      using inv inv' by (auto simp: source_inv_def dest!: Shutdown_call_effect)
  next
    case (cs_process i)
    from source_process [OF assms(1,2) this] show ?thesis
      using inv inv' by (simp add: source_inv_def)
  next
    case (cs_deliver i)
    from source_deliver [OF inv(3) this] show ?thesis
      using inv inv' by (simp add: source_inv_def)
  next
    case cs_answer
    from source_answer [OF inv(3) this] show ?thesis
      using inv inv' by (simp add: source_inv_def)
  next
    case cs_write_stop
    from write_stop_effect [OF this] show ?thesis
      using inv inv' by (simp add: source_inv_def holds_from_def)
  qed (use inv inv' in \<open>auto simp: source_inv_def dest!: register_effect recv_stop_effect delete_effect
      Cleanup_return_effect\<close>)
qed

section \<open>The system\<close>

record ('s, 'c) System =
  sserver :: "'s ServeState"
  sclients :: "string \<Rightarrow> 'c ClientRun"

text \<open>The writes an endpoint has begun, and the datagrams on the network: source, destination, data.
  \<open>saddr\<close> is the address of the server and \<open>A\<close> the set of the addresses of its clients.\<close>

definition on_wire :: "ThState \<Rightarrow> writePkt list" where
  "on_wire t = map fst (answered t) @ writing (writer t)"

definition network :: "string \<Rightarrow> string set \<Rightarrow> ('s, 'c) System \<Rightarrow> (string \<times> string \<times> bytes) set" where
  "network saddr A S =
     {(saddr, wto w, wdata w) |w. w \<in> set (on_wire (sth (sserver S)))} \<union>
     {(a, wto w, wdata w) |a w. a \<in> A \<and> w \<in> set (on_wire (cth (sclients S a)))}"

text \<open>What arrives at an address in a step comes from the network.\<close>

definition arrives_from :: "(string \<times> string \<times> bytes) set \<Rightarrow> string \<Rightarrow> ThState \<Rightarrow> ThState \<Rightarrow> bool" where
  "arrives_from net dst t t' \<longleftrightarrow>
     (\<forall>rp \<in> set (drop (length (arrived t)) (arrived t')). rerr rp = None \<longrightarrow>
        (\<exists>src d. (src, dst, d) \<in> net \<and> rsender rp = Some src \<and> rdata rp = take (rbuffSize (th t)) d))"

inductive system_step ::
  "'z ServerState_scheme UDPServer \<Rightarrow> (string \<Rightarrow> string option) \<Rightarrow> string \<Rightarrow>
     (string \<Rightarrow> 'y ClientState_scheme UDPClient) \<Rightarrow> string set \<Rightarrow>
     ('z ServerState_scheme, 'y ClientState_scheme) System \<Rightarrow> ('z ServerState_scheme, 'y ClientState_scheme) System \<Rightarrow> bool"
  for svr resolve saddr cs A where
  sys_server: "serve_step svr resolve (sserver S) m \<Longrightarrow>
    arrives_from (network saddr A S) saddr (sth (sserver S)) (sth m) \<Longrightarrow>
    system_step svr resolve saddr cs A S (S\<lparr>sserver := m\<rparr>)"
| sys_client: "a \<in> A \<Longrightarrow> client_step (cs a) (sclients S a) m \<Longrightarrow>
    arrives_from (network saddr A S) a (cth (sclients S a)) (cth m) \<Longrightarrow>
    system_step svr resolve saddr cs A S (S\<lparr>sclients := (sclients S)(a := m)\<rparr>)"

section \<open>Where datagrams come from\<close>

text \<open>
  A datagram that arrived at the server was written by the client it names as its sender, or by the
  server to itself, since a client can have it relay to its own address; one that arrived at a client
  was written by the server, to that client.
\<close>

definition from_endpoint ::
  "string \<Rightarrow> string set \<Rightarrow> ThState \<Rightarrow> (string \<Rightarrow> 'c ClientRun) \<Rightarrow> bytes \<times> string \<Rightarrow> bool" where
  "from_endpoint saddr A st cl d \<longleftrightarrow>
     (\<exists>w n. fst d = take n (wdata w) \<and>
        (snd d \<in> A \<and> w \<in> set (submitted (cth (cl (snd d)))) \<or>
         snd d = saddr \<and> w \<in> set (submitted st) \<and> wto w = saddr))"

definition server_arrivals :: "string \<Rightarrow> string set \<Rightarrow> ThState \<Rightarrow> (string \<Rightarrow> 'c ClientRun) \<Rightarrow> ThState \<Rightarrow> bool" where
  "server_arrivals saddr A st cl t \<longleftrightarrow> (\<forall>d \<in> set (datagrams (arrived t)). from_endpoint saddr A st cl d)"

definition client_arrivals :: "ThState \<Rightarrow> string \<Rightarrow> ThState \<Rightarrow> bool" where
  "client_arrivals st a t \<longleftrightarrow>
     (\<forall>rp \<in> set (arrived t). rerr rp = None \<longrightarrow> (\<exists>w n. w \<in> set (submitted st) \<and> wto w = a \<and> rdata rp = take n (wdata w)))"

definition system_inv ::
  "'z ServerState_scheme UDPServer \<Rightarrow> (string \<Rightarrow> string option) \<Rightarrow> string \<Rightarrow> (string \<Rightarrow> 'y ClientState_scheme UDPClient) \<Rightarrow>
     string set \<Rightarrow> ('z ServerState_scheme, 'y ClientState_scheme) System \<Rightarrow> bool" where
  "system_inv svr resolve saddr cs A S \<longleftrightarrow>
     account_inv resolve (sserver S) \<and> queue_inv (sth (sserver S)) \<and> (\<forall>a \<in> A. source_inv (cs a) (sclients S a)) \<and>
     server_arrivals saddr A (sth (sserver S)) (sclients S) (sth (sserver S)) \<and>
     (\<forall>a \<in> A. client_arrivals (sth (sserver S)) a (cth (sclients S a)))"

lemma on_wire_submitted: "queue_inv t \<Longrightarrow> set (on_wire t) \<subseteq> set (submitted t)"
  by (auto simp: on_wire_def queue_inv_def)

lemma network_source:
  assumes "system_inv svr resolve saddr cs A S" and "saddr \<notin> A" and "\<forall>a \<in> A. svrAddr (cs a) = saddr"
    and "(src, dst, d) \<in> network saddr A S"
  shows "dst = saddr \<and> src \<in> A \<and> (\<exists>w \<in> set (submitted (cth (sclients S src))). wdata w = d) \<or>
    src = saddr \<and> (\<exists>w \<in> set (submitted (sth (sserver S))). wto w = dst \<and> wdata w = d)"
proof -
  have "set (on_wire (sth (sserver S))) \<subseteq> set (submitted (sth (sserver S)))"
    using assms(1) on_wire_submitted by (simp add: system_inv_def)
  moreover have "set (on_wire (cth (sclients S a))) \<subseteq> set (submitted (cth (sclients S a)))"
    "\<forall>w \<in> set (submitted (cth (sclients S a))). wto w = saddr" if "a \<in> A" for a
    using assms(1,3) that on_wire_submitted by (auto simp: system_inv_def source_inv_def)
  ultimately show ?thesis
    using assms(4) unfolding network_def by fastforce
qed

lemma arrivals_grow:
  assumes "th_step\<^sup>*\<^sup>* t t'"
  shows "set (arrived t') = set (arrived t) \<union> set (drop (length (arrived t)) (arrived t'))"
  using th_steps_arrived [OF assms] by auto

lemma th_step_submitted: "th_step t t' \<Longrightarrow> set (submitted t) \<subseteq> set (submitted t')"
  by (erule th_step.cases, erule run_step.cases)
    (auto simp: elapse_def Let_def dest!: read_start_effect read_conn_effect
      read_send_effect read_wake_effect write_start_effect write_conn_effect write_reply_effect
      write_wake_effect stop_reader_effect stop_writer_effect idle_effects)

lemma th_steps_submitted: "th_step\<^sup>*\<^sup>* t t' \<Longrightarrow> set (submitted t) \<subseteq> set (submitted t')"
  by (induction rule: rtranclp_induct) (auto dest: th_step_submitted)

lemma from_endpoint_mono:
  assumes "from_endpoint saddr A st cl d" and "set (submitted st) \<subseteq> set (submitted st')"
    and "\<And>a. a \<in> A \<Longrightarrow> set (submitted (cth (cl a))) \<subseteq> set (submitted (cth (cl' a)))"
  shows "from_endpoint saddr A st' cl' d"
  using assms unfolding from_endpoint_def by blast

lemma client_arrivals_mono:
  "client_arrivals st a t \<Longrightarrow> set (submitted st) \<subseteq> set (submitted st') \<Longrightarrow> client_arrivals st' a t"
  unfolding client_arrivals_def by blast

lemma datagrams_mem: "d \<in> set (datagrams rps) \<longleftrightarrow> (\<exists>rp \<in> set rps. rerr rp = None \<and> d = (rdata rp, addr_String (rsender rp)))"
  by (auto simp: datagrams_def)

lemma system_inv_server:
  assumes inv: "system_inv svr resolve saddr cs A S" and "plain svr" and A: "saddr \<notin> A" "\<forall>a \<in> A. svrAddr (cs a) = saddr"
    and step: "serve_step svr resolve (sserver S) m"
    and arr: "arrives_from (network saddr A S) saddr (sth (sserver S)) (sth m)"
  shows "system_inv svr resolve saddr cs A (S\<lparr>sserver := m\<rparr>)"
proof -
  let ?t = "sth (sserver S)"
  have run: "run_step\<^sup>*\<^sup>* ?t (sth m)"
    by (rule serve_step_throttle [OF step])
  then have th: "th_step\<^sup>*\<^sup>* ?t (sth m)"
    by (rule run_steps_th)
  have sub: "set (submitted ?t) \<subseteq> set (submitted (sth m))"
    by (rule th_steps_submitted [OF th])
  have "from_endpoint saddr A (sth m) (sclients S) d" if d: "d \<in> set (datagrams (arrived (sth m)))" for d
  proof (cases "d \<in> set (datagrams (arrived ?t))")
    case True
    then show ?thesis
      using inv sub by (auto simp: system_inv_def server_arrivals_def elim!: from_endpoint_mono)
  next
    case False
    then obtain rp where "rp \<in> set (drop (length (arrived ?t)) (arrived (sth m)))" "rerr rp = None"
      "d = (rdata rp, addr_String (rsender rp))"
      using d arrivals_grow [OF th] by (auto simp: datagrams_mem)
    with arr obtain src x where "(src, saddr, x) \<in> network saddr A S" "d = (take (rbuffSize (th ?t)) x, src)"
      by (auto simp: arrives_from_def addr_String_def)
    then show ?thesis
      using network_source [OF inv A] sub by (fastforce simp: from_endpoint_def)
  qed
  moreover have "account_inv resolve m"
    using account_inv_step [OF assms(2) _ step] inv by (simp add: system_inv_def)
  moreover have "queue_inv (sth m)"
    using th_steps_queue [OF th] inv by (simp add: system_inv_def)
  ultimately show ?thesis
    using inv sub by (auto simp: system_inv_def server_arrivals_def intro: client_arrivals_mono)
qed

lemma system_inv_client:
  assumes inv: "system_inv svr resolve saddr cs A S" and plain: "plain_client (cs a)" and a: "a \<in> A"
    and A: "saddr \<notin> A" "\<forall>a \<in> A. svrAddr (cs a) = saddr" and step: "client_step (cs a) (sclients S a) m"
    and arr: "arrives_from (network saddr A S) a (cth (sclients S a)) (cth m)"
  shows "system_inv svr resolve saddr cs A (S\<lparr>sclients := (sclients S)(a := m)\<rparr>)"
proof -
  let ?t = "cth (sclients S a)"
  have src: "source_inv (cs a) (sclients S a)" "client_arrivals (sth (sserver S)) a ?t"
    using inv a by (simp_all add: system_inv_def)
  then have th: "th_step\<^sup>*\<^sup>* ?t (cth m)"
    using client_step_throttle [OF plain step] by (simp add: source_inv_def client_inv_def)
  have "\<exists>w n. w \<in> set (submitted (sth (sserver S))) \<and> wto w = a \<and> rdata rp = take n (wdata w)"
    if rp: "rp \<in> set (arrived (cth m))" "rerr rp = None" for rp
  proof (cases "rp \<in> set (arrived ?t)")
    case True
    then show ?thesis
      using src(2) rp(2) by (auto simp: client_arrivals_def)
  next
    case False
    then have "rp \<in> set (drop (length (arrived ?t)) (arrived (cth m)))"
      using rp(1) arrivals_grow [OF th] by simp
    with arr rp(2) obtain src x where "(src, a, x) \<in> network saddr A S" "rdata rp = take (rbuffSize (th ?t)) x"
      by (auto simp: arrives_from_def)
    then show ?thesis
      using network_source [OF inv A] a A(1) by metis
  qed
  then have "client_arrivals (sth (sserver S)) a (cth m)"
    by (simp add: client_arrivals_def)
  moreover have "from_endpoint saddr A (sth (sserver S)) ((sclients S)(a := m)) d"
    if "from_endpoint saddr A (sth (sserver S)) (sclients S) d" for d
    by (rule from_endpoint_mono [OF that]) (use th_steps_submitted [OF th] in auto)
  then have "server_arrivals saddr A (sth (sserver S)) ((sclients S)(a := m)) (sth (sserver S))"
    using inv by (auto simp: system_inv_def server_arrivals_def)
  ultimately show ?thesis
    using inv source_inv_step [OF plain src(1) step] by (simp add: system_inv_def)
qed

lemma system_inv_step:
  assumes "plain svr" and "\<forall>a \<in> A. plain_client (cs a) \<and> svrAddr (cs a) = saddr" and "saddr \<notin> A"
    and "system_inv svr resolve saddr cs A S" and "system_step svr resolve saddr cs A S S'"
  shows "system_inv svr resolve saddr cs A S'"
  using assms(5)
proof cases
  case (sys_server m)
  then show ?thesis
    using system_inv_server [OF assms(4,1,3)] assms(2) by simp
next
  case (sys_client a m)
  then show ?thesis
    using system_inv_client [OF assms(4) _ _ assms(3)] assms(2) by simp
qed

definition endpoints ::
  "'z ServerState_scheme UDPServer \<Rightarrow> string \<Rightarrow> (string \<Rightarrow> 'y ClientState_scheme UDPClient) \<Rightarrow> string set \<Rightarrow> bool" where
  "endpoints svr saddr cs A \<longleftrightarrow> plain svr \<and> (\<forall>a \<in> A. plain_client (cs a) \<and> svrAddr (cs a) = saddr) \<and> saddr \<notin> A"

interpretation sys: transition_invariant
  "\<lambda>S. endpoints svr saddr cs A \<and> system_inv svr resolve saddr cs A S" "system_step svr resolve saddr cs A"
  "\<lambda>S. endpoints svr saddr cs A \<and> system_inv svr resolve saddr cs A S"
  for svr :: "'z ServerState_scheme UDPServer" and resolve saddr and cs :: "string \<Rightarrow> 'y ClientState_scheme UDPClient" and A
  by unfold_locales (auto simp: endpoints_def intro: system_inv_step)

section \<open>Every response has a request\<close>

lemma reply_has_request:
  assumes "ledger resolve m hist out lost" and "w \<in> set (submitted (sth m))"
  shows "\<exists>d q. d \<in> set (datagrams (taken (sth m))) \<and> answers d q \<and> written_as resolve q (wdata w, wto w)"
proof -
  have "(wdata w, wto w) \<in> set (map snd out)"
    using assms by (auto simp: ledger_def writes_of_def)
  then obtain q where q: "(q, (wdata w, wto w)) \<in> set out"
    by auto
  have "set (map snd hist) = set (sendStream (world m)) \<union> set (map fst out) \<union> set lost"
    using arg_cong [of _ _ set_mset, OF conjunct1 [OF conjunct2 [OF conjunct2 [OF assms(1) [unfolded ledger_def]]]]] by simp
  then have "q \<in> set (map snd hist)"
    using q by force
  then obtain d where d: "(d, q) \<in> set hist"
    by fastforce
  have "set (datagrams (taken (sth m))) = set (map fst hist) \<union> set (incoming m)"
    using arg_cong [of _ _ set_mset, OF conjunct1 [OF assms(1) [unfolded ledger_def]]] by simp
  then have "d \<in> set (datagrams (taken (sth m)))"
    using d by force
  moreover have "answers d q" "written_as resolve q (wdata w, wto w)"
    using assms(1) d q by (auto simp: ledger_def list_all_iff)
  ultimately show ?thesis by blast
qed

lemma new_server:
  assumes "NewUDPServer None laddr sz r = Inr (Inr svr0)" and "Serve_start svr0 (th_init (throttle svr0) now) w = (svr, m)"
    and "pool_ok (pc w)" and "sendStream w = []" and "writeStream w = []"
  shows "plain svr \<and> account_inv resolve m \<and> queue_inv (sth m) \<and> arrived (sth m) = []"
proof -
  have "plain svr"
    using Serve_start_plain [OF NewUDPServer_plain [OF assms(1)] assms(2)] by blast
  moreover have "ledger resolve m [] [] []"
    using assms(2-5) by (auto simp: Serve_start_def ledger_def writes_of_def datagrams_def th_init_def)
  then have "account_inv resolve m"
    using assms(2-5) by (auto simp: account_inv_def accounted_def Serve_start_def)
  moreover have "queue_inv (sth m) \<and> arrived (sth m) = []"
    using assms(1,2)
    by (auto simp: Serve_start_def NewUDPServer_def NewUDPThrottle_def go_simps queue_inv_def th_init_def)
  ultimately show ?thesis by simp
qed

lemma new_client:
  assumes "NewUDPClient None saddr sz r now w = Inr (Inr (c, m))" and "pool_ok (cpc w)"
  shows "plain_client c \<and> svrAddr c = saddr \<and> source_inv c m \<and> arrived (cth m) = []"
proof -
  have "plain_client c \<and> client_inv m"
    by (rule client_start_inv [OF client_startI [OF assms]])
  then show ?thesis
    using assms(1)
    by (auto simp: NewUDPClient_def NewUDPThrottle_def go_simps source_inv_def holds_from_def queue_inv_def th_init_def)
qed

lemma system_start:
  assumes "plain svr \<and> account_inv resolve (sserver S) \<and> queue_inv (sth (sserver S)) \<and> arrived (sth (sserver S)) = []"
    and "\<forall>a \<in> A. plain_client (cs a) \<and> svrAddr (cs a) = saddr \<and> source_inv (cs a) (sclients S a) \<and> arrived (cth (sclients S a)) = []"
    and "saddr \<notin> A"
  shows "endpoints svr saddr cs A \<and> system_inv svr resolve saddr cs A S"
  using assms by (auto simp: endpoints_def system_inv_def server_arrivals_def client_arrivals_def datagrams_def)


text \<open>A run of one client whose write is refused, next to a server that waits.\<close>

lemma client_ops_system:
  assumes "client_ops fs (sclients S a) = Some m'" and "a \<in> A"
    and "\<And>f x y. f \<in> set fs \<Longrightarrow> f x = Some y \<Longrightarrow> client_step (cs a) x y \<and> arrived (cth y) = arrived (cth x)"
  shows "(system_step svr resolve saddr cs A)\<^sup>*\<^sup>* S (S\<lparr>sclients := (sclients S)(a := m')\<rparr>)"
  using assms(1,3)
proof (induction fs arbitrary: S)
  case (Cons f fs)
  then obtain m1 where m1: "f (sclients S a) = Some m1" "client_ops fs m1 = Some m'"
    by (auto split: option.splits)
  let ?S1 = "S\<lparr>sclients := (sclients S)(a := m1)\<rparr>"
  have "client_step (cs a) (sclients S a) m1" "arrived (cth m1) = arrived (cth (sclients S a))"
    using Cons.prems(2) [of f "sclients S a" m1] m1(1) by simp_all
  then have "system_step svr resolve saddr cs A S ?S1"
    by (intro sys_client assms(2)) (simp_all add: arrives_from_def)
  moreover have "client_ops fs (sclients ?S1 a) = Some m'"
    using m1(2) by simp
  then have "(system_step svr resolve saddr cs A)\<^sup>*\<^sup>* ?S1 (?S1\<lparr>sclients := (sclients ?S1)(a := m')\<rparr>)"
    by (rule Cons.IH) (use Cons.prems(2) in \<open>blast intro: list.set_intros(2)\<close>)
  moreover have "?S1\<lparr>sclients := (sclients ?S1)(a := m')\<rparr> = S\<lparr>sclients := (sclients S)(a := m')\<rparr>"
    by simp
  ultimately show ?case
    by (metis converse_rtranclp_into_rtranclp)
qed auto

lemma demo_failed_write_silent:
  assumes "f \<in> set demo_failed_write" and "f x = Some y"
  shows "arrived (cth y) = arrived (cth x)"
proof -
  have plain: "plain_client demo_client"
    by (simp add: plain_client_def demo_client_def NewDataPipeline_def)
  show ?thesis
    using assms
    by (auto simp: demo_failed_write_def on_throttle_def crash_def Let_def dest!: Send_effect [OF plain] take_effect
        answer_effect report_effect write_start_effect write_conn_effect write_reply_effect WriteTo_effect)
qed

definition demo_system :: "ServerState ServeState \<Rightarrow> (ServerState, ClientState) System" where
  "demo_system m = \<lparr>sserver = m, sclients = \<lambda>a. demo_crun\<rparr>"


end
