(* ===== verification/Tcp_Server.thy ===== *)
theory Tcp_Server
  imports Crypto Go_Panics
begin

text \<open>
  The TCP server (\<open>src/server/tcp_server.go\<close>).

  The accept loop is a function over the outcomes of \<open>AcceptTCP\<close>. A connection is a transition system:
  the goroutines that \<open>serve\<close> starts, and those that are blocked on a send, each with the packet it
  puts back into the pool once the send completes. A pointer or map that the constructor leaves nil is
  \<open>False\<close> or \<open>None\<close> in the record.
\<close>

section \<open>The server and its accept loop\<close>

record 's TCPServer =
  tcpAddr :: string
  tcpMu :: bool
  connections :: "(nat \<rightharpoonup> bool) option"
  tcpProcs :: "'s Processor"
  tcpBuffSize :: nat

definition NewTCPServer :: "string option \<Rightarrow> string \<Rightarrow> nat \<Rightarrow> string + 's TCPServer" where
  "NewTCPServer listen laddr bsize =
     (case listen of
        Some e \<Rightarrow> Inl (''tcp listen err: '' @ e)
      | None \<Rightarrow> Inr \<lparr>tcpAddr = laddr, tcpMu = False, connections = None,
          tcpProcs = \<lparr>dataP = NewDataPipeline, packetP = NewPacketPipeline\<rparr>, tcpBuffSize = bsize\<rparr>)"

text \<open>The outcome of \<open>AcceptTCP\<close>: a connection, or an error that is temporary or not.\<close>

datatype accepted = Accepted nat | AcceptFailed bool string

fun accept_err :: "accepted \<Rightarrow> (bool \<times> string) option" where
  "accept_err (Accepted c) = None"
| "accept_err (AcceptFailed temporary e) = Some (temporary, e)"

fun accept_conn :: "accepted \<Rightarrow> nat list" where
  "accept_conn (Accepted c) = [c]"
| "accept_conn (AcceptFailed temporary e) = []"

definition millisecond :: int where "millisecond = 1000000"

text \<open>The delay of the loop, the delays it slept, and the connections whose \<open>serve\<close> it started.\<close>

record accepting =
  tempDelay :: int
  slept :: "int list"
  started :: "nat list"

text \<open>One iteration; a value means that \<open>Serve\<close> returns it.\<close>

definition accept_step :: "accepted \<Rightarrow> accepting \<Rightarrow> string option \<times> accepting" where
  "accept_step r a =
     (case accept_err r of
        Some err \<Rightarrow>
          (case accept_err r of
             Some (temporary, e) \<Rightarrow>
               if temporary then
                 (let d = (if tempDelay a = 0 then 5 * millisecond else tempDelay a * 2);
                      d' = (if d > 1000 * millisecond then 1000 * millisecond else d)
                  in (None, a\<lparr>tempDelay := d', slept := slept a @ [d']\<rparr>))
               else (Some e, a)
           | None \<Rightarrow> (None, a\<lparr>started := started a @ accept_conn r\<rparr>))
      | None \<Rightarrow> (None, a))"

text \<open>\<open>Serve\<close> over the outcomes that \<open>AcceptTCP\<close> gives; without a permanent error it goes on.\<close>

fun TCPServer_Serve :: "accepted list \<Rightarrow> accepting \<Rightarrow> string option \<times> accepting" where
  "TCPServer_Serve [] a = (None, a)"
| "TCPServer_Serve (r # rs) a =
     (case accept_step r a of
        (Some e, a') \<Rightarrow> (Some e, a')
      | (None, a') \<Rightarrow> TCPServer_Serve rs a')"

definition accept_start :: accepting where
  "accept_start = \<lparr>tempDelay = 0, slept = [], started = []\<rparr>"

definition registerConnection :: "nat \<Rightarrow> 's TCPServer \<Rightarrow> 's TCPServer go" where
  "registerConnection c svr =
     (if \<not> tcpMu svr then Inl NilDeref
      else case connections svr of
        None \<Rightarrow> Inl NilMapWrite
      | Some m \<Rightarrow> Inr (svr\<lparr>connections := Some (m(c \<mapsto> True))\<rparr>))"

definition unregisterConnection :: "nat \<Rightarrow> 's TCPServer \<Rightarrow> 's TCPServer go" where
  "unregisterConnection c svr =
     (if \<not> tcpMu svr then Inl NilDeref
      else Inr (svr\<lparr>connections := map_option (\<lambda>m. m(c := None)) (connections svr)\<rparr>))"

section \<open>Processing\<close>

record TcpState = CryptoState +
  tpc :: JSONPktCreator

definition tcp_PutBack :: "JSONPkt \<Rightarrow> 'z TcpState_scheme \<Rightarrow> 'z TcpState_scheme" where
  "tcp_PutBack p s = s\<lparr>tpc := PutBack p (tpc s)\<rparr>"

text \<open>What a goroutine that processes a packet ends in: the end, or a send on one of the connection's
  channels with the packet it puts back afterwards.\<close>

datatype tcp_end = TcpDone | TcpSend JSONPkt "JSONPkt option" | TcpWrite bytes JSONPkt

definition tcp_send_err ::
  "string \<Rightarrow> string \<Rightarrow> string \<Rightarrow> JSONPkt option \<Rightarrow> 'z TcpState_scheme \<Rightarrow> (tcp_end \<times> 'z TcpState_scheme) go" where
  "tcp_send_err ref d msg after s =
     gbind (NewErrPkt ref d msg (tpc s)) (\<lambda>(e, pc'). Inr (TcpSend e after, s\<lparr>tpc := pc'\<rparr>))"

definition connection_processOutgoing ::
  "'z TcpState_scheme TCPServer \<Rightarrow> JSONPkt \<Rightarrow> 'z TcpState_scheme \<Rightarrow> (tcp_end \<times> 'z TcpState_scheme) go" where
  "connection_processOutgoing svr pkt s =
     (case Marshal pkt of
        None \<Rightarrow> Inr (TcpDone, tcp_PutBack pkt s)
      | Some bin \<Rightarrow>
          (let tctx = \<lparr>Pkt = Some pkt, Stat = 0, Msg = '''', PipelineName = ''_out_'', From = ''''\<rparr> in
           gbind (ProcessData (dataP (tcpProcs svr)) tctx bin s) (\<lambda>(err, tctx', bin', s1).
           let pkt' = (case Pkt tctx' of Some q \<Rightarrow> q | None \<Rightarrow> pkt) in
           case err of
             Some e \<Rightarrow>
               tcp_send_err (MetaGet KeyRef pkt') (Dest pkt') (''response data pipeline error: '' @ e) (Some pkt') s1
           | None \<Rightarrow>
               if Stat tctx' \<noteq> CodeStopNoop then Inr (TcpWrite bin' pkt', s1)
               else Inr (TcpDone, tcp_PutBack pkt' s1))))"

definition connection_processIncoming ::
  "'z TcpState_scheme TCPServer \<Rightarrow> bytes \<Rightarrow> 'z TcpState_scheme \<Rightarrow> (tcp_end \<times> 'z TcpState_scheme) go" where
  "connection_processIncoming svr data s =
     (let a = tcpAddr svr;
          tctx = \<lparr>Pkt = None, Stat = 0, Msg = '''', PipelineName = ''_in_'', From = a\<rparr> in
      gbind (ProcessData (dataP (tcpProcs svr)) tctx data s) (\<lambda>(err, tctx', data', s1).
      case err of
        Some e \<Rightarrow> tcp_send_err '''' a (''data pipeline error: '' @ e) None s1
      | None \<Rightarrow>
          if Stat tctx' = CodeStopNoop then Inr (TcpDone, s1)
          else gbind (NewPkt '''' '''' (tpc s1)) (\<lambda>(pkt, pc').
            case Unmarshal data' pkt of
              (pkt1, Some e) \<Rightarrow> tcp_send_err '''' a ''malformed packet'' (Some pkt1) (s1\<lparr>tpc := pc'\<rparr>)
            | (pkt1, None) \<Rightarrow>
                let ref = MetaGet KeyRef pkt1 in
                gbind (NewPkt ref a pc') (\<lambda>(resp, pc2).
                let ctx = \<lparr>Pkt = Some pkt1, Stat = 0, Msg = '''', TargetName = MetaGet KeyTarget pkt1, TargetFrom = a\<rparr> in
                gbind (ProcessPacket (packetP (tcpProcs svr)) ctx resp (s1\<lparr>tpc := pc2\<rparr>)) (\<lambda>(err, ctx', resp', s2).
                let pkt2 = (case Pkt ctx' of Some q \<Rightarrow> q | None \<Rightarrow> pkt1) in
                case err of
                  Some e \<Rightarrow> tcp_send_err ref a (''packet pipeline error: '' @ e) (Some pkt2) (tcp_PutBack resp' s2)
                | None \<Rightarrow>
                    if Stat ctx' = CodeStopNoop then Inr (TcpDone, tcp_PutBack pkt2 (tcp_PutBack resp' s2))
                    else Inr (TcpSend (Close resp') (Some pkt2), s2))))))"

section \<open>A connection\<close>

text \<open>
  The goroutines of a connection: \<open>sendPkt\<close>, \<open>writeConn\<close> and \<open>readConn\<close> if they run, those blocked on
  \<open>sendStream\<close> and on \<open>writeStream\<close>, what was written to the connection, and whether \<open>done\<close> is closed.
\<close>

record 'w ConnRun =
  cnworld :: 'w
  sendRuns :: bool
  writeRuns :: bool
  readRuns :: bool
  toSend :: "(JSONPkt \<times> JSONPkt option) list"
  toWrite :: "(bytes \<times> JSONPkt) list"
  tcpWritten :: "bytes list"
  cnDone :: bool
  cnpanic :: "panic option"

definition connection_serve :: "nat \<Rightarrow> 's TCPServer \<Rightarrow> 'w \<Rightarrow> ('s TCPServer \<times> 'w ConnRun) go" where
  "connection_serve c svr w =
     gbind (registerConnection c svr) (\<lambda>svr'.
       Inr (svr', \<lparr>cnworld = w, sendRuns = False, writeRuns = True, readRuns = True, toSend = [], toWrite = [],
                   tcpWritten = [], cnDone = False, cnpanic = None\<rparr>))"

text \<open>The end of \<open>serve\<close>, once \<open>done\<close> is closed.\<close>

definition connection_serve_return :: "nat \<Rightarrow> 's TCPServer \<Rightarrow> 'w ConnRun \<Rightarrow> 's TCPServer go option" where
  "connection_serve_return c svr m = (if cnDone m then Some (unregisterConnection c svr) else None)"

definition conn_outcome :: "(tcp_end \<times> 'w) go \<Rightarrow> 'w ConnRun \<Rightarrow> 'w ConnRun" where
  "conn_outcome r m =
     (case r of
        Inl p \<Rightarrow> m\<lparr>cnpanic := Some p\<rparr>
      | Inr (TcpDone, w) \<Rightarrow> m\<lparr>cnworld := w\<rparr>
      | Inr (TcpSend p after, w) \<Rightarrow> m\<lparr>cnworld := w, toSend := toSend m @ [(p, after)]\<rparr>
      | Inr (TcpWrite b after, w) \<Rightarrow> m\<lparr>cnworld := w, toWrite := toWrite m @ [(b, after)]\<rparr>)"

text \<open>What \<open>Read\<close> gives: bytes for the front of the buffer, or an error that is temporary or not. The
  number of bytes is ignored; all of the buffer is processed.\<close>

datatype tcp_read = ReadBytes bytes | ReadFailed bool

definition rbuff :: "nat \<Rightarrow> bytes \<Rightarrow> bytes" where
  "rbuff n data = data @ replicate (n - length data) CHR 0x00"

definition readConn ::
  "'z TcpState_scheme TCPServer \<Rightarrow> tcp_read \<Rightarrow> 'z TcpState_scheme ConnRun \<Rightarrow> 'z TcpState_scheme ConnRun option" where
  "readConn svr res m =
     (if cnpanic m \<noteq> None \<or> \<not> readRuns m then None
      else case res of
        ReadFailed temporary \<Rightarrow> if temporary then Some m else Some (m\<lparr>readRuns := False, cnDone := True\<rparr>)
      | ReadBytes data \<Rightarrow>
          if length data \<le> tcpBuffSize svr
          then Some (conn_outcome (connection_processIncoming svr (rbuff (tcpBuffSize svr) data) (cnworld m)) m)
          else None)"

definition sendPkt ::
  "'z TcpState_scheme TCPServer \<Rightarrow> nat \<Rightarrow> 'z TcpState_scheme ConnRun \<Rightarrow> 'z TcpState_scheme ConnRun option" where
  "sendPkt svr i m =
     (if cnpanic m = None \<and> sendRuns m \<and> i < length (toSend m)
      then let (p, after) = toSend m ! i;
               w = (case after of Some q \<Rightarrow> tcp_PutBack q (cnworld m) | None \<Rightarrow> cnworld m);
               m1 = m\<lparr>toSend := remove_at i (toSend m), cnworld := w\<rparr>
           in Some (conn_outcome (connection_processOutgoing svr p w) m1)
      else None)"

definition sendPkt_stop :: "'w ConnRun \<Rightarrow> 'w ConnRun option" where
  "sendPkt_stop m = (if cnpanic m = None \<and> sendRuns m \<and> cnDone m then Some (m\<lparr>sendRuns := False\<rparr>) else None)"

text \<open>The error of a write is ignored.\<close>

definition writeConn :: "nat \<Rightarrow> 'z TcpState_scheme ConnRun \<Rightarrow> 'z TcpState_scheme ConnRun option" where
  "writeConn i m =
     (if cnpanic m = None \<and> writeRuns m \<and> i < length (toWrite m)
      then let (b, p) = toWrite m ! i in
           Some (m\<lparr>toWrite := remove_at i (toWrite m), tcpWritten := tcpWritten m @ [b],
                   cnworld := tcp_PutBack p (cnworld m)\<rparr>)
      else None)"

definition writeConn_stop :: "'w ConnRun \<Rightarrow> 'w ConnRun option" where
  "writeConn_stop m = (if cnpanic m = None \<and> writeRuns m \<and> cnDone m then Some (m\<lparr>writeRuns := False\<rparr>) else None)"

inductive conn_step ::
  "'z TcpState_scheme TCPServer \<Rightarrow> 'z TcpState_scheme ConnRun \<Rightarrow> 'z TcpState_scheme ConnRun \<Rightarrow> bool" for svr where
  cn_read: "readConn svr res m = Some m' \<Longrightarrow> conn_step svr m m'"
| cn_send: "sendPkt svr i m = Some m' \<Longrightarrow> conn_step svr m m'"
| cn_send_stop: "sendPkt_stop m = Some m' \<Longrightarrow> conn_step svr m m'"
| cn_write: "writeConn i m = Some m' \<Longrightarrow> conn_step svr m m'"
| cn_write_stop: "writeConn_stop m = Some m' \<Longrightarrow> conn_step svr m m'"


section \<open>Properties of the TCP server\<close>

text \<open>The delays of the loop double from 5 ms up to a second.\<close>

definition backoff :: "nat \<Rightarrow> int" where
  "backoff i = min (5 * millisecond * 2 ^ i) (1000 * millisecond)"

definition permanent :: "accepted \<Rightarrow> bool" where
  "permanent r = (case r of Accepted c \<Rightarrow> False | AcceptFailed temporary e \<Rightarrow> \<not> temporary)"

definition temporary :: "accepted \<Rightarrow> bool" where
  "temporary r = (case r of Accepted c \<Rightarrow> False | AcceptFailed t e \<Rightarrow> t)"

fun error_text :: "accepted \<Rightarrow> string" where
  "error_text (Accepted c) = ''''"
| "error_text (AcceptFailed t e) = e"

definition slept_ok :: "nat \<Rightarrow> accepting \<Rightarrow> bool" where
  "slept_ok k a \<longleftrightarrow> started a = [] \<and> slept a = map backoff [0..<k] \<and> tempDelay a = (if k = 0 then 0 else backoff (k - 1))"

lemma backoff_Suc:
  "(let d = backoff k * 2 in if d > 1000 * millisecond then 1000 * millisecond else d) = backoff (Suc k)"
  by (auto simp: backoff_def millisecond_def min_def Let_def)

lemma accept_step_slept:
  assumes "slept_ok k a" and "\<not> permanent r" and "accept_step r a = (res, a')"
  shows "res = None \<and> slept_ok (if temporary r then Suc k else k) a'"
proof (cases r)
  case (Accepted c)
  then show ?thesis
    using assms by (simp add: accept_step_def temporary_def)
next
  case (AcceptFailed t e)
  then have "t"
    using assms(2) by (simp add: permanent_def)
  let ?d = "if k = 0 then 5 * millisecond else backoff (k - 1) * 2"
  have "tempDelay a = 0 \<longleftrightarrow> k = 0"
    using assms(1) by (auto simp: slept_ok_def backoff_def millisecond_def min_def)
  moreover have "(if ?d > 1000 * millisecond then 1000 * millisecond else ?d) = backoff k"
    using backoff_Suc [of "k - 1"] by (cases k) (simp_all add: backoff_def millisecond_def Let_def)
  ultimately show ?thesis
    using assms(1,3) AcceptFailed \<open>t\<close> by (auto simp: accept_step_def Let_def slept_ok_def temporary_def)
qed

lemma Serve_slept:
  assumes "slept_ok k a"
  shows "fst (TCPServer_Serve rs a) = map_option error_text (find permanent rs) \<and>
    slept_ok (k + length (filter temporary (takeWhile (Not \<circ> permanent) rs))) (snd (TCPServer_Serve rs a))"
  using assms
proof (induction rs arbitrary: a k)
  case (Cons r rs)
  show ?case
  proof (cases "permanent r")
    case True
    then have "accept_step r a = (Some (error_text r), a)"
      by (cases r) (simp_all add: permanent_def accept_step_def)
    then show ?thesis
      using True Cons.prems by simp
  next
    case False
    obtain res a' where st: "accept_step r a = (res, a')"
      by fastforce
    then have "res = None" "slept_ok (if temporary r then Suc k else k) a'"
      using accept_step_slept [OF Cons.prems False st] by simp_all
    then show ?thesis
      using Cons.IH [of "if temporary r then Suc k else k" a'] False st by auto
  qed
qed simp

text \<open>
  C30: the TCP server serves nobody. Whatever \<open>AcceptTCP\<close> gives, \<open>Serve\<close> starts no connection: an
  accepted one is dropped, because the code that would serve it stands in the branch for errors, behind
  the return. \<open>Serve\<close> returns exactly at the first permanent error, with that error, and sleeps once for
  every temporary error before it, 5 ms at first and then twice as long each time up to a second; an
  accepted connection does not reset the delay.
\<close>

theorem Serve_drops_connections:
  "started (snd (TCPServer_Serve rs accept_start)) = [] \<and>
   fst (TCPServer_Serve rs accept_start) = map_option error_text (find permanent rs) \<and>
   slept (snd (TCPServer_Serve rs accept_start)) =
     map backoff [0..<length (filter temporary (takeWhile (Not \<circ> permanent) rs))]"
proof -
  have "slept_ok 0 accept_start"
    by (simp add: slept_ok_def accept_start_def)
  from Serve_slept [OF this, of rs] show ?thesis
    by (simp add: slept_ok_def)
qed

text \<open>A goroutine that processes an incoming packet never writes to the connection itself.\<close>

lemma tcp_send_err_no_write [simp]: "tcp_send_err ref d msg after s \<noteq> Inr (TcpWrite b p, s')"
  by (auto simp: tcp_send_err_def go_simps)

lemma processIncoming_no_write [simp]: "connection_processIncoming svr data s \<noteq> Inr (TcpWrite b p, s')"
  by (auto simp: connection_processIncoming_def go_simps Let_def simp del: append.simps
      split: option.splits if_splits prod.splits)

definition unanswered :: "'w ConnRun \<Rightarrow> bool" where
  "unanswered m \<longleftrightarrow> \<not> sendRuns m \<and> toWrite m = [] \<and> tcpWritten m = []"

lemma conn_step_unanswered: "conn_step svr m m' \<Longrightarrow> unanswered m \<Longrightarrow> unanswered m'"
proof (induction rule: conn_step.induct)
  case (cn_read res m m')
  then show ?case
    by (auto simp: readConn_def conn_outcome_def unanswered_def
        split: if_splits tcp_read.splits sum.splits prod.splits tcp_end.splits)
qed (auto simp: sendPkt_def sendPkt_stop_def writeConn_def writeConn_stop_def unanswered_def split: if_splits)

definition connection_start :: "'s TCPServer \<Rightarrow> 'w ConnRun \<Rightarrow> bool" where
  "connection_start svr m \<longleftrightarrow> (\<exists>c svr0 w. connection_serve c svr0 w = Inr (svr, m))"

lemma connection_start_unanswered: "connection_start svr m \<Longrightarrow> unanswered m"
  by (auto simp: connection_start_def connection_serve_def go_simps unanswered_def)

interpretation tcp: transition_invariant "connection_start svr" "conn_step svr" unanswered
  for svr :: "'z TcpState_scheme TCPServer"
  by unfold_locales (rule connection_start_unanswered, assumption, rule conn_step_unanswered)

text \<open>
  C31: a TCP connection is never answered. On a server as the constructor makes it, \<open>serve\<close> panics when
  it registers the connection, because the mutex is nil. On a server whose registration works, no
  reachable state of a connection has written anything, because \<open>serve\<close> does not start \<open>sendPkt\<close>, the
  only receiver of responses.
\<close>

theorem connection_never_answered:
  fixes svr :: "'z TcpState_scheme TCPServer"
  shows "(NewTCPServer None a n = Inr svr \<longrightarrow> connection_serve c svr w = Inl NilDeref) \<and>
    (connection_serve c svr w = Inr (svr', m0) \<longrightarrow> (conn_step svr')\<^sup>*\<^sup>* m0 m \<longrightarrow> tcpWritten m = [])"
proof (intro conjI impI)
  show "connection_serve c svr w = Inl NilDeref" if "NewTCPServer None a n = Inr svr"
    using that by (auto simp: NewTCPServer_def connection_serve_def registerConnection_def)
  assume "connection_serve c svr w = Inr (svr', m0)" and run: "(conn_step svr')\<^sup>*\<^sup>* m0 m"
  then have "connection_start svr' m0"
    unfolding connection_start_def by blast
  then show "tcpWritten m = []"
    using tcp.reachable_inv [OF _ run] by (simp add: unanswered_def)
qed


text \<open>Concrete objects: a server as the constructor makes it, one with a mutex and a map, a first state.\<close>

definition demo_tcp :: "TcpState TCPServer" where
  "demo_tcp = \<lparr>tcpAddr = ''0.0.0.0:10000'', tcpMu = False, connections = None,
     tcpProcs = \<lparr>dataP = NewDataPipeline, packetP = NewPacketPipeline\<rparr>, tcpBuffSize = 4096\<rparr>"

definition demo_tcp_world :: TcpState where
  "demo_tcp_world = \<lparr>crypto = demo_crypto Map.empty, rand = demo_rand, tpc = \<lparr>pool = [], picks = []\<rparr>\<rparr>"

definition demo_conn :: "TcpState ConnRun" where
  "demo_conn = \<lparr>cnworld = demo_tcp_world, sendRuns = False, writeRuns = True, readRuns = True, toSend = [], toWrite = [],
     tcpWritten = [], cnDone = False, cnpanic = None\<rparr>"

lemma demo_tcp_new: "NewTCPServer None ''0.0.0.0:10000'' 4096 = Inr demo_tcp"
  by (simp add: NewTCPServer_def demo_tcp_def)

theorem connection_never_answered_witness:
  "connection_serve 1 demo_tcp demo_tcp_world = Inl NilDeref \<and>
   (\<exists>svr' m. connection_serve 1 (demo_tcp\<lparr>tcpMu := True, connections := Some Map.empty\<rparr>) demo_tcp_world = Inr (svr', demo_conn) \<and>
      (conn_step svr')\<^sup>*\<^sup>* demo_conn m \<and> cnDone m \<and> tcpWritten m = [])"
proof -
  let ?svr = "demo_tcp\<lparr>tcpMu := True, connections := Some [1 \<mapsto> True]\<rparr>"
  let ?m = "demo_conn\<lparr>readRuns := False, cnDone := True\<rparr>"
  have serve: "connection_serve 1 (demo_tcp\<lparr>tcpMu := True, connections := Some Map.empty\<rparr>) demo_tcp_world = Inr (?svr, demo_conn)"
    by (simp add: connection_serve_def registerConnection_def demo_conn_def)
  have "readConn ?svr (ReadFailed False) demo_conn = Some ?m"
    by (simp add: readConn_def demo_conn_def)
  then have run: "(conn_step ?svr)\<^sup>*\<^sup>* demo_conn ?m"
    by (intro r_into_rtranclp cn_read)
  have "tcpWritten ?m = []"
    using connection_never_answered [of "''0.0.0.0:10000''" 4096 "demo_tcp\<lparr>tcpMu := True, connections := Some Map.empty\<rparr>"
        1 demo_tcp_world ?svr demo_conn ?m] serve run by blast
  moreover have "connection_serve 1 demo_tcp demo_tcp_world = Inl NilDeref"
    using connection_never_answered [of "''0.0.0.0:10000''" 4096 demo_tcp 1 demo_tcp_world demo_tcp demo_conn demo_conn]
      demo_tcp_new by blast
  ultimately show ?thesis
    using serve run by (intro conjI exI [of _ ?svr] exI [of _ ?m]) simp_all
qed

text \<open>
  C32: the TCP server understands no packet that is smaller than its read buffer. \<open>readConn\<close> hands the
  whole buffer to \<open>processIncoming\<close>, and the zero bytes behind the document make it a syntax error: the
  response offered for every such packet is the error \<open>malformed packet\<close>, to the server's own address
  and without the packet's reference.
\<close>

theorem padded_request_malformed:
  fixes m :: "'z TcpState_scheme ConnRun"
  assumes "NewTCPServer None a n = Inr svr" and "pool_ok (tpc (cnworld m))" and "cnpanic m = None" and "readRuns m"
    and "Marshal p = Some b" and "length b < n"
  shows "\<exists>m' e q. readConn svr (ReadBytes b) m = Some m' \<and> toSend m' = toSend m @ [(e, Some q)] \<and>
    MetaMap e = [(KeySvrMsg, ''malformed packet''), (KeyRef, ''''), (KeySvrStatus, ''-1'')] \<and> Dest e = a"
proof -
  have svr: "svr = \<lparr>tcpAddr = a, tcpMu = False, connections = None,
      tcpProcs = \<lparr>dataP = NewDataPipeline, packetP = NewPacketPipeline\<rparr>, tcpBuffSize = n\<rparr>"
    using assms(1) by (simp add: NewTCPServer_def)
  obtain k where k: "n - length b = Suc k"
    using assms(6) by (metis Suc_diff_Suc)
  have "json_parse (rbuff n b) = None"
    using read_value_Marshal [OF assms(5), of "replicate (n - length b) CHR 0x00"]
    by (intro json_parse_trailing) (auto simp: rbuff_def k is_ws_def)
  then have bad: "Unmarshal (rbuff n b) q = (q, Some JsonSyntax)" for q
    by (simp add: Unmarshal_def)
  obtain pkt pc1 where new: "NewPkt '''' '''' (tpc (cnworld m)) = Inr (pkt, pc1)" "pool_ok pc1"
    using NewPkt_synced [OF assms(2)] by blast
  obtain e pc2 where e: "NewErrPkt '''' a ''malformed packet'' pc1 = Inr (e, pc2)" "Dest e = a"
    "MetaMap e = [(KeySvrMsg, ''malformed packet''), (KeyRef, ''''), (KeySvrStatus, ''-1'')]"
    using NewErrPkt_synced [OF new(2)] by blast
  have "connection_processIncoming svr (rbuff n b) (cnworld m) =
      Inr (TcpSend e (Some pkt), (cnworld m)\<lparr>tpc := pc2\<rparr>)"
    using new(1) e(1) by (simp add: connection_processIncoming_def svr NewDataPipeline_def bad code_defs tcp_send_err_def Let_def)
  then show ?thesis
    using assms(3,4,6) e(2,3) by (simp add: readConn_def svr conn_outcome_def)
qed

theorem padded_request_malformed_witness:
  "\<exists>b m' e q. Marshal newJSONPkt = Some b \<and> readConn demo_tcp (ReadBytes b) demo_conn = Some m' \<and>
    toSend m' = [(e, Some q)] \<and> MetaGet KeySvrMsg e = ''malformed packet''"
proof -
  obtain b where b: "Marshal newJSONPkt = Some b"
    by (simp add: Marshal_def)
  have "length b \<le> pkt_weight newJSONPkt"
    by (rule Marshal_length [OF newJSONPkt_synced b])
  then have "length b < 4096"
    by (simp add: pkt_weight_def newJSONPkt_def MetaMap_def map_weight_def)
  then show ?thesis
    using padded_request_malformed [OF demo_tcp_new, of demo_conn newJSONPkt b] b
    by (fastforce simp: demo_conn_def demo_tcp_world_def empty_pool_ok MetaGet_MetaMap gm_str_def)
qed

end
