(* ===== verification/Packet_Life.thy ===== *)
theory Packet_Life
  imports Go_Panics
begin

text \<open>
  The life of packets between one pool and the code that holds them (package \<open>packet\<close>). A program
  takes packets out of a pool, works on those it holds and puts them back, in any order. Every
  packet it can see is well formed; and as long as no document decoded on the way sets its metadata
  member to \<open>null\<close>, no operation panics and the metadata that \<open>Add\<close> changes is what \<open>Marshal\<close> writes.
\<close>

section \<open>Programs over packets\<close>

text \<open>An operation works on the held packet with the given number; a number that is not held is
  skipped. \<open>PutBack\<close> gives the packet up: the code never uses a packet it has returned.\<close>

datatype pkt_op =
    OpNewPkt string string
  | OpNewErrPkt string string string
  | OpUnmarshal nat bytes
  | OpAdd nat string string
  | OpMetaClear nat
  | OpWrite nat bytes
  | OpClear nat
  | OpClose nat
  | OpSetDest nat string
  | OpPutBack nat

type_synonym holding = "JSONPkt list \<times> JSONPktCreator"

definition on_held :: "nat \<Rightarrow> (JSONPkt \<Rightarrow> JSONPkt go) \<Rightarrow> holding \<Rightarrow> holding go" where
  "on_held i f = (\<lambda>(ps, c).
     if i < length ps then gbind (f (ps ! i)) (\<lambda>p. Inr (ps[i := p], c)) else Inr (ps, c))"

definition hold :: "JSONPkt list \<Rightarrow> JSONPkt \<times> JSONPktCreator \<Rightarrow> holding go" where
  "hold ps = (\<lambda>(p, c). Inr (ps @ [p], c))"

fun run_op :: "pkt_op \<Rightarrow> holding \<Rightarrow> holding go" where
  "run_op (OpNewPkt ref d) (ps, c) = gbind (NewPkt ref d c) (hold ps)"
| "run_op (OpNewErrPkt ref d msg) (ps, c) = gbind (NewErrPkt ref d msg c) (hold ps)"
| "run_op (OpUnmarshal i b) h = on_held i (\<lambda>p. Inr (fst (Unmarshal b p))) h"
| "run_op (OpAdd i k v) h = on_held i (MetaAdd k v) h"
| "run_op (OpMetaClear i) h = on_held i (\<lambda>p. Inr (MetaClear p)) h"
| "run_op (OpWrite i b) h = on_held i (\<lambda>p. Inr (Write b p)) h"
| "run_op (OpClear i) h = on_held i (\<lambda>p. Inr (Clear p)) h"
| "run_op (OpClose i) h = on_held i (\<lambda>p. Inr (Close p)) h"
| "run_op (OpSetDest i d) h = on_held i (\<lambda>p. Inr (SetDest d p)) h"
| "run_op (OpPutBack i) (ps, c) =
     (if i < length ps then Inr (remove_at i ps, PutBack (ps ! i) c) else Inr (ps, c))"

fun run_ops :: "pkt_op list \<Rightarrow> holding \<Rightarrow> holding go" where
  "run_ops [] h = Inr h"
| "run_ops (op # ops) h = gbind (run_op op h) (run_ops ops)"

text \<open>An operation that decodes no document with a \<open>null\<close> metadata member.\<close>

fun keeps_meta :: "pkt_op \<Rightarrow> bool" where
  "keeps_meta (OpUnmarshal i b) =
     (case json_parse b of Some (JObj ms) \<Rightarrow> \<not> nulls_meta ms | _ \<Rightarrow> True)"
| "keeps_meta _ = True"

definition all_held :: "(JSONPkt \<Rightarrow> bool) \<Rightarrow> holding \<Rightarrow> bool" where
  "all_held P = (\<lambda>(ps, c). list_all P ps \<and> list_all P (pool c))"

section \<open>What one operation keeps\<close>

lemma on_held_yields:
  assumes "all_held P h" and "\<And>p. P p \<Longrightarrow> yields E P (f p)"
  shows "yields E (all_held P) (on_held i f h)"
proof -
  obtain ps c where h: "h = (ps, c)"
    by fastforce
  show ?thesis
  proof (cases "i < length ps")
    case True
    then have "yields E P (f (ps ! i))"
      using assms by (auto simp: h all_held_def list_all_nth)
    then show ?thesis
      unfolding h on_held_def prod.case if_P [OF True]
      by (rule yields_bind) (use assms(1) in \<open>auto simp: h all_held_def intro!: list_all_update\<close>)
  qed (use assms(1) in \<open>auto simp: h on_held_def\<close>)
qed

lemma hold_yields:
  assumes "list_all P ps" and "yields E (\<lambda>(p, c'). P p \<and> list_all P (pool c')) m"
  shows "yields E (all_held P) (gbind m (hold ps))"
  using assms(2) by (rule yields_bind) (use assms(1) in \<open>auto simp: hold_def all_held_def\<close>)

lemma all_heldD: "all_held P (ps, c) \<Longrightarrow> list_all P ps \<and> list_all P (pool c)"
  by (simp add: all_held_def)

lemma put_held:
  "all_held P (ps, c) \<Longrightarrow> i < length ps \<Longrightarrow> all_held P (remove_at i ps, PutBack (ps ! i) c)"
  by (simp add: all_held_def PutBack_def pool_Put_def list_all_remove_at list_all_nth)

text \<open>One operation keeps a property of packets if the packet operations keep it.\<close>

lemma run_op_yields:
  assumes "all_held P h"
    and new: "\<And>ref d c. list_all P (pool c) \<Longrightarrow>
      yields E (\<lambda>(p, c'). P p \<and> list_all P (pool c')) (NewPkt ref d c)"
    and err: "\<And>ref d msg c. list_all P (pool c) \<Longrightarrow>
      yields E (\<lambda>(p, c'). P p \<and> list_all P (pool c')) (NewErrPkt ref d msg c)"
    and decode: "\<And>i b p. op = OpUnmarshal i b \<Longrightarrow> P p \<Longrightarrow> P (fst (Unmarshal b p))"
    and add: "\<And>k v p. P p \<Longrightarrow> yields E P (MetaAdd k v p)"
    and "\<And>p. P p \<Longrightarrow> P (MetaClear p)" "\<And>b p. P p \<Longrightarrow> P (Write b p)" "\<And>p. P p \<Longrightarrow> P (Clear p)"
      "\<And>p. P p \<Longrightarrow> P (Close p)" "\<And>d p. P p \<Longrightarrow> P (SetDest d p)"
  shows "yields E (all_held P) (run_op op h)"
proof -
  obtain ps c where h: "h = (ps, c)"
    by fastforce
  show ?thesis
    using assms(1) all_heldD [OF assms(1) [unfolded h]]
    by (cases op) (auto simp: h assms intro!: on_held_yields hold_yields put_held)
qed

lemma run_op_wf: "all_held pkt_wf h \<Longrightarrow> yields {NilMapWrite} (all_held pkt_wf) (run_op op h)"
  by (erule run_op_yields)
    (simp_all add: MetaAdd_yields MetaClear_wf Unmarshal_wf
      NewPkt_yields [unfolded pool_wf_def] NewErrPkt_yields [unfolded pool_wf_def])

lemma NewPkt_live:
  "pool_ok c \<Longrightarrow> yields {} (\<lambda>(p, c'). pkt_synced p \<and> pool_ok c') (NewPkt ref d c)"
  using NewPkt_synced [of c ref d] by fastforce

lemma NewErrPkt_live:
  "pool_ok c \<Longrightarrow> yields {} (\<lambda>(p, c'). pkt_synced p \<and> pool_ok c') (NewErrPkt ref d msg c)"
  using NewErrPkt_synced [of c ref d msg] by fastforce

lemma MetaAdd_live: "pkt_synced p \<Longrightarrow> yields {} pkt_synced (MetaAdd k v p)"
  using MetaAdd_synced [of p k v] by fastforce

lemma decode_live:
  "keeps_meta (OpUnmarshal i b) \<Longrightarrow> pkt_synced p \<Longrightarrow> pkt_synced (fst (Unmarshal b p))"
  by (rule Unmarshal_synced) auto

lemma run_op_live:
  "all_held pkt_synced h \<Longrightarrow> keeps_meta op \<Longrightarrow> yields {} (all_held pkt_synced) (run_op op h)"
  by (erule run_op_yields)
    (simp_all add: MetaAdd_live MetaClear_synced decode_live
      NewPkt_live [unfolded pool_ok_def] NewErrPkt_live [unfolded pool_ok_def])

lemma run_ops_yields:
  assumes "\<And>op h. op \<in> set ops \<Longrightarrow> I h \<Longrightarrow> yields E I (run_op op h)"
  shows "I h \<Longrightarrow> yields E I (run_ops ops h)"
  using assms
proof (induction ops arbitrary: h)
  case (Cons op ops)
  then have "yields E I (run_op op h)" and "\<And>h'. I h' \<Longrightarrow> yields E I (run_ops ops h')"
    by simp_all
  then show ?case
    unfolding run_ops.simps by (rule yields_bind)
qed simp

section \<open>Programs are well typed\<close>

lemma new_pool_held: "all_held pkt_synced ([], NewJSONPktCreator n choices)"
  using pool_ok_NewJSONPktCreator [of n choices] by (simp add: all_held_def pool_ok_def)

lemma all_held_mono: "all_held P h \<Longrightarrow> (\<And>p. P p \<Longrightarrow> Q p) \<Longrightarrow> all_held Q h"
  by (auto simp: all_held_def list_all_iff)

text \<open>
  C14: whatever a program does with the packets of a new pool, every packet it holds and every packet
  of the pool is well formed: its references are live cells that hold maps. The only way it can fail
  is a write into a nil map. If no document it decodes sets the metadata member to \<open>null\<close>, it does not
  fail at all, and for every packet the map that \<open>Add\<close> writes is the map that \<open>Marshal\<close> prints.
\<close>

theorem packet_programs_typed:
  "yields {NilMapWrite} (all_held pkt_wf) (run_ops ops ([], NewJSONPktCreator n choices)) \<and>
   (list_all keeps_meta ops \<longrightarrow>
     (\<exists>h. run_ops ops ([], NewJSONPktCreator n choices) = Inr h \<and> all_held pkt_synced h))"
proof (intro conjI impI)
  have "all_held pkt_wf ([], NewJSONPktCreator n choices)"
    using new_pool_held by (rule all_held_mono) (simp add: pkt_synced_def)
  then show "yields {NilMapWrite} (all_held pkt_wf) (run_ops ops ([], NewJSONPktCreator n choices))"
    by (intro run_ops_yields run_op_wf)
  assume "list_all keeps_meta ops"
  then have "yields {} (all_held pkt_synced) (run_ops ops ([], NewJSONPktCreator n choices))"
    by (intro run_ops_yields run_op_live new_pool_held) (simp_all add: list_all_iff)
  then show "\<exists>h. run_ops ops ([], NewJSONPktCreator n choices) = Inr h \<and> all_held pkt_synced h"
    by (auto simp: yields_def split: sum.splits)
qed

text \<open>A response is built in a fresh packet while a second packet holds the malformed request.\<close>

definition demo_program :: "pkt_op list" where
  "demo_program = [OpNewPkt '''' '''', OpUnmarshal 0 ''junk'', OpNewErrPkt ''r'' ''a'' ''malformed packet'',
     OpAdd 1 KeyTarget ''t'', OpWrite 1 ''hi'', OpClose 1, OpPutBack 0]"

theorem packet_programs_typed_witness:
  "list_all keeps_meta demo_program \<and>
   (\<exists>h. run_ops demo_program ([], NewJSONPktCreator 1 [0]) = Inr h \<and> all_held pkt_synced h)"
proof -
  have "list_all keeps_meta demo_program"
    by (simp add: demo_program_def json_parse_def read_value.simps read_literal_def
        read_number_def read_int_def read_digits_def is_ws_def is_digit_def)
  with packet_programs_typed [of demo_program 1 "[0]"] show ?thesis
    by blast
qed

end
