(* ===== verification/Go_Aes_Eval.thy ===== *)
theory Go_Aes_Eval
  imports Go_Aes_Gcm
begin

text \<open>
  Evaluation of AES-GCM inside the logic. The equations of this theory let the simplifier run the
  cipher on concrete blocks in seconds: the substitution box as rules for its 256 arguments, the
  permutation and mixing of a state written out, and the multiplication of GHASH by a table of the
  multiples of the hash key. The published test vectors of the standards check the model.
\<close>

section \<open>The block cipher\<close>

text \<open>A table as a conjunction of equations, which are rewrite rules.\<close>

fun table_from :: "(nat \<Rightarrow> 'a) \<Rightarrow> nat \<Rightarrow> 'a list \<Rightarrow> bool" where
  "table_from f n [] = True"
| "table_from f n (v # vs) = (f n = v \<and> table_from f (n + 1) vs)"

lemma table_fromI: "(\<And>i. i < length vs \<Longrightarrow> f (n + i) = vs ! i) \<Longrightarrow> table_from f n vs"
proof (induction vs arbitrary: n)
  case (Cons v vs)
  have "f (n + 1 + i) = vs ! i" if "i < length vs" for i
    using Cons.prems [of "Suc i"] that by simp
  then show ?case
    using Cons.IH [of "n + 1"] Cons.prems [of 0] by simp
qed simp

lemma sub_byte_table: "table_from sub_byte 0 sbox"
  by (rule table_fromI) (simp add: sbox_def sub_byte_def)

lemmas sub_byte_simps =
  sub_byte_table [unfolded sbox_def table_from.simps,
    simplified arith_simps add_0 one_add_one numeral_plus_one HOL.simp_thms]

lemma shift_rows_eq:
  "shift_rows [a0, a1, a2, a3, a4, a5, a6, a7, a8, a9, a10, a11, a12, a13, a14, a15] =
    [a0, a5, a10, a15, a4, a9, a14, a3, a8, a13, a2, a7, a12, a1, a6, a11]"
  by (simp add: shift_rows_def upt_conv_Cons)

definition mix :: "nat \<Rightarrow> nat \<Rightarrow> nat \<Rightarrow> nat \<Rightarrow> nat" where
  "mix b0 b1 b2 b3 = xtime b0 XOR (xtime b1 XOR b1) XOR b2 XOR b3"

lemma mix_columns_eq:
  "mix_columns [a0, a1, a2, a3, a4, a5, a6, a7, a8, a9, a10, a11, a12, a13, a14, a15] =
    [mix a0 a1 a2 a3, mix a1 a2 a3 a0, mix a2 a3 a0 a1, mix a3 a0 a1 a2,
     mix a4 a5 a6 a7, mix a5 a6 a7 a4, mix a6 a7 a4 a5, mix a7 a4 a5 a6,
     mix a8 a9 a10 a11, mix a9 a10 a11 a8, mix a10 a11 a8 a9, mix a11 a8 a9 a10,
     mix a12 a13 a14 a15, mix a13 a14 a15 a12, mix a14 a15 a12 a13, mix a15 a12 a13 a14]"
  by (simp add: mix_columns_def upt_conv_Cons Let_def mix_def)

text \<open>The key schedule needs the last \<open>nk\<close> words only.\<close>

definition key_temp :: "nat \<Rightarrow> nat \<Rightarrow> nat list \<Rightarrow> nat list" where
  "key_temp nk i t =
     (if i mod nk = 0 then
        (case map sub_byte (rotate1 t) of [] \<Rightarrow> [] | b # bs \<Rightarrow> (b XOR rcon ! (i div nk - 1)) # bs)
      else if 6 < nk \<and> i mod nk = 4 then map sub_byte t else t)"

fun key_stream :: "nat \<Rightarrow> nat \<Rightarrow> nat \<Rightarrow> nat list list \<Rightarrow> nat list list" where
  "key_stream nk i 0 ws = []"
| "key_stream nk i (Suc n) ws =
     (let w = map2 (XOR) (hd ws) (key_temp nk i (last ws)) in w # key_stream nk (i + 1) n (tl ws @ [w]))"

lemma key_words_stream:
  assumes "0 < nk" and "nk \<le> length ws"
  shows "key_words nk n ws = ws @ key_stream nk (length ws) n (drop (length ws - nk) ws)"
  using assms(2)
proof (induction n arbitrary: ws)
  case (Suc n)
  let ?w = "next_word nk ws" and ?d = "drop (length ws - nk) ws"
  have "last ?d = last ws" "hd ?d = ws ! (length ws - nk)"
    using Suc.prems assms(1) by (simp_all add: hd_drop_conv_nth)
  then have w: "?w = map2 (XOR) (hd ?d) (key_temp nk (length ws) (last ?d))"
    by (simp add: next_word_def key_temp_def Let_def)
  have "drop (length (ws @ [?w]) - nk) (ws @ [?w]) = tl ?d @ [?w]"
    using Suc.prems assms(1) by (simp add: Suc_diff_le drop_Suc tl_drop)
  then show ?case
    using Suc.IH [of "ws @ [?w]"] Suc.prems by (simp add: Let_def flip: w)
qed simp

text \<open>The new word is evaluated before it is used.\<close>

definition key_next :: "nat \<Rightarrow> nat \<Rightarrow> nat \<Rightarrow> nat list list \<Rightarrow> nat list \<Rightarrow> nat list list" where
  "key_next nk i n ws w = w # key_stream nk (i + 1) n (tl ws @ [w])"

lemma key_stream_numeral:
  "key_stream nk i (numeral n) ws = key_next nk i (pred_numeral n) ws (map2 (XOR) (hd ws) (key_temp nk i (last ws)))"
  "key_stream nk i 1 ws = [map2 (XOR) (hd ws) (key_temp nk i (last ws))]"
  by (simp_all add: numeral_eq_Suc key_next_def Let_def)



lemma quads_eq:
  "map (\<lambda>i. concat (take 4 (drop (4 * i) ws))) [0..<Suc n] =
     concat (take 4 ws) # map (\<lambda>i. concat (take 4 (drop (4 * i) (drop 4 ws)))) [0..<n]"
  by (simp add: upt_conv_Cons map_Suc_upt [symmetric] comp_def add.commute del: upt_Suc)

fun quads :: "nat list list \<Rightarrow> nat list list" where
  "quads (a # b # c # d # ws) = (a @ b @ c @ d) # quads ws"
| "quads _ = []"

lemma quads: "length ws = 4 * n \<Longrightarrow> map (\<lambda>i. concat (take 4 (drop (4 * i) ws))) [0..<n] = quads ws"
proof (induction n arbitrary: ws)
  case (Suc n)
  then obtain a b c d us where "ws = a # b # c # d # us" "length us = 4 * n"
    by (auto simp: length_Suc_conv numeral_eq_Suc)
  then show ?case
    using Suc.IH [of us] by (simp add: quads_eq del: upt_Suc)
qed simp

lemma length_key_words [simp]: "length (key_words nk n ws) = length ws + n"
  by (induction n arbitrary: ws) simp_all

lemma split_words:
  "list_all (\<lambda>w. length w = 4) ws \<Longrightarrow>
    map (\<lambda>i. take 4 (drop (4 * i) (concat ws))) [0..<length ws] = ws \<and> length (concat ws) = 4 * length ws"
  by (induction ws) (simp_all add: upt_conv_Cons map_Suc_upt [symmetric] comp_def del: upt_Suc)

lemma round_keys_eval:
  assumes "map of_char key = concat ws" and "list_all (\<lambda>w. length w = 4) ws" and "length ws = nk" and "0 < nk"
    and "nk + n = 4 * m" and "m = nk + 7"
  shows "round_keys key = quads (ws @ key_stream nk nk n ws)"
proof -
  have words: "key_words nk n ws = ws @ key_stream nk nk n ws"
    using key_words_stream [OF assms(4), of ws n] assms(3) by simp
  have "length key = 4 * nk"
    using assms(1,3) split_words [OF assms(2)] by (metis length_map)
  then have len: "length key div 4 = nk"
    by simp
  have n: "nk + 6 + 1 = m" "4 * m - nk = n"
    using assms(5,6) by simp_all
  have "round_keys key = map (\<lambda>i. concat (take 4 (drop (4 * i) (key_words nk n ws)))) [0..<m]"
    using split_words [OF assms(2)] unfolding assms(3) by (simp only: round_keys_def Let_def len assms(1) n)
  also have "\<dots> = quads (key_words nk n ws)"
    by (rule quads) (simp only: length_key_words assms(3,5))
  finally show ?thesis
    unfolding words .
qed

definition aes_run :: "nat list list \<Rightarrow> nat list \<Rightarrow> nat list" where
  "aes_run ks s = aes_rounds (tl ks) (add_round_key (hd ks) s)"

text \<open>The key as words, the number of words to generate, the block and its encryption.\<close>

lemma aes_block_eval:
  assumes "map of_char key = concat ws" and "list_all (\<lambda>w. length w = 4) ws" and "length ws = nk" and "0 < nk"
    and "nk + n = 4 * m" and "m = nk + 7"
    and "aes_run (quads (ws @ key_stream nk nk n ws)) (map of_char b) = s" and "length s = 16"
  shows "aes_block key b = map char_of s"
proof -
  have "map (\<lambda>i. char_of (s ! i)) [0..<length s] = map char_of s"
    by (rule nth_equalityI) simp_all
  moreover have "aes_rounds (tl (round_keys key)) (add_round_key (hd (round_keys key)) (map of_char b)) = s"
    using assms(7) unfolding aes_run_def round_keys_eval [OF assms(1-6)] .
  ultimately show ?thesis
    unfolding assms(8) by (simp only: aes_block_def Let_def)
qed

lemma rcon_simps:
  "rcon ! 0 = 1" "rcon ! 1 = 2" "rcon ! 2 = 4" "rcon ! 3 = 8" "rcon ! 4 = 16" "rcon ! 5 = 32" "rcon ! 6 = 64"
  "rcon ! 7 = 128" "rcon ! 8 = 27" "rcon ! 9 = 54"
  by (simp_all add: rcon_def)

lemmas aes_eval =
  aes_run_def key_stream_numeral key_next_def key_temp_def rcon_simps One_nat_def [symmetric]
  sub_byte_simps shift_rows_eq mix_columns_eq mix_def xtime_def add_round_key_def sub_bytes_def

text \<open>The examples of FIPS 197 for keys of 128 and of 256 bits.\<close>

definition fips_block :: bytes where
  "fips_block = map char_of
     [0x00, 0x11, 0x22, 0x33, 0x44, 0x55, 0x66, 0x77, 0x88, 0x99, 0xAA, 0xBB, 0xCC, 0xDD, 0xEE, 0xFF :: nat]"

lemma fips_197_128:
  "aes_block (map char_of [0..<16::nat]) fips_block =
    map char_of [0x69, 0xC4, 0xE0, 0xD8, 0x6A, 0x7B, 0x04, 0x30, 0xD8, 0xCD, 0xB7, 0x80, 0x70, 0xB4, 0xC5, 0x5A :: nat]"
  by (rule aes_block_eval [where nk = 4 and n = 40 and m = 11 and
      ws = "[[0, 1, 2, 3], [4, 5, 6, 7], [8, 9, 10, 11], [12, 13, 14, 15]]"])
    (simp_all add: upt_conv_Cons fips_block_def aes_eval del: One_nat_def)

lemma fips_197_256:
  "aes_block (map char_of [0..<32::nat]) fips_block =
    map char_of [0x8E, 0xA2, 0xB7, 0xCA, 0x51, 0x67, 0x45, 0xBF, 0xEA, 0xFC, 0x49, 0x90, 0x4B, 0x49, 0x60, 0x89 :: nat]"
  by (rule aes_block_eval [where nk = 8 and n = 52 and m = 15 and
      ws = "[[0, 1, 2, 3], [4, 5, 6, 7], [8, 9, 10, 11], [12, 13, 14, 15],
             [16, 17, 18, 19], [20, 21, 22, 23], [24, 25, 26, 27], [28, 29, 30, 31]]"])
    (simp_all add: upt_conv_Cons fips_block_def aes_eval del: One_nat_def)

section \<open>The hash\<close>

text \<open>The multiples of the hash key by the powers of the generator, the last one first.\<close>

definition gf_next :: "nat \<Rightarrow> nat" where
  "gf_next v = (if odd v then (v div 2) XOR 0xE1000000000000000000000000000000 else v div 2)"

fun gf_powers :: "nat \<Rightarrow> nat \<Rightarrow> nat list \<Rightarrow> nat list" where
  "gf_powers 0 v vs = vs"
| "gf_powers (Suc n) v vs = gf_powers n (gf_next v) (v # vs)"

fun xor_select :: "nat \<Rightarrow> nat list \<Rightarrow> nat \<Rightarrow> nat" where
  "xor_select x [] z = z"
| "xor_select x (v # vs) z = xor_select (x div 2) vs (if odd x then z XOR v else z)"

lemma xor_select_shift: "xor_select x vs (z XOR a) = xor_select x vs z XOR a"
proof (induction vs arbitrary: x z)
  case (Cons v vs)
  have "(z XOR a) XOR v = (z XOR v) XOR a"
    by (simp add: ac_simps)
  then show ?case
    using Cons.IH by simp
qed simp

lemma xor_select_append:
  "xor_select x (us @ vs) z = xor_select (x div 2 ^ length us) vs (xor_select x us z)"
  by (induction us arbitrary: x z) (simp_all add: div_mult2_eq)

lemma gf_powers_append: "gf_powers n v vs = gf_powers n v [] @ vs"
  by (induction n arbitrary: v vs) (simp, metis append_Cons append_assoc append_Nil gf_powers.simps(2))

lemma length_gf_powers: "length (gf_powers n v vs) = n + length vs"
  by (induction n arbitrary: v vs) simp_all

lemma gf_mul_select: "gf_mul_loop n x v z = xor_select x (gf_powers n v []) z"
proof (induction n arbitrary: v z)
  case (Suc n)
  have "gf_powers (Suc n) v [] = gf_powers n (gf_next v) [] @ [v]"
    using gf_powers_append [of n "gf_next v" "[v]"] by simp
  then show ?case
    using Suc.IH [of "gf_next v"]
    by (simp add: xor_select_append length_gf_powers xor_select_shift flip: gf_next_def)
qed simp

text \<open>Rules for concrete arguments, down to the bits, to be used without any others.\<close>

definition bit0 :: "nat \<Rightarrow> nat" where "bit0 n = 2 * n"
definition bit1 :: "nat \<Rightarrow> nat" where "bit1 n = 2 * n + 1"

fun xor_bits :: "num \<Rightarrow> num \<Rightarrow> nat" where
  "xor_bits Num.One Num.One = 0"
| "xor_bits Num.One (Num.Bit0 n) = numeral (Num.Bit1 n)"
| "xor_bits Num.One (Num.Bit1 n) = numeral (Num.Bit0 n)"
| "xor_bits (Num.Bit0 m) Num.One = numeral (Num.Bit1 m)"
| "xor_bits (Num.Bit0 m) (Num.Bit0 n) = bit0 (xor_bits m n)"
| "xor_bits (Num.Bit0 m) (Num.Bit1 n) = bit1 (xor_bits m n)"
| "xor_bits (Num.Bit1 m) Num.One = numeral (Num.Bit0 m)"
| "xor_bits (Num.Bit1 m) (Num.Bit0 n) = bit1 (xor_bits m n)"
| "xor_bits (Num.Bit1 m) (Num.Bit1 n) = bit0 (xor_bits m n)"

lemma xor_bits: "numeral m XOR numeral n = xor_bits m n"
  by (induction m n rule: xor_bits.induct) (simp_all add: bit0_def bit1_def)

lemma bit_numeral:
  "bit0 0 = 0" "bit0 1 = 2" "bit0 (numeral n) = numeral (Num.Bit0 n)"
  "bit1 0 = 1" "bit1 1 = 3" "bit1 (numeral n) = numeral (Num.Bit1 n)"
  by (simp_all add: bit0_def bit1_def)

lemma xor_one:
  "numeral m XOR (1 :: nat) = xor_bits m Num.One" "1 XOR numeral n = xor_bits Num.One n" "1 XOR 1 = (0 :: nat)"
  using xor_bits [of m Num.One] xor_bits [of Num.One n] by simp_all

lemma xor_zero: "0 XOR n = (n :: nat)" "n XOR 0 = (n :: nat)"
  by simp_all

lemmas xor_eval = xor_bits xor_one xor_zero xor_bits.simps bit_numeral

lemma gf_next_numeral:
  "gf_next 0 = 0" "gf_next 1 = 0xE1000000000000000000000000000000"
  "gf_next (numeral (Num.Bit0 n)) = numeral n"
  "gf_next (numeral (Num.Bit1 n)) = numeral n XOR 0xE1000000000000000000000000000000"
  by (simp_all add: gf_next_def)

lemma gf_powers_numeral:
  "gf_powers (numeral n) v vs = gf_powers (pred_numeral n) (gf_next v) (v # vs)"
  "gf_powers 1 v vs = v # vs"
  by (simp_all add: numeral_eq_Suc)

lemma xor_select_numeral:
  "xor_select 0 vs z = z" "xor_select 1 (v # vs) z = z XOR v"
  "xor_select (numeral (Num.Bit0 n)) (v # vs) z = xor_select (numeral n) vs z"
  "xor_select (numeral (Num.Bit1 n)) (v # vs) z = xor_select (numeral n) vs (z XOR v)"
proof -
  show zero: "xor_select 0 vs z = z" for vs z
    by (induction vs) simp_all
  show "xor_select 1 (v # vs) z = z XOR v"
    by (simp add: zero)
qed simp_all

text \<open>The hash of a ciphertext with the table of the hash key.\<close>

fun ghash_table :: "nat list \<Rightarrow> nat \<Rightarrow> nat list \<Rightarrow> nat" where
  "ghash_table t y [] = y"
| "ghash_table t y (b # bs) = ghash_table t (xor_select (y XOR b) t 0) bs"

definition ghash_chunk :: "bytes \<Rightarrow> nat" where
  "ghash_chunk c = be_nat (take 16 (take 16 c @ replicate 16 CHR 0x00))"

fun ghash_chunks :: "nat \<Rightarrow> bytes \<Rightarrow> nat list" where
  "ghash_chunks 0 c = []"
| "ghash_chunks (Suc n) c = ghash_chunk c # ghash_chunks n (drop 16 c)"

lemma ghash_blocks_table: "ghash_blocks n h y c = ghash_table (gf_powers 128 h []) y (ghash_chunks n c)"
  by (induction n arbitrary: y c) (simp_all add: gf_mul_def gf_mul_select ghash_chunk_def)

lemma ghash_eval:
  assumes "gf_powers 128 h [] = t"
  shows "ghash h c = ghash_table t 0 (ghash_chunks ((length c + 15) div 16) c @ [8 * length c])"
proof -
  have "ghash_table t y (bs @ [b]) = xor_select (ghash_table t y bs XOR b) t 0" for y bs b
    by (induction bs arbitrary: y) simp_all
  then show ?thesis
    by (simp add: ghash_def gf_mul_def gf_mul_select ghash_blocks_table assms)
qed

lemma ghash_chunks_numeral:
  "ghash_chunks (numeral n) c = ghash_chunk c # ghash_chunks (pred_numeral n) (drop 16 c)"
  "ghash_chunks 1 c = [ghash_chunk c]"
  by (simp_all add: numeral_eq_Suc)

lemma zero_block: "replicate 16 CHR 0x00 = map char_of [0, 0, 0, 0, 0, 0, 0, 0, 0, 0, 0, 0, 0, 0, 0, 0 :: nat]"
  by (simp add: numeral_eq_Suc char_of_def)

text \<open>Strings as numbers, and the tag.\<close>

fun be_number :: "nat \<Rightarrow> nat list \<Rightarrow> nat" where
  "be_number a [] = a"
| "be_number a (b # bs) = be_number (a * 256 + b) bs"

lemma be_nat_number: "be_nat c = be_number 0 (map of_char c)"
proof -
  have "foldl (\<lambda>a b. a * 256 + of_char b) a c = be_number a (map of_char c)" for a
    by (induction c arbitrary: a) simp_all
  then show ?thesis
    by (simp add: be_nat_def)
qed

lemma gcm_tag_eval:
  assumes "aes_block key (replicate 16 CHR 0x00) = map char_of hb" and "be_nat (map char_of hb) = h" and "gf_powers 128 h [] = t"
    and "ghash_table t 0 (ghash_chunks ((length c + 15) div 16) c @ [8 * length c]) = g"
    and "aes_block key (gcm_counter nonce 1) = e"
  shows "gcm_tag key nonce c = xor_bytes (be_bytes 16 g) e"
  using ghash_eval [OF assms(3), of c] assms by (simp add: gcm_tag_def)

lemmas chunk_eval = ghash_chunks_numeral ghash_chunk_def be_nat_number zero_block

lemmas ghash_table_eval =
  ghash_table.simps gf_powers.simps(1) gf_powers_numeral gf_next_numeral xor_select.simps(1) xor_select_numeral
  pred_numeral_simps Num.BitM.simps numeral_One xor_eval

text \<open>Test case 3 of the specification of GCM.\<close>

definition gcm_key :: bytes where
  "gcm_key = map char_of
    [0xFE, 0xFF, 0xE9, 0x92, 0x86, 0x65, 0x73, 0x1C, 0x6D, 0x6A, 0x8F, 0x94, 0x67, 0x30, 0x83, 0x08 :: nat]"

definition gcm_nonce :: bytes where
  "gcm_nonce = map char_of [0xCA, 0xFE, 0xBA, 0xBE, 0xFA, 0xCE, 0xDB, 0xAD, 0xDE, 0xCA, 0xF8, 0x88 :: nat]"

definition gcm_text :: bytes where
  "gcm_text = map char_of
    [0x42, 0x83, 0x1E, 0xC2, 0x21, 0x77, 0x74, 0x24, 0x4B, 0x72, 0x21, 0xB7, 0x84, 0xD0, 0xD4, 0x9C,
     0xE3, 0xAA, 0x21, 0x2F, 0x2C, 0x02, 0xA4, 0xE0, 0x35, 0xC1, 0x7E, 0x23, 0x29, 0xAC, 0xA1, 0x2E,
     0x21, 0xD5, 0x14, 0xB2, 0x54, 0x66, 0x93, 0x1C, 0x7D, 0x8F, 0x6A, 0x5A, 0xAC, 0x84, 0xAA, 0x05,
     0x1B, 0xA3, 0x0B, 0x39, 0x6A, 0x0A, 0xAC, 0x97, 0x3D, 0x58, 0xE0, 0x91, 0x47, 0x3F, 0x59, 0x85 :: nat]"

lemma gcm_key_block:
  assumes "aes_run (quads (ws @ key_stream 4 4 40 ws)) (map of_char b) = s" and "length s = 16"
    and "ws = [[0xFE, 0xFF, 0xE9, 0x92], [0x86, 0x65, 0x73, 0x1C], [0x6D, 0x6A, 0x8F, 0x94], [0x67, 0x30, 0x83, 0x08]]"
  shows "aes_block gcm_key b = map char_of s"
  using assms by (intro aes_block_eval [where nk = 4 and n = 40 and m = 11 and ws = ws]) (simp_all add: gcm_key_def)

lemma gcm_test_case_3:
  "gcm_tag gcm_key gcm_nonce gcm_text = map char_of
    [0x4D, 0x5C, 0x2A, 0xF3, 0x27, 0xCD, 0x64, 0xA6, 0x2C, 0xF3, 0x5A, 0xBD, 0x2B, 0xA6, 0xFA, 0xB4 :: nat]"
proof -
  let ?h = "[0xB8, 0x3B, 0x53, 0x37, 0x08, 0xBF, 0x53, 0x5D, 0x0A, 0xA6, 0xE5, 0x29, 0x80, 0xD5, 0x3B, 0x78 :: nat]"
  have h: "aes_block gcm_key (replicate 16 CHR 0x00) = map char_of ?h"
    by (rule gcm_key_block) (simp_all add: zero_block aes_eval del: One_nat_def)
  have n: "be_nat (map char_of ?h) = 0xB83B533708BF535D0AA6E52980D53B78"
    by (simp add: be_nat_number)
  have chunks: "ghash_chunks ((length gcm_text + 15) div 16) gcm_text @ [8 * length gcm_text] =
      [0x42831EC2217774244B7221B784D0D49C,
       0xE3AA212F2C02A4E035C17E2329ACA12E,
       0x21D514B25466931C7D8F6A5AAC84AA05,
       0x1BA30B396A0AAC973D58E091473F5985, 512]"
    by (simp add: gcm_text_def chunk_eval)
  have g: "ghash_table (gf_powers 128 0xB83B533708BF535D0AA6E52980D53B78 []) 0 (ghash_chunks ((length gcm_text + 15) div 16) gcm_text @ [8 * length gcm_text]) =
      0x7F1B32B81B820D02614F8895AC1D4EAC"
    unfolding chunks by (simp only: ghash_table_eval)
  have e: "aes_block gcm_key (gcm_counter gcm_nonce 1) = map char_of
      [0x32, 0x47, 0x18, 0x4B, 0x3C, 0x4F, 0x69, 0xA4, 0x4D, 0xBC, 0xD2, 0x28, 0x87, 0xBB, 0xB4, 0x18 :: nat]"
    by (rule gcm_key_block)
      (simp_all add: gcm_counter_def gcm_nonce_def be_bytes_def upt_conv_Cons aes_eval del: One_nat_def)
  show ?thesis
    unfolding gcm_tag_eval [OF h n refl g e] by (simp add: xor_bytes_def bxor_def be_bytes_def upt_conv_Cons)
qed

end
