(* ===== verification/Kex_Example.thy ===== *)
theory Kex_Example
  imports Examples Go_Aes_Eval
begin

text \<open>
  A key exchange worked out: the states in which the examples start, and the server's answer when every
  private key is the scalar 1. The answer travels unencrypted to a client that decrypts everything, so
  the set-up of the crypto example goes on only where AES-GCM does not take the answer for a ciphertext;
  here the tag is computed, with the evaluation of \<open>Go_Aes_Eval\<close>, and is a different one.
\<close>

section \<open>The first states\<close>

text \<open>A client and a server in their first state, for the witnesses.\<close>

definition demo_app :: "(string \<rightharpoonup> keyStore) \<Rightarrow> AppState" where
  "demo_app ks = \<lparr>crypto = demo_crypto ks, rand = demo_rand, pc = \<lparr>pool = [], picks = []\<rparr>,
     sendStream = [], writeStream = [], streamsClosed = False, requestsServed = 0, appNow = ''noon''\<rparr>"

definition demo_net :: "(string \<rightharpoonup> keyStore) \<Rightarrow> (string \<rightharpoonup> keyStore) \<Rightarrow> AppState Net" where
  "demo_net kc ks = \<lparr>crypto = demo_crypto kc, rand = demo_rand, cpc = \<lparr>pool = [], picks = []\<rparr>,
     rints = (\<lambda>i. i), rused = 0, remote = demo_app ks\<rparr>"

lemma demo_net_simps [simp]:
  "remote (demo_net kc ks) = demo_app ks" "pool_ok (cpc (demo_net kc ks))" "crypto (demo_net kc ks) = demo_crypto kc"
  "pool_ok (pc (demo_app ks))" "\<not> streamsClosed (demo_app ks)" "sendStream (demo_app ks) = []"
  "writeStream (demo_app ks) = []" "crypto (demo_app ks) = demo_crypto ks" "appNow (demo_app ks) = ''noon''"
  "rand_ok (rand (demo_net kc ks))" "rand_ok (rand (demo_app ks))"
  by (simp_all add: demo_net_def demo_app_def empty_pool_ok rand_ok_def demo_rand_def)

section \<open>An answer that GCM rejects\<close>

text \<open>
  The exchange with the scalar 1 on all sides, where every secret is the first coordinate of the base
  point: the server's answer on the wire, and the tag that GCM computes for it, which is not the one
  the text ends with.
\<close>

definition demo_key_text :: bytes where
  "demo_key_text =
     ''eyJ4Ijo0ODQzOTU2MTI5MzkwNjQ1MTc1OTA1MjU4NTI1Mjc5NzkxNDIwMjc2Mjk0OTUyNjA0MTc0Nzk5NTg0NDA4'' @
     ''MDcxNzA4MjQwNDYzNTI4NiwieSI6MzYxMzQyNTA5NTY3NDk3OTU3OTg1ODUxMjc5MTk1ODc4ODE5NTY2MTExMDY2'' @
     ''NzI5ODUwMTUwNzE4NzcxOTgyNTM1Njg0MTQ0MDUxMDl9''"

lemma alphabet_table: "table_from ((!) b64_alphabet) 0 b64_alphabet"
  by (rule table_fromI) simp

lemmas alphabet_simps =
  alphabet_table [unfolded b64_alphabet_def [THEN arg_cong, of "table_from ((!) b64_alphabet) 0"] table_from.simps,
    simplified arith_simps add_0 one_add_one numeral_plus_one HOL.simp_thms]

text \<open>The digits of a number from the first to the last.\<close>

lemma dec_nat_digit:
  assumes "is_digit c" and "0 < a"
  shows "dec_nat (a * 10 + digit_val c) = dec_nat a @ [c]"
proof -
  have d: "48 \<le> (of_char c :: nat)" "of_char c < (58 :: nat)"
    using assms(1) by (auto simp: is_digit_def)
  then have "digit_val c < 10"
    by (simp add: digit_val_def)
  then have "(a * 10 + digit_val c) div 10 = a" "(a * 10 + digit_val c) mod 10 = digit_val c" "\<not> a * 10 + digit_val c < 10"
    using assms(2) by simp_all
  moreover have "dec_digit (a * 10 + digit_val c) = c"
    unfolding dec_digit_def calculation(2) by (rule char_of_eqI) (use d in \<open>simp add: digit_val_def\<close>)
  ultimately show ?thesis
    by (subst dec_nat.simps) simp
qed

lemma dec_nat_Horner:
  "0 < a \<Longrightarrow> list_all is_digit ds \<Longrightarrow> dec_nat (foldl (\<lambda>a c. a * 10 + digit_val c) a ds) = dec_nat a @ ds"
  by (induction ds arbitrary: a) (simp_all add: dec_nat_digit)

lemma dec_nat_text:
  assumes "0 < a" and "foldl (\<lambda>a c. a * 10 + digit_val c) a ds = n" and "list_all is_digit ds" and "dec_nat a = [d]"
  shows "dec_nat n = d # ds"
  using dec_nat_Horner [OF assms(1,3)] assms(2,4) by simp

lemma demo_coordinates:
  "dec_nat 48439561293906451759052585252797914202762949526041747995844080717082404635286 =
    ''48439561293906451759052585252797914202762949526041747995844080717082404635286''"
  "dec_nat 36134250956749795798585127919587881956611106672985015071877198253568414405109 =
    ''36134250956749795798585127919587881956611106672985015071877198253568414405109''"
  by (rule dec_nat_text [where a = 4]; simp add: is_digit_def digit_val_def dec_nat.simps dec_digit_def char_of_eqI)
    (rule dec_nat_text [where a = 3]; simp add: is_digit_def digit_val_def dec_nat.simps dec_digit_def char_of_eqI)

lemma demo_public:
  "marshalPublicKey (pub_of 1) = CHR ''{'' # dquote # ''x'' @ dquote # CHR '':'' #
    ''48439561293906451759052585252797914202762949526041747995844080717082404635286'' @
    CHR '','' # dquote # ''y'' @ dquote # CHR '':'' #
    ''36134250956749795798585127919587881956611106672985015071877198253568414405109'' @ ''}''"
proof -
  have "pub_of 1 = \<lparr>pkX = Some p256_Gx, pkY = Some p256_Gy\<rparr>"
    using from_affine_public(1) [of 1, OF _ base_on_curve] by (simp add: pub_of_def public_point_def ec_mul_1 [simplified])
  moreover have "json_quote ''x'' = dquote # ''x'' @ [dquote]" "json_quote ''y'' = dquote # ''y'' @ [dquote]"
    by (simp_all add: json_quote_plain html_safe_def)
  ultimately show ?thesis
    by (simp add: marshalPublicKey_def big_json_def dec_int_def demo_coordinates p256_Gx_def p256_Gy_def)
qed

lemma demo_key_text: "b64_encode (marshalPublicKey (pub_of 1)) = demo_key_text"
  unfolding demo_public by (simp add: demo_key_text_def b64_quad_def b64_chr_def alphabet_simps)


text \<open>The answer: the twelve bytes that are taken for the nonce, the text that is taken for the ciphertext, and
  the sixteen bytes that are taken for the tag.\<close>

definition demo_nonce :: "nat list" where
  "demo_nonce = [0x7B, 0x22, 0x6D, 0x22, 0x3A, 0x7B, 0x22, 0x5F, 0x6E, 0x6F, 0x5F, 0x63]"

definition demo_text :: "nat list" where
  "demo_text =
    [0x72, 0x79, 0x70, 0x74, 0x6F, 0x22, 0x3A, 0x22, 0x74, 0x72, 0x75, 0x65, 0x22, 0x2C, 0x22, 0x5F, 0x72, 0x65, 0x66, 0x22, 0x3A, 0x22,
     0x61, 0x61, 0x61, 0x61, 0x61, 0x22, 0x7D, 0x2C, 0x22, 0x64, 0x22, 0x3A, 0x22, 0x65, 0x79, 0x4A, 0x34, 0x49, 0x6A, 0x6F, 0x30, 0x4F,
     0x44, 0x51, 0x7A, 0x4F, 0x54, 0x55, 0x32, 0x4D, 0x54, 0x49, 0x35, 0x4D, 0x7A, 0x6B, 0x77, 0x4E, 0x6A, 0x51, 0x31, 0x4D, 0x54, 0x63,
     0x31, 0x4F, 0x54, 0x41, 0x31, 0x4D, 0x6A, 0x55, 0x34, 0x4E, 0x54, 0x49, 0x31, 0x4D, 0x6A, 0x63, 0x35, 0x4E, 0x7A, 0x6B, 0x78, 0x4E,
     0x44, 0x49, 0x77, 0x4D, 0x6A, 0x63, 0x32, 0x4D, 0x6A, 0x6B, 0x30, 0x4F, 0x54, 0x55, 0x79, 0x4E, 0x6A, 0x41, 0x30, 0x4D, 0x54, 0x63,
     0x30, 0x4E, 0x7A, 0x6B, 0x35, 0x4E, 0x54, 0x67, 0x30, 0x4E, 0x44, 0x41, 0x34, 0x4D, 0x44, 0x63, 0x78, 0x4E, 0x7A, 0x41, 0x34, 0x4D,
     0x6A, 0x51, 0x77, 0x4E, 0x44, 0x59, 0x7A, 0x4E, 0x54, 0x49, 0x34, 0x4E, 0x69, 0x77, 0x69, 0x65, 0x53, 0x49, 0x36, 0x4D, 0x7A, 0x59,
     0x78, 0x4D, 0x7A, 0x51, 0x79, 0x4E, 0x54, 0x41, 0x35, 0x4E, 0x54, 0x59, 0x33, 0x4E, 0x44, 0x6B, 0x33, 0x4F, 0x54, 0x55, 0x33, 0x4F,
     0x54, 0x67, 0x31, 0x4F, 0x44, 0x55, 0x78, 0x4D, 0x6A, 0x63, 0x35, 0x4D, 0x54, 0x6B, 0x31, 0x4F, 0x44, 0x63, 0x34, 0x4F, 0x44, 0x45,
     0x35, 0x4E, 0x54, 0x59, 0x32, 0x4D, 0x54, 0x45, 0x78, 0x4D, 0x44, 0x59, 0x32, 0x4E, 0x7A, 0x49, 0x35, 0x4F, 0x44, 0x55, 0x77, 0x4D,
     0x54, 0x55, 0x77, 0x4E, 0x7A, 0x45, 0x34, 0x4E, 0x7A, 0x63, 0x78, 0x4F, 0x54, 0x67, 0x79, 0x4E, 0x54, 0x4D, 0x31, 0x4E, 0x6A]"

definition demo_tag :: "nat list" where
  "demo_tag = [0x67, 0x30, 0x4D, 0x54, 0x51, 0x30, 0x4D, 0x44, 0x55, 0x78, 0x4D, 0x44, 0x6C, 0x39, 0x22, 0x7D]"

lemma demo_answer: "map of_char (kex_answer ''aaaaa'' (pub_of 1)) = demo_nonce @ demo_text @ demo_tag"
proof -
  have "list_all html_safe demo_key_text"
    by (simp add: demo_key_text_def html_safe_def)
  then have "kex_answer ''aaaaa'' (pub_of 1) = CHR ''{'' # dquote # ''m'' @ dquote # CHR '':'' # CHR ''{'' # dquote # ''_no_crypto'' @
      dquote # CHR '':'' # dquote # ''true'' @ dquote # CHR '','' # dquote # ''_ref'' @ dquote # CHR '':'' # dquote # ''aaaaa'' @
      dquote # ''},'' @ dquote # ''d'' @ dquote # CHR '':'' # dquote # demo_key_text @ dquote # ''}''"
    by (simp add: kex_answer_def json_string_map_def KeyNoCrypto_def key_defs demo_key_text json_quote_plain html_safe_def
        del: One_nat_def)
  then show ?thesis
    by (simp add: demo_key_text_def demo_nonce_def demo_text_def demo_tag_def)
qed

text \<open>The bytes of a number from the first to the last.\<close>

lemma nat_bytes_byte: "b < 256 \<Longrightarrow> 0 < a \<Longrightarrow> nat_bytes (a * 256 + b) = nat_bytes a @ [char_of b]"
  by (subst nat_bytes.simps) simp

lemma nat_bytes_number:
  "0 < a \<Longrightarrow> list_all (\<lambda>b. b < 256) bs \<Longrightarrow> nat_bytes (be_number a bs) = nat_bytes a @ map char_of bs"
  by (induction bs arbitrary: a) (simp_all add: nat_bytes_byte)

definition demo_words :: "nat list list" where
  "demo_words =
    [[0x6B, 0x17, 0xD1, 0xF2], [0xE1, 0x2C, 0x42, 0x47], [0xF8, 0xBC, 0xE6, 0xE5], [0x63, 0xA4, 0x40, 0xF2],
        [0x77, 0x03, 0x7D, 0x81], [0x2D, 0xEB, 0x33, 0xA0], [0xF4, 0xA1, 0x39, 0x45], [0xD8, 0x98, 0xC2, 0x96]]"

lemma demo_key: "map of_char (big_Bytes p256_Gx) = concat demo_words" "length (big_Bytes p256_Gx) = 32"
proof -
  have "nat p256_Gx = be_number 0x6B (tl (concat demo_words))"
    by (simp add: demo_words_def p256_Gx_def)
  moreover have "nat_bytes 0x6B = [char_of (0x6B :: nat)]"
    by (simp add: nat_bytes.simps)
  ultimately have key: "big_Bytes p256_Gx = map char_of (0x6B # tl (concat demo_words))"
    using nat_bytes_number [where a = "0x6B" and bs = "tl (concat demo_words)"] by (simp add: big_Bytes_def p256_Gx_def demo_words_def)
  show "map of_char (big_Bytes p256_Gx) = concat demo_words" "length (big_Bytes p256_Gx) = 32"
    unfolding key by (simp_all add: demo_words_def)
qed

lemma demo_block:
  assumes "aes_run (quads (demo_words @ key_stream 8 8 52 demo_words)) (map of_char b) = s" and "length s = 16"
  shows "aes_block (big_Bytes p256_Gx) b = map char_of s"
  using assms demo_key(1)
  by (intro aes_block_eval [where nk = 8 and n = 52 and m = 15 and ws = demo_words]) (simp_all add: demo_words_def)

lemma demo_tag_computed:
  "gcm_tag (big_Bytes p256_Gx) (map char_of demo_nonce) (map char_of demo_text) = map char_of
    [0x36, 0xDD, 0xE0, 0xA9, 0x1E, 0x51, 0x5E, 0x8E, 0x77, 0x3C, 0x56, 0xEC, 0x4E, 0x98, 0x83, 0x43 :: nat]"
proof -
  let ?h = "[0x50, 0x30, 0x95, 0x78, 0x88, 0x9D, 0xC0, 0x44, 0xBD, 0x1C, 0x97, 0xC0, 0x3B, 0xAE, 0x91, 0xA0 :: nat]"
  have h: "aes_block (big_Bytes p256_Gx) (replicate 16 CHR 0x00) = map char_of ?h"
    by (rule demo_block) (simp_all add: demo_words_def zero_block aes_eval del: One_nat_def)
  have n: "be_nat (map char_of ?h) = 0x50309578889DC044BD1C97C03BAE91A0"
    by (simp add: be_nat_number)
  let ?c = "map char_of demo_text"
  have chunks: "ghash_chunks ((length ?c + 15) div 16) ?c @ [8 * length ?c] =
      [0x727970746F223A2274727565222C225F, 0x726566223A226161616161227D2C2264,
       0x223A2265794A34496A6F304F44517A4F, 0x5455324D5449354D7A6B774E6A51314D,
       0x5463314F5441314D6A55344E5449314D, 0x6A63354E7A6B784E4449774D6A63324D,
       0x6A6B304F5455794E6A41304D5463304E, 0x7A6B354E5467304E4441344D4463784E,
       0x7A41344D6A51774E44597A4E5449344E, 0x697769655349364D7A59784D7A51794E,
       0x5441354E5459334E446B334F5455334F, 0x5467314F4455784D6A63354D546B314F,
       0x4463344F4445354E5459324D5445784D, 0x4459324E7A49354F4455774D5455774E,
       0x7A45344E7A63784F5467794E544D314E, 0x6A000000000000000000000000000000, 1928]"
    by (simp add: demo_text_def chunk_eval)
  have g: "ghash_table (gf_powers 128 0x50309578889DC044BD1C97C03BAE91A0 []) 0 (ghash_chunks ((length ?c + 15) div 16) ?c @ [8 * length ?c]) =
      0xEEFBCD091C3D9245349C3C4849A6C3ED"
    unfolding chunks by (simp only: ghash_table_eval)
  have e: "aes_block (big_Bytes p256_Gx) (gcm_counter (map char_of demo_nonce) 1) = map char_of
      [0xD8, 0x26, 0x2D, 0xA0, 0x02, 0x6C, 0xCC, 0xCB, 0x43, 0xA0, 0x6A, 0xA4, 0x07, 0x3E, 0x40, 0xAE :: nat]"
    by (rule demo_block)
      (simp_all add: demo_words_def demo_nonce_def gcm_counter_def be_bytes_def upt_conv_Cons aes_eval del: One_nat_def)
  show ?thesis
    unfolding gcm_tag_eval [OF h n refl g e] by (simp add: xor_bytes_def bxor_def be_bytes_def upt_conv_Cons)
qed

text \<open>So the client takes the answer for what it is, unencrypted.\<close>

lemma demo_rejects: "rejects p256_Gx (kex_answer ''aaaaa'' (pub_of 1))"
proof -
  have "map char_of (map of_char (kex_answer ''aaaaa'' (pub_of 1)) :: nat list) = kex_answer ''aaaaa'' (pub_of 1)"
    by (simp add: comp_def)
  then have ans: "kex_answer ''aaaaa'' (pub_of 1) = map char_of demo_nonce @ map char_of demo_text @ map char_of demo_tag"
    unfolding demo_answer map_append by (rule sym)
  have len: "length demo_nonce = 12" "length demo_text = 241" "length demo_tag = 16"
    by (simp_all add: demo_nonce_def demo_text_def demo_tag_def)
  have "map char_of demo_tag \<noteq> gcm_tag (big_Bytes p256_Gx) (map char_of demo_nonce) (map char_of demo_text)"
    unfolding demo_tag_computed demo_tag_def by (simp add: char_of_eq_iff)
  then have "gcm_open (big_Bytes p256_Gx) (map char_of demo_nonce) (map char_of demo_text @ map char_of demo_tag) = None"
    by (simp add: gcm_open_def Let_def len)
  then show ?thesis
    by (simp add: rejects_def decryptAES_def aes_key_ok_def demo_key(2) ans len del: One_nat_def)
qed

end
