(* ===== verification/Crypto_Setup.thy ===== *)
theory Crypto_Setup
  imports Kex_Example
begin

text \<open>
  The set-up of the crypto example (\<open>src/examples/crypto\<close>), from a new server and two new clients: both
  clients are secured, and they exchange keys with each other over the server.
\<close>

section \<open>Servers and clients with the extension\<close>

lemma Extend_parts:
  fixes p :: "'z CryptoState_scheme Processor"
  assumes "pipelines (dataP p) = Map.empty"
  shows "stages_of (pipelines (dataP (fst (Extend kind p)))) ''_in_'' = [decryptTransport]"
    and "stages_of (pipelines (dataP (fst (Extend kind p)))) ''_out_'' = [encryptTransport]"
  using assms
  by (auto simp: Extend_def Let_def AddTransform_def installOnServer_def installOnClient_def split: if_splits)

lemma Extend_server_targets:
  fixes p :: "'z CryptoState_scheme Processor"
  assumes "callbackQueues (packetP p) = [TargetRelay \<mapsto> q]"
  shows "callbackQueues (packetP (fst (Extend ''server'' p))) =
    [TargetRelay \<mapsto> q, TargetKeyExchangeServer \<mapsto> [keyExchangeServer], TargetKeyExchangeClient \<mapsto> [keyExchangeClient]]"
  using assms
  by (simp add: Extend_def Let_def installOnServer_def AddCallback_def TargetKeyExchangeServer_def
      TargetKeyExchangeClient_def TargetRelay_def stages_of_def)

lemma NewUDPServer_targets:
  "NewUDPServer None a sz r = Inr (Inr svr) \<Longrightarrow> callbackQueues (packetP (procs svr)) = [TargetRelay \<mapsto> [relayCallback]]"
  by (auto simp: NewUDPServer_def go_simps AddCallback_def NewPacketPipeline_def)

lemma crypto_server_ok:
  fixes svr :: "'z AppState_scheme UDPServer"
  assumes "crypto_server None (Inr key) = Inr (Some (svr, cr))"
  shows "secured svr" and "callbackQueues (packetP (procs svr)) TargetEcho = Some [echo]"
    and "callbackQueues (packetP (procs svr)) TargetRelay = Some [relayCallback]"
proof -
  obtain svr0 :: "'z AppState_scheme UDPServer" where svr0: "NewUDPServer None listenAddr 4096 Rate10k = Inr (Inr svr0)"
    and svr: "procs svr = (let p = fst (Extend ''server'' (procs svr0)) in p\<lparr>packetP := AddCallback TargetEcho echo (packetP p)\<rparr>)"
    using assms by (cases "NewUDPServer None listenAddr 4096 Rate10k :: (string + 'z AppState_scheme UDPServer) go" rule: sum.exhaust)
      (auto simp: crypto_server_def NewCrypto_def Let_def split: sum.split_asm)
  have "pipelines (dataP (procs svr0)) = Map.empty"
    using NewUDPServer_plain [OF svr0] by (simp add: plain_def)
  then show "secured svr"
    using Extend_parts [of "procs svr0" "''server''"] by (simp add: secured_def svr Let_def)
  show "callbackQueues (packetP (procs svr)) TargetEcho = Some [echo]"
    "callbackQueues (packetP (procs svr)) TargetRelay = Some [relayCallback]"
    using Extend_server_targets [OF NewUDPServer_targets [OF svr0]]
    by (simp_all add: svr Let_def AddCallback_def stages_of_def TargetEcho_def TargetRelay_def
        TargetKeyExchangeServer_def TargetKeyExchangeClient_def)
qed

lemma crypto_server_kex:
  fixes svr :: "'z AppState_scheme UDPServer"
  assumes "crypto_server None (Inr key) = Inr (Some (svr, cr))"
  shows "callbackQueues (packetP (procs svr)) TargetKeyExchangeServer = Some [keyExchangeServer]"
    and "callbackQueues (packetP (procs svr)) TargetKeyExchangeClient = Some [keyExchangeClient]"
    and "NewCrypto (Some key) (Inr key) = Inr cr"
proof -
  obtain svr0 :: "'z AppState_scheme UDPServer" where svr0: "NewUDPServer None listenAddr 4096 Rate10k = Inr (Inr svr0)"
    and svr: "procs svr = (let p = fst (Extend ''server'' (procs svr0)) in p\<lparr>packetP := AddCallback TargetEcho echo (packetP p)\<rparr>)"
    and cr: "NewCrypto (Some key) (Inr key) = Inr cr"
    using assms by (cases "NewUDPServer None listenAddr 4096 Rate10k :: (string + 'z AppState_scheme UDPServer) go" rule: sum.exhaust)
      (auto simp: crypto_server_def NewCrypto_def Let_def split: sum.split_asm)
  show "callbackQueues (packetP (procs svr)) TargetKeyExchangeServer = Some [keyExchangeServer]"
    "callbackQueues (packetP (procs svr)) TargetKeyExchangeClient = Some [keyExchangeClient]"
    using Extend_server_targets [OF NewUDPServer_targets [OF svr0]]
    by (simp_all add: svr Let_def AddCallback_def stages_of_def TargetEcho_def TargetRelay_def
        TargetKeyExchangeServer_def TargetKeyExchangeClient_def)
  show "NewCrypto (Some key) (Inr key) = Inr cr"
    by (rule cr)
qed

text \<open>The state of a network in which nothing is under way.\<close>

definition calm :: "'z ServerState_scheme Net \<Rightarrow> bool" where
  "calm n \<longleftrightarrow> pool_ok (cpc n) \<and> open_ok (remote n) \<and>
     sendStream (remote n) = [] \<and> writeStream (remote n) = [] \<and> rand_ok (rand n)"

text \<open>\<open>ConfigureClient\<close> of a new client over the network, with all that it leaves.\<close>

lemma ConfigureClient_over_network:
  fixes n :: "'z ServerState_scheme Net"
  assumes "ecdh_agree a b" and "pipelines (dataP (cprocs c)) = Map.empty" and "secured svr"
    and "callbackQueues (packetP (procs svr)) TargetKeyExchangeServer = Some [keyExchangeServer]"
    and "holds_key b (crypto (remote n))" and "keys (crypto (remote n)) me = None"
    and "pool_ok (cpc n)" and "open_ok (remote n)" and "sendStream (remote n) = []" and "writeStream (remote n) = []"
    and "pkt_synced pkt" and "meta_utf8 (MetaMap pkt)" and "resolve me = Some me"
  shows "\<exists>p' n' x. ConfigureClient (\<lambda>p. ask svr resolve me (c\<lparr>cprocs := p\<rparr>)) (Inr (private_key a)) saddr pkt (cprocs c) n =
      Inr (Some (Inr p'), n') \<and>
    stages_of (pipelines (dataP p')) ''_in_'' = [decryptTransport] \<and>
    stages_of (pipelines (dataP p')) ''_out_'' = [encryptTransport] \<and>
    keys (crypto n') saddr = Some \<lparr>keySent = True, shared = x, public = pub_of b\<rparr> \<and>
    keys (crypto (remote n')) me = Some \<lparr>keySent = False, shared = x, public = pub_of a\<rparr> \<and>
    holds_key a (crypto n') \<and> holds_key b (crypto (remote n')) \<and>
    (\<forall>e. e \<noteq> me \<longrightarrow> keys (crypto (remote n')) e = keys (crypto (remote n)) e) \<and>
    (\<forall>cr. holds_key a cr \<longrightarrow> computeSharedKey cr (pub_of b) = Inr x) \<and>
    pool_ok (cpc n') \<and> open_ok (remote n') \<and> sendStream (remote n') = [] \<and> writeStream (remote n') = [] \<and>
    rints n' = rints n \<and> (rand_ok (rand n) \<longrightarrow> rand_ok (rand n'))"
proof -
  obtain crA where crA: "NewCrypto (Some (private_key a)) (Inr (private_key a)) = Inr crA" "holds_key a crA"
    using NewCrypto_holds [of a "Inr (private_key a)"] by (auto simp: NewCrypto_def)
  let ?n = "n\<lparr>crypto := crA\<rparr>"
  have "plain_client c" "holds_key a (crypto ?n)"
    using assms(2) crA(2) by (simp_all add: plain_client_def)
  then obtain n' x where kex: "ServerKEx (ask svr resolve me c) saddr pkt ?n = Inr (Some (Inr ()), n')"
    "keys (crypto n') saddr = Some \<lparr>keySent = True, shared = x, public = pub_of b\<rparr>"
    "keys (crypto (remote n')) me = Some \<lparr>keySent = False, shared = x, public = pub_of a\<rparr>"
    "holds_key a (crypto n')" "holds_key b (crypto (remote n'))"
    "\<forall>e. e \<noteq> me \<longrightarrow> keys (crypto (remote n')) e = keys (crypto (remote n)) e"
    "computeSharedKey crA (pub_of b) = Inr x"
    "pool_ok (cpc n')" "open_ok (remote n')" "sendStream (remote n') = []" "writeStream (remote n') = []"
    "rints n' = rints n" "rand_ok (rand n) \<longrightarrow> rand_ok (rand n')"
    using ServerKEx_over_network [OF assms(1), where n = ?n and svr = svr and me = me and c = c and pkt = pkt
        and resolve = resolve and saddr = saddr] assms(3-13) by auto
  have x: "\<forall>cr. holds_key a cr \<longrightarrow> computeSharedKey cr (pub_of b) = Inr x"
    using kex(7) crA(2) by (simp add: computeSharedKey_def holds_key_def)
  obtain p' where p': "Extend ''client'' (cprocs c) = (p', None)"
    by (simp add: Extend_def installOnClient_def Let_def)
  have "ConfigureClient (\<lambda>p. ask svr resolve me (c\<lparr>cprocs := p\<rparr>)) (Inr (private_key a)) saddr pkt (cprocs c) n =
      Inr (Some (Inr p'), n')"
    using crA(1) kex(1) p' by (simp add: ConfigureClient_def)
  then show ?thesis
    using kex x Extend_parts [OF assms(2), of "''client''"] p'
    by (intro exI [of _ p'] exI [of _ n'] exI [of _ x]) simp
qed


section \<open>One client\<close>

text \<open>A client that is secured with the secret \<open>x\<close>, made from the private key \<open>a\<close>, and the server's side of it.\<close>

definition secured_client :: "nat \<Rightarrow> nat \<Rightarrow> int \<Rightarrow> 's UDPClient \<Rightarrow> Crypto \<Rightarrow> bool" where
  "secured_client a b x cl cr \<longleftrightarrow>
     svrAddr cl = exampleSvrAddr \<and> holds_key a cr \<and>
     keys cr exampleSvrAddr = Some \<lparr>keySent = True, shared = x, public = pub_of b\<rparr>"

definition secured_stages :: "'z CryptoState_scheme UDPClient \<Rightarrow> bool" where
  "secured_stages cl \<longleftrightarrow>
     stages_of (pipelines (dataP (cprocs cl))) ''_in_'' = [decryptTransport] \<and>
     stages_of (pipelines (dataP (cprocs cl))) ''_out_'' = [encryptTransport]"

lemma createSecureClient_ok:
  fixes n :: "'z ServerState_scheme Net"
  assumes "ecdh_agree a b" and "ecdh_secret a b x" and "secured svr"
    and "callbackQueues (packetP (procs svr)) TargetKeyExchangeServer = Some [keyExchangeServer]"
    and "holds_key b (crypto (remote n))" and "keys (crypto (remote n)) me = None" and "calm n" and "resolve me = Some me"
  shows "\<exists>cl n'. createSecureClient None (Inr (private_key a)) now (ask svr resolve me) n = Inr (Some cl, n') \<and>
    secured_client a b x cl (crypto n') \<and> secured_stages cl \<and>
    holds_key b (crypto (remote n')) \<and>
    keys (crypto (remote n')) = (keys (crypto (remote n)))(me \<mapsto> \<lparr>keySent = False, shared = x, public = pub_of a\<rparr>) \<and>
    calm n' \<and> rints n' = rints n"
proof -
  obtain cl m where cl: "NewUDPClient None exampleSvrAddr 4096 Rate10k now n = Inr (Inr (cl, m))"
    "svrAddr cl = exampleSvrAddr" "pipelines (dataP (cprocs cl)) = Map.empty"
    by (simp add: NewUDPClient_def NewUDPThrottle_def tpo_of_def quo_def Rate10k_def NewDataPipeline_def)
  obtain pkt pc' where pkt: "NewPkt '''' exampleSvrAddr (cpc n) = Inr (pkt, pc')" "pkt_synced pkt" "pool_ok pc'"
    "MetaMap pkt = [(KeyRef, '''')]"
    using NewPkt_synced [of "cpc n" "''''" exampleSvrAddr] assms(7) by (auto simp: calm_def)
  have utf: "meta_utf8 (MetaMap pkt)"
    by (simp add: pkt(4) meta_utf8_def utf8_valid_def to_valid_ascii key_defs)
  obtain p' n' x' where conf: "ConfigureClient (\<lambda>p. ask svr resolve me (cl\<lparr>cprocs := p\<rparr>)) (Inr (private_key a)) exampleSvrAddr
      pkt (cprocs cl) (n\<lparr>cpc := pc'\<rparr>) = Inr (Some (Inr p'), n')"
    "stages_of (pipelines (dataP p')) ''_in_'' = [decryptTransport]" "stages_of (pipelines (dataP p')) ''_out_'' = [encryptTransport]"
    "keys (crypto n') exampleSvrAddr = Some \<lparr>keySent = True, shared = x', public = pub_of b\<rparr>"
    "keys (crypto (remote n')) me = Some \<lparr>keySent = False, shared = x', public = pub_of a\<rparr>"
    "holds_key a (crypto n')" "holds_key b (crypto (remote n'))"
    "\<forall>e. e \<noteq> me \<longrightarrow> keys (crypto (remote n')) e = keys (crypto (remote n)) e"
    "\<forall>cr. holds_key a cr \<longrightarrow> computeSharedKey cr (pub_of b) = Inr x'"
    "pool_ok (cpc n')" "open_ok (remote n')" "sendStream (remote n') = []" "writeStream (remote n') = []"
    "rints n' = rints n" "rand_ok (rand n) \<longrightarrow> rand_ok (rand n')"
    using ConfigureClient_over_network [OF assms(1) cl(3) assms(3,4), of "n\<lparr>cpc := pc'\<rparr>" me pkt resolve exampleSvrAddr]
      assms(5-8) pkt(2,3) utf by (auto simp: calm_def)
  have "x' = x"
    using conf(6,9) ecdh_secret_shared [OF assms(2)] by auto
  moreover have "createSecureClient None (Inr (private_key a)) now (ask svr resolve me) n = Inr (Some (cl\<lparr>cprocs := p'\<rparr>), n')"
    using cl(1) pkt(1) conf(1) by (simp add: createSecureClient_def)
  ultimately show ?thesis
    using conf cl(2) assms(7)
    by (intro exI [of _ "cl\<lparr>cprocs := p'\<rparr>"] exI [of _ n'])
      (auto simp: secured_client_def secured_stages_def calm_def)
qed

section \<open>The exchange between the clients\<close>

text \<open>\<open>ClientKEx\<close> of an extension over a secured client; the extension need not be the client's own.\<close>

lemma other_key_asked:
  fixes n :: "'z ServerState_scheme Net"
  assumes cl: "secured_client a b x cl (crypto n)" "secured_stages cl" "aes_key_ok (big_Bytes x)"
    and svr: "secured svr" "callbackQueues (packetP (procs svr)) TargetKeyExchangeClient = Some [keyExchangeClient]"
    and me: "keys (crypto (remote n)) me = Some k" "shared k = x" "resolve me = Some me"
    and other: "list_all html_safe other" "length other \<le> 100" "keys (crypto (remote n)) other = Some ko"
    and rej: "\<forall>i. rejects x (kex_answer (fst (genRef 5 (n\<lparr>rused := i\<rparr>))) (public ko))" and n: "calm n"
  shows "\<exists>pkt c1 req resp n'. NewPkt '''' exampleSvrAddr (cpc n) = Inr (pkt, c1) \<and>
    ConfigureKeyExClientPkt other pkt = Inr req \<and> ask svr resolve me cl req (n\<lparr>cpc := c1\<rparr>) = Inr (Some resp, n') \<and>
    crypto n' = crypto n \<and> crypto (remote n') = crypto (remote n) \<and> Data resp = marshalPublicKey (public ko) \<and>
    calm n' \<and> rints n' = rints n"
proof -
  obtain pkt c1 where pkt: "NewPkt '''' exampleSvrAddr (cpc n) = Inr (pkt, c1)" "pkt_synced pkt" "pool_ok c1"
    "MetaMap pkt = [(KeyRef, '''')]" "dest pkt = exampleSvrAddr"
    using NewPkt_synced [of "cpc n" "''''" exampleSvrAddr] n by (auto simp: calm_def Dest_def)
  let ?n = "n\<lparr>cpc := c1\<rparr>"
  have "fst (genRef 5 ?n) = fst (genRef 5 (n\<lparr>rused := rused n\<rparr>))"
    by (simp add: numeral_eq_Suc Intn_def Let_def case_prod_beta)
  then have "rejects x (kex_answer (fst (genRef 5 ?n)) (public ko))"
    using rej by metis
  moreover have "keyed (svrAddr cl) x (crypto ?n)" "dest pkt = svrAddr cl"
    using cl(1) pkt(5) by (simp_all add: secured_client_def keyed_def)
  ultimately have "\<exists>req resp n'. ConfigureKeyExClientPkt other pkt = Inr req \<and> ask svr resolve me cl req ?n = Inr (Some resp, n') \<and>
    crypto n' = crypto ?n \<and> crypto (remote n') = crypto (remote ?n) \<and> Data resp = marshalPublicKey (public ko) \<and>
    pool_ok (cpc n') \<and> open_ok (remote n') \<and> sendStream (remote n') = [] \<and> writeStream (remote n') = [] \<and>
    rints n' = rints ?n \<and> rand_ok (rand n')"
    using cl(2,3) me other n pkt(2-4)
    by (intro client_key_asked [where k = k] svr) (simp_all add: secured_stages_def calm_def)
  then show ?thesis
    using pkt(1) by (fastforce simp: calm_def)
qed


lemma example_addrs:
  "list_all html_safe clientA_Addr" "list_all html_safe clientB_Addr" "length clientA_Addr \<le> 100" "length clientB_Addr \<le> 100"
  "clientA_Addr \<noteq> clientB_Addr" "clientA_Addr \<noteq> exampleSvrAddr" "clientB_Addr \<noteq> exampleSvrAddr"
  by (simp_all add: clientA_Addr_def clientB_Addr_def exampleSvrAddr_def html_safe_def)

lemma ClientKEx_ok:
  assumes "ConfigureKeyExClientPkt other pkt = Inr req" and "send_wait req s = Inr (Some resp, s1)"
    and "Data resp = marshalPublicKey pk" and "computeSharedKey (crypto s1) pk = Inr z"
  shows "ClientKEx send_wait other pkt s =
    Inr (Some (Inr ()), s1\<lparr>crypto := setKeyStore other \<lparr>keySent = True, shared = z, public = pk\<rparr> (crypto s1)\<rparr>)"
  using assms(1) await_key_ok [where ask = send_wait, OF assms(2-4)] by (simp add: ClientKEx_def)

text \<open>The exchange over the extension's own client, and over a client with another extension.\<close>

lemma own_exchange:
  fixes n :: "'z ServerState_scheme Net"
  assumes cl: "secured_client a b x cl (crypto n)" "secured_stages cl" "aes_key_ok (big_Bytes x)"
    and svr: "secured svr" "callbackQueues (packetP (procs svr)) TargetKeyExchangeClient = Some [keyExchangeClient]"
    and me: "keys (crypto (remote n)) me = Some k" "shared k = x" "resolve me = Some me"
    and other: "list_all html_safe other" "length other \<le> 100" "keys (crypto (remote n)) other = Some ko"
    and rej: "\<forall>i. rejects x (kex_answer (fst (genRef 5 (n\<lparr>rused := i\<rparr>))) (public ko))" and n: "calm n"
    and z: "computeSharedKey (crypto n) (public ko) = Inr z"
  shows "\<exists>pkt c1 n'. NewPkt '''' exampleSvrAddr (cpc n) = Inr (pkt, c1) \<and>
    ClientKEx (ask svr resolve me cl) other pkt (n\<lparr>cpc := c1\<rparr>) = Inr (Some (Inr ()), n') \<and>
    crypto n' = setKeyStore other \<lparr>keySent = True, shared = z, public = public ko\<rparr> (crypto n) \<and>
    crypto (remote n') = crypto (remote n) \<and> calm n' \<and> rints n' = rints n"
proof -
  obtain pkt c1 req resp n1 where ok: "NewPkt '''' exampleSvrAddr (cpc n) = Inr (pkt, c1)"
    "ConfigureKeyExClientPkt other pkt = Inr req" "ask svr resolve me cl req (n\<lparr>cpc := c1\<rparr>) = Inr (Some resp, n1)"
    "crypto n1 = crypto n" "crypto (remote n1) = crypto (remote n)" "Data resp = marshalPublicKey (public ko)" "calm n1" "rints n1 = rints n"
    using other_key_asked [where resolve = resolve, OF cl svr me other rej n] by blast
  then show ?thesis
    using ClientKEx_ok [where send_wait = "ask svr resolve me cl", OF ok(2,3,6), of z] z by (simp add: calm_def)
qed

lemma lent_exchange:
  fixes n :: "'z ServerState_scheme Net"
  assumes cl: "secured_client a b x cl (crypto n)" "secured_stages cl" "aes_key_ok (big_Bytes x)"
    and svr: "secured svr" "callbackQueues (packetP (procs svr)) TargetKeyExchangeClient = Some [keyExchangeClient]"
    and me: "keys (crypto (remote n)) me = Some k" "shared k = x" "resolve me = Some me"
    and other: "list_all html_safe other" "length other \<le> 100" "keys (crypto (remote n)) other = Some ko"
    and rej: "\<forall>i. rejects x (kex_answer (fst (genRef 5 (n\<lparr>rused := i\<rparr>))) (public ko))" and n: "calm n"
    and z: "computeSharedKey cr (public ko) = Inr z"
  shows "\<exists>pkt c1 l. NewPkt '''' exampleSvrAddr (cpc n) = Inr (pkt, c1) \<and>
    ClientKEx (lend (ask svr resolve me cl)) other pkt \<lparr>crypto = cr, rand = r, lent = n\<lparr>cpc := c1\<rparr>\<rparr> = Inr (Some (Inr ()), l) \<and>
    crypto l = setKeyStore other \<lparr>keySent = True, shared = z, public = public ko\<rparr> cr \<and>
    crypto (lent l) = crypto n \<and> crypto (remote (lent l)) = crypto (remote n)"
proof -
  obtain pkt c1 req resp n1 where ok: "NewPkt '''' exampleSvrAddr (cpc n) = Inr (pkt, c1)"
    "ConfigureKeyExClientPkt other pkt = Inr req" "ask svr resolve me cl req (n\<lparr>cpc := c1\<rparr>) = Inr (Some resp, n1)"
    "crypto n1 = crypto n" "crypto (remote n1) = crypto (remote n)" "Data resp = marshalPublicKey (public ko)"
    using other_key_asked [where resolve = resolve, OF cl svr me other rej n] by blast
  let ?l = "\<lparr>crypto = cr, rand = r, lent = n\<lparr>cpc := c1\<rparr>\<rparr>"
  have "lend (ask svr resolve me cl) req ?l = Inr (Some resp, ?l\<lparr>lent := n1\<rparr>)"
    using ok(3) by (simp add: lend_def)
  from ClientKEx_ok [where send_wait = "lend (ask svr resolve me cl)", OF ok(2) this ok(6), of z] show ?thesis
    using ok(1,4,5) z by simp
qed


definition demo_setup :: "AppState Net" where
  "demo_setup = (demo_net Map.empty Map.empty)\<lparr>rints := (\<lambda>i. 0)\<rparr>"

lemma demo_setup_refs: "fst (genRef 5 (demo_setup\<lparr>rused := i\<rparr>)) = ''aaaaa''"
proof -
  have "letters ! 0 = CHR ''a''"
    by (simp add: letters_def)
  then show ?thesis
    by (simp add: demo_setup_def numeral_eq_Suc Intn_def)
qed


end
