(* ===== verification/Spec2Isabelle.thy ===== *)
theory Spec2Isabelle
  imports Load_Client Udp_System Tcp_Server Packet_Life Crypto_Setup
begin

text \<open>
  A verification of Concord, a client-server packet protocol in Go.

  \<^bold>\<open>The program.\<close> A packet has metadata (a map of strings) and data, and travels as a JSON document
  (\<open>src/packet\<close>). A server or client runs every datagram through data pipelines, which transform bytes,
  and a server runs every decoded packet through the callback queue of its target (\<open>src/core\<close>). The
  crypto extension (\<open>src/core/crypto\<close>) installs pipeline stages that encrypt and decrypt, and callbacks
  that exchange keys. A throttle (\<open>src/core/throttle\<close>) paces reading and writing. On top stand the UDP
  and the TCP server (\<open>src/server\<close>), the UDP client (\<open>src/client\<close>) and example programs
  (\<open>src/examples\<close>).

  \<^bold>\<open>The theories.\<close>

  \<^item> \<open>Go_Prelude\<close>: panics as values (\<open>'a go\<close>, \<open>gbind\<close>), Go's maps as sorted lists, and the locale
    \<open>transition_invariant\<close>, which every state machine below interprets.
  \<^item> \<open>Go_Base64\<close>, \<open>Go_Json\<close>, \<open>Go_Json_Value\<close>, \<open>Go_Fmt\<close>, \<open>Go_Aes_Gcm\<close>, \<open>Go_P256\<close>: the parts of the standard
    library the code uses, as executable functions: \<open>encoding/base64\<close>; \<open>encoding/json\<close> with UTF-8
    replacement, escapes, depth limit and syntax errors; \<open>fmt.Errorf\<close>; \<open>crypto/aes\<close> with
    \<open>crypto/cipher\<close>'s GCM (locale \<open>aead\<close>); \<open>crypto/elliptic\<close> on P-256. That multiplication on the curve
    commutes is the hypothesis \<open>ecdh_agree\<close> on two private keys. \<open>Go_Aes_Eval\<close> makes AES-GCM run in the
    simplifier and checks the model against published test vectors.
  \<^item> \<open>Packet\<close> (\<open>json_packet.go\<close>, \<open>json_packet_creator.go\<close>, \<open>metadata.go\<close>): packets with the two references to
    their metadata that the Go structs have, \<open>Marshal\<close> and \<open>Unmarshal\<close>, and the pool. What the pool hands
    out is an oracle. \<open>pkt_wf\<close> and \<open>pkt_synced\<close> are the invariants. Shown: the wire round trip, error
    packets, decoding of arbitrary bytes, and what stale or null contents of a pooled packet do.
    \<open>Packet_Life\<close> shows both invariants of every program over a pool.
  \<^item> \<open>Pipeline\<close> (\<open>extension.go\<close>, \<open>data_pipeline.go\<close>, \<open>packet_pipeline.go\<close>): contexts, status codes,
    registration and processing; both loops refine one abstract run of stages (locale \<open>staged_run\<close>).
  \<^item> \<open>Crypto\<close>, \<open>Key_Exchange\<close> (\<open>crypto.go\<close>, \<open>server.go\<close>, \<open>aes_cipher.go\<close>, \<open>client.go\<close>): key stores, both
    pipeline stages, end-to-end encryption, the callbacks and the functions that drive a client through an
    exchange. Shown: round trips, agreement on the secret, installation, and the error cases.
  \<^item> \<open>Throttle\<close> (\<open>throttle.go\<close>, \<open>udp_throttle.go\<close>): rates as 64 bit words, and the reader, the writer and
    \<open>Shutdown\<close> as a transition system with a clock. Shown: the spacing of operations, the order and
    completeness of the queues, that every write can be answered, and that \<open>Shutdown\<close> hangs.
  \<^item> \<open>Go_Panics\<close>: postconditions of operations that may panic (\<open>yields\<close>).
  \<^item> \<open>Udp_Server\<close> (\<open>server.go\<close>, \<open>udp_server.go\<close>): processing in both directions, relaying, and the goroutines
    of \<open>Serve\<close> with those they start and the server's throttle. Shown: a server without extensions refines
    a specification of its replies and cannot panic except in two ways, and the ways in which a datagram
    stops a server. \<open>Udp_Serving\<close> shows of every schedule that each datagram is answered once and that the
    server keeps its rate.
  \<^item> \<open>Udp_Client\<close> (\<open>udp_client.go\<close>): the client's goroutines over the throttle of \<open>Throttle\<close>. Shown: responses
    reach the channel they belong to, what \<open>Send\<close> sends, the lost response, and that \<open>Cleanup\<close> hangs.
  \<^item> \<open>Tcp_Server\<close> (\<open>tcp_server.go\<close>): the accept loop and a connection's goroutines. Shown: it serves nobody.
  \<^item> \<open>Network\<close>: client and server together. The locale \<open>target_handler\<close> is the contract between a server
    and its callbacks; \<open>ask\<close> and \<open>server_hop\<close> compose the two sides over a network that delivers.
  \<^item> \<open>Udp_System\<close>: a server and clients as one transition system over a network that may lose, duplicate,
    delay and reorder. Shown: whatever a user receives has a cause.
  \<^item> \<open>Examples\<close> (\<open>src/examples\<close>): the echo servers and clients, and the crypto example's set-up and
    conversation. \<open>Load_Client\<close> is the load client, composed with the goroutines of its client. Shown: it
    ends, with every request answered. \<open>Kex_Example\<close> works out one key exchange in numbers, and \<open>Crypto_Setup\<close>
    shows that the crypto example's set-up succeeds.

  This theory holds the properties that span the components: securing a client, a request over an
  encrypted connection, the end-to-end encrypted conversation of two clients over a server, and that the
  TCP server processes a request as the UDP server does.

  \<^bold>\<open>Conventions.\<close> Bytes and Go strings are lists of characters. State that closures share is a record that
  is passed on; each layer extends the record of the layer below (\<open>CryptoState\<close>, then \<open>ServerState\<close>,
  \<open>ClientState\<close> or \<open>TcpState\<close>, then the application's). Mutexes are not modelled: what a lock protects, and
  the processing of one packet by its goroutine, is one step. Channels appear as the lists of values or
  blocked senders; a step that would block is \<open>None\<close>. The packet of a context is the packet the caller
  holds, so a caller continues with the packet in the returned context; callbacks change it in place and
  do not put another packet there. Random numbers, random bytes, the clock, name resolution, the errors of
  system calls and the choice of a pooled object are parameters or oracles in the state.

  \<^bold>\<open>Bounds.\<close> There is no fuel: every recursion is structural or has a measure. The bounds in hypotheses
  come from the code or the standard library: GCM's limit on a message (\<open>gcm_limit\<close>), the sizes of AES keys,
  JSON's depth limit, and, for the composed properties, generous bounds on texts, so that a packet stays
  below GCM's limit (\<open>pkt_weight\<close> bounds the size of a marshalled packet).

  \<^bold>\<open>Not modelled.\<close> The interfaces of \<open>client.go\<close>, \<open>server.go\<close>, \<open>packet.go\<close> and \<open>extension.go\<close> and the
  accessors of processors, which only name what the records hold; logging; the texts of errors of
  \<open>encoding/json\<close>; data races (two methods write under a read lock); interleaving inside the processing
  of one packet; the sockets themselves; the times the load client measures. \<open>go.mod\<close> asks for Go
  1.14; the depth limit of \<open>encoding/json\<close> and the check that a point lies on the curve are those of later
  releases of the standard library.
\<close>

section \<open>Securing a client\<close>

text \<open>
  C4: \<open>ConfigureClient\<close> secures a new client against a server with the crypto extension. The client
  composes its public key into the packet, sends it over its unsecured pipelines, the server decodes
  it, stores the secret for the sender and answers with its own key, exempt from encryption, and the
  client decodes the answer and stores the secret. \<open>ConfigureClient\<close> returns without error, both ends
  hold the same secret and each other's public key, and the client's pipelines encrypt and decrypt from
  then on. Only the server's mark that the key has been sent is still missing.
\<close>

theorem ConfigureClient_agrees:
  fixes n :: "'z ServerState_scheme Net"
  assumes "ecdh_agree a b"
    and "NewUDPClient None saddr sz r now n = Inr (Inr (c, m))"
    and "NewUDPServer None sa sz' r' = Inr (Inr svr)" and "Extend ''server'' (procs svr) = (ps, None)"
    and "NewCrypto (Some (private_key b)) gen = Inr cr" and "crypto (remote n) = cr\<lparr>keys := ks\<rparr>" and "ks me = None"
    and "pool_ok (pc (remote n))" and "\<not> streamsClosed (remote n)"
    and "sendStream (remote n) = []" and "writeStream (remote n) = []"
    and "pool_ok (cpc n)" and "pkt_synced pkt" and "meta_utf8 (MetaMap pkt)" and "resolve me = Some me"
  shows "\<exists>p' n' x. ConfigureClient (\<lambda>p. ask (svr\<lparr>procs := ps\<rparr>) resolve me (c\<lparr>cprocs := p\<rparr>)) (Inr (private_key a))
      saddr pkt (cprocs c) n = Inr (Some (Inr p'), n') \<and>
    stages_of (pipelines (dataP p')) ''_in_'' = [decryptTransport] \<and>
    stages_of (pipelines (dataP p')) ''_out_'' = [encryptTransport] \<and>
    keys (crypto n') saddr = Some \<lparr>keySent = True, shared = x, public = pub_of b\<rparr> \<and>
    keys (crypto (remote n')) me = Some \<lparr>keySent = False, shared = x, public = pub_of a\<rparr>"
proof -
  have pc: "pipelines (dataP (cprocs c)) = Map.empty"
    using assms(2) by (auto simp: NewUDPClient_def go_simps NewDataPipeline_def)
  have pl: "pipelines (dataP (procs svr)) = Map.empty"
    using NewUDPServer_plain [OF assms(3)] by (simp add: plain_def)
  have ps: "ps = fst (Extend ''server'' (procs svr))"
    using assms(4) by simp
  let ?svr = "svr\<lparr>procs := ps\<rparr>"
  have "secured ?svr"
    using Extend_parts [OF pl, of "''server''"] by (simp add: secured_def ps)
  moreover have "callbackQueues (packetP (procs ?svr)) TargetKeyExchangeServer = Some [keyExchangeServer]"
    using Extend_server_targets [OF NewUDPServer_targets [OF assms(3)]]
    by (simp add: ps TargetKeyExchangeServer_def TargetKeyExchangeClient_def)
  moreover have "holds_key b (crypto (remote n))" "keys (crypto (remote n)) me = None"
    using NewCrypto_holds [OF assms(5)] assms(6,7) by (simp_all add: holds_key_def)
  ultimately show ?thesis
    using ConfigureClient_over_network [OF assms(1) pc, of ?svr n me pkt resolve saddr] assms(8-15) by blast
qed

text \<open>A new client, for the witnesses.\<close>

definition demo_net_client :: "AppState Net UDPClient" where
  "demo_net_client = \<lparr>svrAddr = exampleSvrAddr, cprocs = \<lparr>dataP = NewDataPipeline, packetP = NewPacketPipeline\<rparr>\<rparr>"

lemma demo_net_client_new: "\<exists>m. NewUDPClient None exampleSvrAddr 4096 Rate1k 0 n = Inr (Inr (demo_net_client, m))"
  by (simp add: NewUDPClient_def demo_throttle_new demo_net_client_def)

theorem ConfigureClient_agrees_witness:
  "\<exists>svr p' n' x. NewUDPServer None listenAddr 4096 Rate1k = Inr (Inr svr) \<and>
    ConfigureClient (\<lambda>p. ask (svr\<lparr>procs := fst (Extend ''server'' (procs svr))\<rparr>) Some ''10.0.0.1:9''
        (demo_net_client\<lparr>cprocs := p\<rparr>)) (Inr (private_key 1))
      exampleSvrAddr newJSONPkt (cprocs demo_net_client) (demo_net Map.empty Map.empty) = Inr (Some (Inr p'), n') \<and>
    keys (crypto n') exampleSvrAddr = Some \<lparr>keySent = True, shared = x, public = pub_of 1\<rparr> \<and>
    keys (crypto (remote n')) ''10.0.0.1:9'' = Some \<lparr>keySent = False, shared = x, public = pub_of 1\<rparr>"
proof -
  obtain svr :: "AppState UDPServer" where svr: "NewUDPServer None listenAddr 4096 Rate1k = Inr (Inr svr)"
    by (simp add: NewUDPServer_def demo_throttle_new)
  obtain m where new: "NewUDPClient None exampleSvrAddr 4096 Rate1k 0 (demo_net Map.empty Map.empty) = Inr (Inr (demo_net_client, m))"
    using demo_net_client_new by blast
  obtain ps where ext: "Extend ''server'' (procs svr) = (ps, None)"
    by (simp add: Extend_def installOnServer_def Let_def)
  have "meta_utf8 (MetaMap newJSONPkt)" "demo_crypto Map.empty = (demo_crypto Map.empty)\<lparr>keys := Map.empty\<rparr>"
    by (simp_all add: newJSONPkt_def MetaMap_def meta_utf8_def demo_crypto_def)
  then show ?thesis
    using ConfigureClient_agrees [OF ecdh_agree_base new svr ext NewCrypto_demo, of Map.empty "''10.0.0.1:9''" newJSONPkt Some] svr ext
    by (intro exI [of _ svr]) auto
qed

section \<open>A secured request\<close>

text \<open>
  C3: the crypto example answers over an encrypted connection. When client and server hold the same
  secret, of a size AES accepts, and the server has marked its key as sent, the echo client's request
  goes through reference, encryption, decryption, decoding, dispatch and the callback, and the
  response through encoding, encryption, decryption and routing: the client gets the text the
  callback wrote, the server has counted one request, and its keys are unchanged.
\<close>

theorem secured_echo_answered:
  fixes n :: "'z AppState_scheme Net"
  assumes "crypto_server None (Inr key) = Inr (Some (svr, cr))"
    and "stages_of (pipelines (dataP (cprocs c))) ''_out_'' = [encryptTransport]"
    and "stages_of (pipelines (dataP (cprocs c))) ''_in_'' = [decryptTransport]" and "svrAddr c = exampleSvrAddr"
    and "keyed exampleSvrAddr x (crypto n)" and "keyed me x (crypto (remote n))" and "aes_key_ok (big_Bytes x)"
    and "rand_ok (rand n)" and "rand_ok (rand (remote n))"
    and "pool_ok (cpc n)" and "pool_ok (pc (remote n))" and "\<not> streamsClosed (remote n)"
    and "sendStream (remote n) = []" and "writeStream (remote n) = []"
    and "length (appNow (remote n)) \<le> 1000" and "resolve me = Some me"
  shows "\<exists>n'. echo_client (ask svr resolve me c) n = Inr (Some (''Received at '' @ appNow (remote n)), n') \<and>
    requestsServed (remote n') = requestsServed (remote n) + 1 \<and> crypto (remote n') = crypto (remote n)"
proof -
  obtain req pc' where req: "echo_request (cpc n) = Inr (Close req, pc')" "pool_ok pc'" "pkt_synced req"
    "dest req = exampleSvrAddr" "MetaMap req = [(KeyRef, ''''), (KeyTarget, TargetEcho)]"
    "Data req = CHR ''{'' # dquote # ''msg'' @ dquote # CHR '':'' # dquote # ''hello'' @ dquote # ''}''"
    using echo_request_ok [OF assms(10)] by blast
  let ?n = "n\<lparr>cpc := pc'\<rparr>"
  have meta: "meta_utf8 (MetaMap req)" "MetaGet KeyTarget req = TargetEcho" "MetaGet KeyNoCrypto req = ''''"
    "MetaGet KeyRef req = ''''"
    by (simp_all add: req(5) meta_utf8_def utf8_valid_def to_valid_ascii key_defs TargetEcho_def MetaGet_MetaMap
        gm_str_def KeyNoCrypto_def)
  have "pkt_weight (Close req) + 60 \<le> gcm_limit"
    using pkt_weight_Close [of req] by (simp add: req(5,6) map_weight_def key_defs TargetEcho_def gcm_limit_def)
  moreover have "crypto s = crypto (remote n) \<and> \<not> skips_crypto (MetaGet KeyNoCrypto r) \<and> pkt_weight (Close r) \<le> gcm_limit"
    if "echo_post (Data req) me (echo_state (remote ?n)) r (echo_state s)" "length (MetaGet KeyRef r) \<le> max 5 (length (MetaGet KeyRef req))"
    for r and s :: "'z AppState_scheme"
    using that pkt_weight_Close [of r] assms(15) meta(4)
    by (auto simp: echo_state_def MetaGet_MetaMap gm_str_def KeyNoCrypto_def key_defs skips_crypto_def map_weight_def gcm_limit_def)
  moreover have "echo_pre (Data req) (echo_state (remote ?n))"
    using unmarshalMsg_hello by (simp add: echo_pre_def req(6))
  ultimately obtain resp n' r where ask: "ask svr resolve me c (Close req) ?n = Inr (Some resp, n')"
    "echo_post (Data req) me (echo_state (remote ?n)) r (echo_state (remote n'))" "Data resp = Data r"
    using echo.secure_asked [where resolve = resolve and svr = svr and c = c and n = ?n and p = req and me = me and x = x,
        OF req(3) meta(1)] req(2,4) meta assms crypto_server_ok [OF assms(1)] by (auto simp: skips_crypto_def)
  then show ?thesis
    using req(1) by (intro exI [of _ n']) (auto simp: echo_client_def echo_state_def)
qed


theorem secured_echo_answered_witness:
  "\<exists>svr cr n'. crypto_server None (Inr (private_key 1)) = Inr (Some (svr, cr)) \<and>
    echo_client (ask svr Some ''10.0.0.1:9'' (demo_net_client\<lparr>cprocs := fst (Extend ''client'' (cprocs demo_net_client))\<rparr>))
      (demo_net [exampleSvrAddr \<mapsto> demo_store True] [''10.0.0.1:9'' \<mapsto> demo_store True]) =
      Inr (Some ''Received at noon'', n') \<and> requestsServed (remote n') = 1"
proof -
  let ?c = "demo_net_client\<lparr>cprocs := fst (Extend ''client'' (cprocs demo_net_client))\<rparr>"
  obtain svr :: "AppState UDPServer" and cr where svr: "crypto_server None (Inr (private_key 1)) = Inr (Some (svr, cr))"
    by (simp add: crypto_server_def NewUDPServer_def NewUDPThrottle_def tpo_of_def quo_def sec_def Rate10k_def NewCrypto_def Let_def)
  have "pipelines (dataP (cprocs demo_net_client)) = Map.empty"
    by (simp add: demo_net_client_def NewDataPipeline_def)
  note stages = Extend_parts [OF this, of "''client''"]
  have "keyed a demo_shared (demo_crypto [a \<mapsto> demo_store True])" for a
    by (simp add: keyed_def demo_crypto_def demo_store_def)
  moreover have "requestsServed (demo_app ks) = 0" for ks
    by (simp add: demo_app_def)
  ultimately show ?thesis
    using secured_echo_answered [OF svr, where c = ?c and x = demo_shared and me = "''10.0.0.1:9''" and resolve = Some
        and n = "demo_net [exampleSvrAddr \<mapsto> demo_store True] [''10.0.0.1:9'' \<mapsto> demo_store True]"]
      stages demo_shared_key svr
    by (auto simp: demo_net_client_def)
qed

section \<open>An end-to-end encrypted conversation\<close>


definition demo_peer :: "string \<Rightarrow> ClientState" where
  "demo_peer other = (demo_cstate [])\<lparr>crypto := demo_crypto [exampleSvrAddr \<mapsto> demo_store True, other \<mapsto> demo_store True]\<rparr>"

definition demo_peer_client :: "ClientState UDPClient" where
  "demo_peer_client = \<lparr>svrAddr = exampleSvrAddr,
     cprocs = fst (Extend ''client'' \<lparr>dataP = NewDataPipeline, packetP = NewPacketPipeline\<rparr>)\<rparr>"



section \<open>The two servers\<close>

text \<open>What a UDP server does with a datagram, told by the end of the TCP server's goroutine: the same
  panic, or the same answer enqueued and the decoded packet back in the same pool.\<close>

definition as_tcp_end ::
  "(tcp_end \<times> 'y TcpState_scheme) go \<Rightarrow> 'z ServerState_scheme \<Rightarrow> 'z ServerState_scheme go" where
  "as_tcp_end r s =
     gbind r (\<lambda>(e, t). Inr (case e of
         TcpSend resp after \<Rightarrow>
           s\<lparr>pc := (case after of Some q \<Rightarrow> PutBack q (tpc t) | None \<Rightarrow> tpc t), sendStream := sendStream s @ [resp]\<rparr>
       | _ \<Rightarrow> s\<lparr>pc := tpc t\<rparr>))"

lemma as_tcp_end_pool [simp]: "as_tcp_end r (s\<lparr>pc := x\<rparr>) = as_tcp_end r s"
  by (simp add: as_tcp_end_def cong: tcp_end.case_cong)

lemma as_tcp_end_panic [simp]: "as_tcp_end (Inl p) s = Inl p"
  by (simp add: as_tcp_end_def)

lemma error_as_tcp_end:
  assumes "\<not> streamsClosed s" and "tpc t = pc s"
  shows "gbind (svr_send_err ref d msg s) (\<lambda>s2. Inr (svr_PutBack q s2)) =
    as_tcp_end (tcp_send_err ref d msg (Some q) t) s"
  using assms by (cases "NewErrPkt ref d msg (pc s)")
    (auto simp: svr_send_err_def tcp_send_err_def svr_send_def svr_PutBack_def as_tcp_end_def)

text \<open>What a new UDP server makes of a datagram, once it has a packet to decode it into.\<close>

lemma new_server_incoming:
  assumes "NewUDPServer None a sz r = Inr (Inr svr)" and "NewPkt '''' '''' (pc s) = Inr (pkt, pc1)" and "Unmarshal data pkt = (pkt1, e)"
  shows "UDPServer_processIncoming svr data b s =
    (case e of Some _ \<Rightarrow> gbind (svr_send_err '''' b ''malformed packet'' (s\<lparr>pc := pc1\<rparr>)) (\<lambda>s2. Inr (svr_PutBack pkt1 s2))
     | None \<Rightarrow> run_target (packetP (procs svr)) pkt1 b (s\<lparr>pc := pc1\<rparr>))"
  using assms(2,3) NewUDPServer_plain [OF assms(1)]
  by (simp add: UDPServer_processIncoming_def CodeStopNoop_def split: option.split)



end
